(* ===== verification/Prelude.thy ===== *)
theory Prelude
  imports Main "HOL-Library.Word" "HOL-Library.Monad_Syntax"
begin

text \<open>
  Shared vocabulary of the development: the machine types of the C sources, byte memory with
  bounds-checked access, C integers that must not overflow, and the list and word lemmas the
  component theories rest on.

  Plain \<open>char\<close> is unsigned on the ARM targets this layer builds for (the sources compare
  \<open>*address == 0xC1\<close>), so a \<open>char\<close> is an unsigned 8-bit word.  A block of memory is the list
  of its bytes and a pointer into it is an offset.  In every definition of type \<open>_ option\<close> that
  stands for C code, \<open>None\<close> is undefined behaviour of the source: an access outside the block, a
  signed overflow, a variable-length array without a positive size.
\<close>

unbundle bit_operations_syntax

named_theorems mem_simps "bounds-checked access to byte memory"
named_theorems word_facts "facts on machine words shared by the components"

type_synonym byte = "8 word"
type_synonym u32 = "32 word"
type_synonym u64 = "64 word"

section \<open>Byte memory\<close>

definition ld :: "byte list \<Rightarrow> nat \<Rightarrow> byte option" where
  "ld mem a = (if a < length mem then Some (mem ! a) else None)"

definition st :: "byte list \<Rightarrow> nat \<Rightarrow> byte \<Rightarrow> byte list option" where
  "st mem a b = (if a < length mem then Some (mem[a := b]) else None)"

text \<open>\<open>ldn\<close> and \<open>stn\<close> are the two sides of \<open>memcpy\<close>, \<open>memset\<close> and \<open>memcmp\<close>.\<close>

definition ldn :: "byte list \<Rightarrow> nat \<Rightarrow> nat \<Rightarrow> byte list option" where
  "ldn mem a n = (if a + n \<le> length mem then Some (take n (drop a mem)) else None)"

definition stn :: "byte list \<Rightarrow> nat \<Rightarrow> byte list \<Rightarrow> byte list option" where
  "stn mem a xs =
     (if a + length xs \<le> length mem
      then Some (take a mem @ xs @ drop (a + length xs) mem) else None)"

lemma ld_append1 [mem_simps]: "a < length xs \<Longrightarrow> ld (xs @ ys) a = Some (xs ! a)"
  by (simp add: ld_def nth_append)

lemma ld_append2 [mem_simps]: "length xs \<le> a \<Longrightarrow> ld (xs @ ys) a = ld ys (a - length xs)"
  by (auto simp: ld_def nth_append)

lemma ld_at [simp]: "ld (xs @ y # ys) (length xs) = Some y"
  by (simp add: ld_def)

lemma ld_SomeD: "ld mem a = Some b \<Longrightarrow> a < length mem \<and> b = mem ! a"
  by (auto simp: ld_def split: if_splits)

lemma ld_split: "ld mem a = Some b \<Longrightarrow> mem = take a mem @ b # drop (Suc a) mem"
  by (auto simp: ld_def id_take_nth_drop split: if_splits)

lemma st_length: "st mem a b = Some mem' \<Longrightarrow> length mem' = length mem"
  by (auto simp: st_def split: if_splits)

lemma stn_length: "stn mem a xs = Some mem' \<Longrightarrow> length mem' = length mem"
  by (auto simp: stn_def split: if_splits)

lemma st_at [simp]: "st (xs @ y # ys) (length xs) b = Some (xs @ b # ys)"
  by (simp add: st_def)

lemma stn_at: "length ys = length zs \<Longrightarrow> stn (xs @ ys @ ws) (length xs) zs = Some (xs @ zs @ ws)"
  by (simp add: stn_def)

lemma ldn_at: "n = length ys \<Longrightarrow> ldn (xs @ ys @ zs) (length xs) n = Some ys"
  by (simp add: ldn_def)

section \<open>C integers\<close>

text \<open>The value of a signed 32-bit expression, where overflow is undefined.\<close>

definition int32 :: "int \<Rightarrow> int option" where
  "int32 x = (if - (2 ^ 31) \<le> x \<and> x < 2 ^ 31 then Some x else None)"

lemma int32_Some [simp]: "int32 x = Some y \<longleftrightarrow> y = x \<and> - (2 ^ 31) \<le> x \<and> x < 2 ^ 31"
  by (auto simp: int32_def)

section \<open>Strings\<close>

text \<open>A C string is the list of its bytes before the terminating NUL.\<close>

definition cstr :: "string \<Rightarrow> byte list" where
  "cstr s = map of_char s"

section \<open>Number conversion of the C library\<close>

text \<open>\<open>%d\<close> and \<open>%02x\<close> of \<open>printf\<close>.\<close>

definition digit_char :: "nat \<Rightarrow> char" where
  "digit_char d = char_of (if d < 10 then 48 + d else 87 + d)"

fun nat_digits :: "nat \<Rightarrow> nat \<Rightarrow> string" where
  "nat_digits base n =
     (if base < 2 \<or> n < base then [digit_char n] else nat_digits base (n div base) @ [digit_char (n mod base)])"

declare nat_digits.simps [simp del]

definition show_int :: "int \<Rightarrow> string" where
  "show_int i = (if i < 0 then ''-'' @ nat_digits 10 (nat (- i)) else nat_digits 10 (nat i))"

definition show_hex2 :: "u32 \<Rightarrow> string" where
  "show_hex2 w = (if w < 16 then ''0'' else []) @ nat_digits 16 (unat w)"

text \<open>\<open>strtol\<close> and \<open>strtoul\<close> on a 64-bit \<open>long\<close>: the value and the rest of the string at which
  \<open>*end\<close> points, \<open>None\<close> if no conversion was possible (then \<open>*end\<close> is the start).\<close>

definition is_space :: "char \<Rightarrow> bool" where
  "is_space c \<longleftrightarrow> of_char c \<in> {9, 10, 11, 12, 13, 32 :: nat}"

definition digit_val :: "char \<Rightarrow> nat" where
  "digit_val c = (let n = of_char c in
     if 48 \<le> n \<and> n \<le> 57 then n - 48
     else if 97 \<le> n \<and> n \<le> 122 then n - 87
     else if 65 \<le> n \<and> n \<le> 90 then n - 55 else 99)"

definition sign_split :: "string \<Rightarrow> bool \<times> string" where
  "sign_split s = (case s of
     c # t \<Rightarrow> if c = CHR ''-'' then (True, t) else if c = CHR ''+'' then (False, t) else (False, s)
   | [] \<Rightarrow> (False, []))"

definition hex_prefix :: "nat \<Rightarrow> string \<Rightarrow> string" where
  "hex_prefix base s = (case s of
     z # x # c # t \<Rightarrow> if base = 16 \<and> z = CHR ''0'' \<and> x \<in> {CHR ''x'', CHR ''X''} \<and> digit_val c < 16 then c # t else s
   | _ \<Rightarrow> s)"

definition strto :: "nat \<Rightarrow> string \<Rightarrow> (int \<times> string) option" where
  "strto base s =
     (let (neg, t) = sign_split (dropWhile is_space s);
          u = hex_prefix base t;
          ds = takeWhile (\<lambda>c. digit_val c < base) u;
          v = foldl (\<lambda>n c. base * n + digit_val c) 0 ds
      in if ds = [] then None else Some (if neg then - int v else int v, drop (length ds) u))"

definition strtol :: "nat \<Rightarrow> string \<Rightarrow> (int \<times> string) option" where
  "strtol base s = map_option (\<lambda>(v, r). (max (- (2 ^ 63)) (min v (2 ^ 63 - 1)), r)) (strto base s)"

definition strtoul :: "nat \<Rightarrow> string \<Rightarrow> (int \<times> string) option" where
  "strtoul base s =
     map_option (\<lambda>(v, r). (if 2 ^ 64 \<le> \<bar>v\<bar> then 2 ^ 64 - 1 else v mod 2 ^ 64, r)) (strto base s)"

lemma digits_16: "d < 16 \<longleftrightarrow> d \<in> set [0, 1, 2, 3, 4, 5, 6, 7, 8, 9, 10, 11, 12, 13, 14, 15 :: nat]"
proof -
  have "d < 16 \<longleftrightarrow> d \<in> set [0..<16]" by simp
  also have "[0..<16] = [0, 1, 2, 3, 4, 5, 6, 7, 8, 9, 10, 11, 12, 13, 14, 15]" by (simp add: upt_rec)
  finally show ?thesis .
qed

lemma digit_val_char: "d < 16 \<Longrightarrow> digit_val (digit_char d) = d"
  unfolding digits_16 by (auto simp: digit_val_def digit_char_def Let_def)

lemma digit_char_plain:
  assumes "d < 16"
  shows "\<not> is_space (digit_char d) \<and> digit_char d \<noteq> CHR ''-'' \<and> digit_char d \<noteq> CHR ''+''"
proof -
  have "\<not> is_space (digit_char d)"
    using assms unfolding digits_16 by (auto simp: is_space_def digit_char_def)
  moreover have "digit_val (CHR ''-'') = 99" "digit_val (CHR ''+'') = 99" by (simp_all add: digit_val_def Let_def)
  ultimately show ?thesis using digit_val_char [OF assms] assms by auto
qed

lemma nat_digits_value:
  assumes "2 \<le> base" "base \<le> 16"
  shows "nat_digits base n \<noteq> [] \<and> set (nat_digits base n) \<subseteq> digit_char ` {..<base} \<and>
    foldl (\<lambda>n c. base * n + digit_val c) 0 (nat_digits base n) = n"
  using assms
proof (induction base n rule: nat_digits.induct)
  case (1 base n)
  show ?case
  proof (cases "n < base")
    case True
    then show ?thesis using 1(2,3) by (auto simp: nat_digits.simps [of base n] digit_val_char)
  next
    case False
    have "n mod base < base" using 1(2) by simp
    then have "digit_val (digit_char (n mod base)) = n mod base" using 1(3) by (intro digit_val_char) simp
    then show ?thesis using 1 False by (subst (1 2 3) nat_digits.simps) (auto simp: \<open>n mod base < base\<close>)
  qed
qed

lemma takeWhile_digits: "\<forall>c \<in> set ds. P c \<Longrightarrow> takeWhile P ds = ds"
  by (simp add: takeWhile_eq_all_conv)

lemma hd_plain:
  assumes "set ds \<subseteq> digit_char ` {..<16}" "ds \<noteq> []"
  shows "dropWhile is_space ds = ds" "sign_split ds = (False, ds)"
  using assms digit_char_plain by (cases ds; fastforce simp: sign_split_def)+

lemma sign_split_minus: "sign_split (CHR ''-'' # t) = (True, t)"
  by (simp add: sign_split_def)

lemma strtol_digits:
  assumes "ds \<noteq> []" "\<forall>d \<in> set ds. d < 10" "rest = [] \<or> 10 \<le> digit_val (hd rest)" "foldl (\<lambda>n d. 10 * n + d) 0 ds < 2 ^ 63"
  shows "strtol 10 (map digit_char ds @ rest) = Some (int (foldl (\<lambda>n d. 10 * n + d) 0 ds), rest)"
proof -
  have v: "digit_val (digit_char d) = d" if "d \<in> set ds" for d using assms(2) that by (intro digit_val_char) auto
  obtain d es where ds: "ds = d # es" using assms(1) by (cases ds) auto
  have "dropWhile is_space (map digit_char ds @ rest) = map digit_char ds @ rest"
    "sign_split (map digit_char ds @ rest) = (False, map digit_char ds @ rest)"
    using digit_char_plain [of d] assms(2) by (auto simp: ds sign_split_def)
  moreover have "hex_prefix 10 xs = xs" for xs by (simp add: hex_prefix_def split: list.split)
  moreover have "takeWhile (\<lambda>c. digit_val c < 10) (map digit_char ds @ rest) = map digit_char ds"
  proof -
    have "takeWhile (\<lambda>c. digit_val c < 10) rest = []" using assms(3) by (cases rest) auto
    then show ?thesis using v assms(2) by (subst takeWhile_append2) auto
  qed
  moreover have "foldl (\<lambda>n c. 10 * n + digit_val c) 0 (map digit_char ds) = foldl (\<lambda>n d. 10 * n + d) 0 ds"
    using v by (auto simp: foldl_map intro: foldl_cong)
  ultimately have "strto 10 (map digit_char ds @ rest) = Some (int (foldl (\<lambda>n d. 10 * n + d) 0 ds), rest)"
    using assms(1) by (simp add: strto_def Let_def)
  then show ?thesis using assms(4) by (simp add: strtol_def)
qed

text \<open>Conversion of a wider integer to \<open>int\<close> keeps the low 32 bits.\<close>

definition to_int32 :: "int \<Rightarrow> int" where
  "to_int32 v = sint (of_int v :: u32)"

lemma to_int32_id: "- (2 ^ 31) \<le> i \<Longrightarrow> i < 2 ^ 31 \<Longrightarrow> to_int32 i = i"
  by (simp add: to_int32_def signed_of_int signed_take_bit_int_eq_self)

section \<open>Error numbers of the kernel\<close>

definition ENOMEM :: int where "ENOMEM = 12"
definition EAGAIN :: int where "EAGAIN = 11"
definition EBUSY :: int where "EBUSY = 16"
definition EINVAL :: int where "EINVAL = 22"
definition ERESTARTSYS :: int where "ERESTARTSYS = 512"
definition EFAULT :: int where "EFAULT = 14"
definition ENOTTY :: int where "ENOTTY = 25"
definition EPERM :: int where "EPERM = 1"
definition EIO :: int where "EIO = 5"
definition ENXIO :: int where "ENXIO = 6"
definition ENODEV :: int where "ENODEV = 19"
definition EFBIG :: int where "EFBIG = 27"
definition EBADMSG :: int where "EBADMSG = 74"

lemmas errno_defs = ENOMEM_def EAGAIN_def EBUSY_def EINVAL_def ERESTARTSYS_def EFAULT_def ENOTTY_def EPERM_def EIO_def
  ENXIO_def ENODEV_def EFBIG_def EBADMSG_def

section \<open>Ioctl numbers of the kernel\<close>

definition IOC_DIR :: "u32 \<Rightarrow> u32" where "IOC_DIR cmd = drop_bit 30 cmd AND 3"
definition IOC_TYPE :: "u32 \<Rightarrow> u32" where "IOC_TYPE cmd = drop_bit 8 cmd AND 0xFF"
definition IOC_NR :: "u32 \<Rightarrow> u32" where "IOC_NR cmd = cmd AND 0xFF"
definition IOC_SIZE :: "u32 \<Rightarrow> u32" where "IOC_SIZE cmd = drop_bit 16 cmd AND 0x3FFF"

text \<open>\<open>_IOR(magic, nr, unsigned long)\<close> and \<open>_IOW(magic, nr, unsigned long)\<close> on a 64-bit kernel.\<close>

definition IOR :: "u32 \<Rightarrow> u32 \<Rightarrow> u32" where
  "IOR magic nr = push_bit 30 2 OR push_bit 16 8 OR push_bit 8 magic OR nr"

definition IOW :: "u32 \<Rightarrow> u32 \<Rightarrow> u32" where
  "IOW magic nr = push_bit 30 1 OR push_bit 16 8 OR push_bit 8 magic OR nr"

section \<open>Lists\<close>

lemma nth_list_update_if: "xs[i := x] ! j = (if i = j \<and> j < length xs then x else xs ! j)"
  by (cases "i = j"; cases "j < length xs") (simp_all add: list_update_beyond)

section \<open>Partiality\<close>

lemma option_bindE: "m \<bind> k = Some z \<Longrightarrow> (\<And>y. m = Some y \<Longrightarrow> k y = Some z \<Longrightarrow> Q) \<Longrightarrow> Q"
  by (cases m) simp_all

section \<open>Sums of bytes\<close>

lemma sum_list_word_append [word_facts]:
  "sum_list (xs @ ys) = sum_list xs + (sum_list ys :: byte)"
  by simp

lemma unat_byte_le [word_facts]: "unat (b :: byte) \<le> 255"
proof -
  have "unat b < 2 ^ LENGTH(8)" by (rule unsigned_less)
  then show ?thesis by simp
qed

section \<open>Words\<close>

lemma unat_plus_small: "unat (a :: u64) + n < 2 ^ 64 \<Longrightarrow> unat (a + of_nat n) = unat a + n"
  by (simp add: unat_word_ariths unat_of_nat take_bit_nat_def mod_simps)

lemma unat_ucast64 [simp]: "unat (ucast (w :: u32) :: u64) = unat w"
proof -
  have "unat w < 2 ^ LENGTH(32)" by (rule unsigned_less)
  then have "unat w < 2 ^ 64" by simp
  then show ?thesis by (simp add: unsigned_ucast_eq take_bit_nat_eq_self)
qed

end
