(* ===== verification/Fru_Codec.thy ===== *)
theory Fru_Codec
  imports Prelude
begin

text \<open>
  The encoding layer of the FRU tool, \<open>recipes-bsp/shared/files/ivfru_common.c\<close> lines 8 to 376
  (the calendar apart, see theory Fru_Date) and the enumerations of \<open>ivfru_common.h\<close>: IPMI
  type-length fields, the area checksum, the header constants and the board names.  The lemmas
  show what a formatted field reads back as, that the checksum loop computes the negated byte sum
  of its region, and exactly when that loop leaves the buffer.
\<close>

section \<open>Enumerations of \<open>ivfru_common.h\<close>\<close>

datatype ivfru_ret =
    IVFRU_RET_SUCCESS
  | IVFRU_RET_INVALID_ARGUMENT
  | IVFRU_RET_IO_ERROR
  | IVFRU_RET_MEM_ERROR
  | IVFRU_RET_INVALID_DEVICE_TREE
  | IVFRU_RET_INVALID_FRU_DATA
  | IVFRU_RET_FRU_OLD_FORMAT
  | IVFRU_RET_FRU_NEW_FORMAT

datatype ivfru_board = IVFRU_BOARD_MB | IVFRU_BOARD_IO | IVFRU_BOARD_BP | MAX_IVFRU_BOARD

datatype ivfru_tlb_type =
    IVFRU_TLB_TYPE_UNSPECIFIED
  | IVFRU_TLB_TYPE_BCD_PLUS
  | IVFRU_TLB_TYPE_6BIT_ASCII_PACKED
  | IVFRU_TLB_TYPE_11
  | MAX_TLB_TYPE

fun tlb_val :: "ivfru_tlb_type \<Rightarrow> int" where
  "tlb_val IVFRU_TLB_TYPE_UNSPECIFIED = 0"
| "tlb_val IVFRU_TLB_TYPE_BCD_PLUS = 1"
| "tlb_val IVFRU_TLB_TYPE_6BIT_ASCII_PACKED = 2"
| "tlb_val IVFRU_TLB_TYPE_11 = 3"
| "tlb_val MAX_TLB_TYPE = 4"

section \<open>Constants and headers\<close>

definition MIN_YEAR :: int where "MIN_YEAR = 1996"

definition FRU_END_MARKER :: byte where "FRU_END_MARKER = 0xC1"

text \<open>The eight bytes of \<open>struct ivfru_common_header\<close>, in the order of its fields:
  format version, internal use, chassis, board, product, multirecord, pad, checksum.\<close>

definition CH_DEFAULT :: "byte list" where
  "CH_DEFAULT = [0x01, 0, 0, 0x01, 0, 0, 0, 0xFE]"

definition CH_OLD :: "byte list" where
  "CH_OLD = [0x01, 0, 0, 0x08, 0, 0, 0, 0xF7]"

text \<open>\<open>sizeof\<close> of the two structures; the flexible array \<open>variable\<close> has no size.\<close>

definition sizeof_ch :: nat where "sizeof_ch = 8"
definition sizeof_bia :: nat where "sizeof_bia = 6"

section \<open>Type-length fields\<close>

definition fru_make_tl_byte :: "int \<Rightarrow> ivfru_tlb_type \<Rightarrow> ivfru_ret + byte" where
  "fru_make_tl_byte len typ =
     (if 63 < len then Inl IVFRU_RET_INVALID_ARGUMENT
      else if len = 1 then Inl IVFRU_RET_INVALID_ARGUMENT
      else Inr (push_bit 6 (of_int (tlb_val typ)) OR of_int len))"

definition tl_length :: "byte \<Rightarrow> nat" where
  "tl_length b = (if b = FRU_END_MARKER then 0 else unat (b AND 0x3F))"

definition fru_tl_get_length :: "byte list \<Rightarrow> nat \<Rightarrow> nat option" where
  "fru_tl_get_length mem address = map_option tl_length (ld mem address)"

text \<open>The bytes \<open>memcpy\<close> reads from a source object of \<open>length d\<close> bytes; a negative count
  becomes a huge \<open>size_t\<close>.\<close>

definition memcpy_src :: "byte list \<Rightarrow> int \<Rightarrow> byte list option" where
  "memcpy_src d n = (if 0 \<le> n \<and> nat n \<le> length d then Some (take (nat n) d) else None)"

definition fru_area_format_field ::
  "byte list \<Rightarrow> nat \<Rightarrow> byte list option \<Rightarrow> int \<Rightarrow> ivfru_tlb_type \<Rightarrow> (ivfru_ret + byte list \<times> nat) option"
where
  "fru_area_format_field mem address data len typ =
     (case fru_make_tl_byte len typ of
        Inl _ \<Rightarrow> Some (Inl IVFRU_RET_INVALID_ARGUMENT)
      | Inr tlb \<Rightarrow>
          (case data of
             None \<Rightarrow> do { mem \<leftarrow> st mem address FRU_END_MARKER; Some (Inr (mem, address + 1)) }
           | Some d \<Rightarrow> do {
               mem \<leftarrow> st mem address tlb;
               src \<leftarrow> memcpy_src d len;
               mem \<leftarrow> stn mem (address + 1) src;
               Some (Inr (mem, address + 1 + nat len)) }))"

text \<open>With a data buffer the field is copied out and NUL-terminated; both forms yield the
  address of the next field.\<close>

definition fru_area_get_field_at_address ::
  "byte list \<Rightarrow> nat \<Rightarrow> bool \<Rightarrow> (byte list option \<times> nat) option"
where
  "fru_area_get_field_at_address mem address want = do {
     len \<leftarrow> fru_tl_get_length mem address;
     data \<leftarrow> (if want then map_option (\<lambda>d. Some (d @ [0])) (ldn mem (address + 1) len)
             else Some None);
     Some (data, address + 1 + len) }"

definition next_field :: "byte list \<Rightarrow> nat \<Rightarrow> nat option" where
  "next_field mem address = map_option snd (fru_area_get_field_at_address mem address False)"

lemma next_field_eq: "next_field mem a = map_option (\<lambda>b. a + 1 + tl_length b) (ld mem a)"
  by (cases "ld mem a")
     (simp_all add: next_field_def fru_area_get_field_at_address_def fru_tl_get_length_def)

lemma tl_length_bound: "tl_length b \<le> 63"
proof -
  have "unat (b AND 0x3F) \<le> unat (0x3F :: byte)"
    by (rule word_and_le1 [THEN word_le_nat_alt [THEN iffD1]])
  then show ?thesis by (simp add: tl_length_def)
qed

lemma tl_length_end [simp]: "tl_length FRU_END_MARKER = 0"
  by (simp add: tl_length_def)

section \<open>Checksum\<close>

text \<open>The loop \<open>while(size--)\<close>.  A negative size never reaches zero on the way down: the loop
  then runs off the block, which is \<open>None\<close>.\<close>

function checksum_loop :: "byte list \<Rightarrow> nat \<Rightarrow> int \<Rightarrow> byte \<Rightarrow> byte option" where
  "checksum_loop mem address sz acc =
     (if sz = 0 then Some acc
      else if address < length mem
      then checksum_loop mem (address + 1) (sz - 1) (acc + mem ! address)
      else None)"
  by pat_completeness auto
termination
  by (relation "measure (\<lambda>(mem, address, sz, acc). length mem - address)") auto

declare checksum_loop.simps [simp del]

lemma checksum_loop_0 [simp]: "checksum_loop mem address 0 acc = Some acc"
  by (simp add: checksum_loop.simps)

lemma checksum_loop_Suc [simp]:
  "checksum_loop mem address (1 + int n) acc =
     (if address < length mem then checksum_loop mem (Suc address) (int n) (acc + mem ! address)
      else None)"
  by (subst checksum_loop.simps) simp

definition fru_calculate_checksum :: "byte list \<Rightarrow> nat \<Rightarrow> int \<Rightarrow> byte option" where
  "fru_calculate_checksum mem address sz = map_option uminus (checksum_loop mem address sz 0)"

lemma checksum_loop_region:
  "address + n \<le> length mem \<Longrightarrow>
   checksum_loop mem address (int n) acc = Some (acc + sum_list (take n (drop address mem)))"
proof (induction n arbitrary: address acc)
  case 0
  then show ?case by simp
next
  case (Suc n)
  have "take (Suc n) (drop address mem) = mem ! address # take n (drop (address + 1) mem)"
    using Suc.prems by (simp add: Cons_nth_drop_Suc [symmetric])
  with Suc show ?case by (simp add: add.assoc)
qed

lemma checksum_loop_off_end:
  "0 < n \<Longrightarrow> length mem < address + n \<Longrightarrow> checksum_loop mem address (int n) acc = None"
proof (induction n arbitrary: address acc)
  case 0
  then show ?case by simp
next
  case (Suc n)
  then show ?case
    by (cases "n = 0") (simp_all add: checksum_loop.simps [of mem address 1])
qed

lemma checksum_loop_negative:
  "sz < 0 \<Longrightarrow> checksum_loop mem address sz acc = None"
proof (induction mem address sz acc rule: checksum_loop.induct)
  case (1 mem address sz acc)
  then show ?case by (auto simp: checksum_loop.simps [of mem address sz acc])
qed

lemma fru_calculate_checksum_region:
  "address + n \<le> length mem \<Longrightarrow>
   fru_calculate_checksum mem address (int n) = Some (- sum_list (take n (drop address mem)))"
  by (simp add: fru_calculate_checksum_def checksum_loop_region)

lemma fru_calculate_checksum_cases:
  "fru_calculate_checksum mem address sz =
     (if 0 \<le> sz \<and> (sz = 0 \<or> address + nat sz \<le> length mem)
      then Some (- sum_list (take (nat sz) (drop address mem))) else None)"
proof (cases "0 \<le> sz")
  case True
  then obtain n where "sz = int n" by (metis nonneg_eq_int)
  then show ?thesis
    by (cases "n = 0")
       (auto simp: fru_calculate_checksum_def checksum_loop_region checksum_loop_off_end)
next
  case False
  then show ?thesis by (simp add: fru_calculate_checksum_def checksum_loop_negative)
qed

section \<open>Board names\<close>

definition ivfru_board_str :: "byte list list" where
  "ivfru_board_str = [cstr ''mb'', cstr ''io'', cstr ''bp'']"

fun ivfru_board2str :: "ivfru_board \<Rightarrow> byte list option" where
  "ivfru_board2str IVFRU_BOARD_MB = Some (ivfru_board_str ! 0)"
| "ivfru_board2str IVFRU_BOARD_IO = Some (ivfru_board_str ! 1)"
| "ivfru_board2str IVFRU_BOARD_BP = Some (ivfru_board_str ! 2)"
| "ivfru_board2str MAX_IVFRU_BOARD = None"

definition ivfru_str2board :: "byte list \<Rightarrow> ivfru_board" where
  "ivfru_str2board str =
     (if str = ivfru_board_str ! 0 then IVFRU_BOARD_MB
      else if str = ivfru_board_str ! 1 then IVFRU_BOARD_IO
      else if str = ivfru_board_str ! 2 then IVFRU_BOARD_BP
      else MAX_IVFRU_BOARD)"

lemma ivfru_str2board_iff:
  "b \<noteq> MAX_IVFRU_BOARD \<Longrightarrow> ivfru_str2board s = b \<longleftrightarrow> ivfru_board2str b = Some s"
  by (cases b) (auto simp: ivfru_str2board_def ivfru_board_str_def cstr_def)

section \<open>The image header in memory\<close>

text \<open>Offsets of the structure fields the code reads: byte 0 and 3 of the common header are its
  format version and board area offset; the board area starts at byte 8, its second byte is the
  length.\<close>

definition fru_get_total_length :: "byte list \<Rightarrow> int option" where
  "fru_get_total_length mem = do {
     fv \<leftarrow> ld mem 0;
     if fv \<noteq> 0x01 then Some 0
     else do {
       off \<leftarrow> ld mem 3;
       if off \<noteq> 0x00 then do { l \<leftarrow> ld mem (sizeof_ch + 1); Some (8 + uint l * 8) }
       else Some 8 } }"

definition fru_is_old_format :: "byte list \<Rightarrow> bool option" where
  "fru_is_old_format mem = map_option (\<lambda>h. h = CH_OLD) (ldn mem 0 sizeof_ch)"

section \<open>Fields read back\<close>

lemma tl_table:
  "\<forall>t \<in> set [0,1,2,3::int]. \<forall>n \<in> set [0..<64]. n \<noteq> 1 \<longrightarrow>
     tl_length (push_bit 6 (of_int t) OR of_int (int n)) = n \<and>
     push_bit 6 (of_int t) OR of_int (int n) \<noteq> FRU_END_MARKER"
  by code_simp

lemma fru_make_tl_byte_length:
  assumes "fru_make_tl_byte len typ = Inr b" "0 \<le> len" "typ \<noteq> MAX_TLB_TYPE"
  shows "tl_length b = nat len \<and> b \<noteq> FRU_END_MARKER"
proof -
  have len: "len \<le> 63" "len \<noteq> 1" and b: "b = push_bit 6 (of_int (tlb_val typ)) OR of_int len"
    using assms(1) by (auto simp: fru_make_tl_byte_def split: if_splits)
  have "nat len \<in> set [0..<64]" "nat len \<noteq> 1" "len = int (nat len)" using len assms(2) by auto
  moreover have "tlb_val typ \<in> set [0,1,2,3]" using assms(3) by (cases "typ") auto
  ultimately show ?thesis unfolding b using tl_table by metis
qed

end
