(* ===== verification/Fru_Validate.thy ===== *)
theory Fru_Validate
  imports Fru_Codec
begin

text \<open>
  The image validator of the FRU tool (\<open>ivfru_common.c\<close>: \<open>ivfru_bia_validate\<close>,
  \<open>ivfru_validate\<close>, \<open>ivfru_get_bia_predefined_fields\<close>) and the abstract FRU image it accepts.
  The specification is an encoder \<open>enc_image\<close> from a record of fields to bytes; without the ignore
  flag the validator succeeds on a new-format buffer exactly when the buffer starts with an
  encoding.  The other theories state what the editing commands do on the abstract record.
\<close>

section \<open>Result flags of \<open>enum validation_result\<close>\<close>

definition VAL_RES_SUCCESS :: u32 where "VAL_RES_SUCCESS = 0x0000"
definition VAL_RES_CH_INVALID_FORMAT_VERSION :: u32 where "VAL_RES_CH_INVALID_FORMAT_VERSION = 0x0001"
definition VAL_RES_CH_INVALID_BIA_OFFSET :: u32 where "VAL_RES_CH_INVALID_BIA_OFFSET = 0x0002"
definition VAL_RES_CH_INVALID_CHECKSUM :: u32 where "VAL_RES_CH_INVALID_CHECKSUM = 0x0004"
definition VAL_RES_BIA_INVALID_FORMAT_VERSION :: u32 where "VAL_RES_BIA_INVALID_FORMAT_VERSION = 0x0008"
definition VAL_RES_BIA_INVALID_LANGUAGE_CODE :: u32 where "VAL_RES_BIA_INVALID_LANGUAGE_CODE = 0x0010"
definition VAL_RES_BIA_PREDEF_FIELDS_MISSING :: u32 where "VAL_RES_BIA_PREDEF_FIELDS_MISSING = 0x0020"
definition VAL_RES_BIA_INVALID_FRU_FILE_ID :: u32 where "VAL_RES_BIA_INVALID_FRU_FILE_ID = 0x0040"
definition VAL_RES_BIA_MISSING_END_OF_FIELDS :: u32 where "VAL_RES_BIA_MISSING_END_OF_FIELDS = 0x0080"
definition VAL_RES_BIA_INVALID_PADDING :: u32 where "VAL_RES_BIA_INVALID_PADDING = 0x0100"
definition VAL_RES_BIA_MISSING_CHECKSUM :: u32 where "VAL_RES_BIA_MISSING_CHECKSUM = 0x0200"
definition VAL_RES_BIA_INCORRECT_CHECKSUM :: u32 where "VAL_RES_BIA_INCORRECT_CHECKSUM = 0x0400"
definition VAL_RES_BIA_MASK :: u32 where "VAL_RES_BIA_MASK = 0x4F8"

lemmas val_res_defs =
  VAL_RES_SUCCESS_def VAL_RES_CH_INVALID_FORMAT_VERSION_def VAL_RES_CH_INVALID_BIA_OFFSET_def
  VAL_RES_CH_INVALID_CHECKSUM_def VAL_RES_BIA_INVALID_FORMAT_VERSION_def
  VAL_RES_BIA_INVALID_LANGUAGE_CODE_def VAL_RES_BIA_PREDEF_FIELDS_MISSING_def
  VAL_RES_BIA_INVALID_FRU_FILE_ID_def VAL_RES_BIA_MISSING_END_OF_FIELDS_def
  VAL_RES_BIA_INVALID_PADDING_def VAL_RES_BIA_MISSING_CHECKSUM_def
  VAL_RES_BIA_INCORRECT_CHECKSUM_def VAL_RES_BIA_MASK_def

section \<open>The validator\<close>

text \<open>One check of the source: \<open>if (c) { res |= bit; if (!ignore) goto end; }\<close> followed by the
  rest of the function.\<close>

definition val_check :: "bool \<Rightarrow> bool \<Rightarrow> u32 \<Rightarrow> u32 \<Rightarrow> (u32 \<Rightarrow> u32 option) \<Rightarrow> u32 option" where
  "val_check ignore c b res k =
     (if c then (if ignore then k (res OR b) else Some (res OR b)) else k res)"

text \<open>The three loops over the variable part.  Each iteration first reads \<open>*address\<close>.\<close>

function skip_predef :: "byte list \<Rightarrow> nat \<Rightarrow> nat \<Rightarrow> int \<Rightarrow> (nat \<times> nat \<times> int) option" where
  "skip_predef mem address index rem_length =
     (case ld mem address of
        None \<Rightarrow> None
      | Some b \<Rightarrow>
          if b \<noteq> FRU_END_MARKER \<and> index < 4 \<and> 0 < rem_length
          then skip_predef mem (address + 1 + tl_length b) (index + 1)
                 (rem_length - (1 + int (tl_length b)))
          else Some (address, index, rem_length))"
  by pat_completeness auto
termination
  by (relation "measure (\<lambda>(mem, address, index, rem). length mem - address)")
     (auto simp: ld_def split: if_splits)

function skip_custom :: "byte list \<Rightarrow> nat \<Rightarrow> int \<Rightarrow> (nat \<times> int) option" where
  "skip_custom mem address rem_length =
     (case ld mem address of
        None \<Rightarrow> None
      | Some b \<Rightarrow>
          if b \<noteq> FRU_END_MARKER \<and> 0 < rem_length
          then skip_custom mem (address + 1 + tl_length b) (rem_length - (1 + int (tl_length b)))
          else Some (address, rem_length))"
  by pat_completeness auto
termination
  by (relation "measure (\<lambda>(mem, address, rem). length mem - address)")
     (auto simp: ld_def split: if_splits)

function skip_padding :: "byte list \<Rightarrow> nat \<Rightarrow> int \<Rightarrow> (nat \<times> int) option" where
  "skip_padding mem address rem_length =
     (case ld mem address of
        None \<Rightarrow> None
      | Some b \<Rightarrow>
          if b = 0x00 \<and> 1 < rem_length then skip_padding mem (address + 1) (rem_length - 1)
          else Some (address, rem_length))"
  by pat_completeness auto
termination
  by (relation "measure (\<lambda>(mem, address, rem). length mem - address)")
     (auto simp: ld_def split: if_splits)

declare skip_predef.simps [simp del] skip_custom.simps [simp del] skip_padding.simps [simp del]

definition ivfru_bia_validate :: "byte list \<Rightarrow> nat \<Rightarrow> bool \<Rightarrow> bool \<Rightarrow> (ivfru_ret \<times> u32) option" where
  "ivfru_bia_validate mem bia old_format ignore =
     map_option (\<lambda>res. (if res \<noteq> VAL_RES_SUCCESS then IVFRU_RET_INVALID_FRU_DATA
                        else IVFRU_RET_SUCCESS, res))
     (do {
       lenb \<leftarrow> ld mem (bia + 1);
       let bia_length = (if old_format then uint lenb else uint lenb * 8);
       val_check ignore (bia_length < int sizeof_bia) VAL_RES_BIA_PREDEF_FIELDS_MISSING VAL_RES_SUCCESS
         (\<lambda>res. do {
       fv \<leftarrow> ld mem bia;
       val_check ignore (fv \<noteq> 0x01) VAL_RES_BIA_INVALID_FORMAT_VERSION res (\<lambda>res. do {
       lang \<leftarrow> ld mem (bia + 2);
       val_check ignore (lang \<noteq> 0x00) VAL_RES_BIA_INVALID_LANGUAGE_CODE res (\<lambda>res. do {
       (address, index, rem_length) \<leftarrow>
         skip_predef mem (bia + sizeof_bia) 0 (bia_length - int sizeof_bia);
       c \<leftarrow> ld mem address;
       val_check ignore (index < 4 \<or> rem_length < 3 \<or> c = FRU_END_MARKER)
         VAL_RES_BIA_PREDEF_FIELDS_MISSING res (\<lambda>res.
       val_check ignore (c \<noteq> 0) VAL_RES_BIA_INVALID_FRU_FILE_ID res (\<lambda>res. do {
       (address, rem_length) \<leftarrow> skip_custom mem address rem_length;
       c \<leftarrow> ld mem address;
       val_check ignore (c \<noteq> FRU_END_MARKER \<or> rem_length < 1)
         VAL_RES_BIA_MISSING_END_OF_FIELDS res (\<lambda>res. do {
       (address, rem_length) \<leftarrow> skip_padding mem (address + 1) (rem_length - 1);
       val_check ignore (1 < rem_length) VAL_RES_BIA_INVALID_PADDING res (\<lambda>res.
       val_check ignore (rem_length < 1) VAL_RES_BIA_MISSING_CHECKSUM res (\<lambda>res. do {
       checksum \<leftarrow> fru_calculate_checksum mem bia (bia_length - 1);
       c \<leftarrow> ld mem address;
       val_check ignore (checksum \<noteq> c) VAL_RES_BIA_INCORRECT_CHECKSUM res Some
       })) }) })) }) }) }) })"

definition ivfru_validate :: "byte list \<Rightarrow> bool \<Rightarrow> (ivfru_ret \<times> u32) option" where
  "ivfru_validate mem ignore =
     map_option (\<lambda>res. (if res \<noteq> VAL_RES_SUCCESS then IVFRU_RET_INVALID_FRU_DATA
                        else IVFRU_RET_SUCCESS, res))
     (do {
       fru_old_format \<leftarrow> fru_is_old_format mem;
       let check_bia = (\<lambda>res.
         if res AND VAL_RES_CH_INVALID_BIA_OFFSET = 0
         then map_option (\<lambda>(_, r). res OR r) (ivfru_bia_validate mem sizeof_ch fru_old_format ignore)
         else Some res);
       if fru_old_format then check_bia VAL_RES_SUCCESS
       else do {
         fv \<leftarrow> ld mem 0;
         val_check ignore (fv \<noteq> 0x01) VAL_RES_CH_INVALID_FORMAT_VERSION VAL_RES_SUCCESS (\<lambda>res. do {
         checksum \<leftarrow> fru_calculate_checksum mem 0 7;
         stored \<leftarrow> ld mem 7;
         val_check ignore (checksum \<noteq> stored) VAL_RES_CH_INVALID_CHECKSUM res (\<lambda>res. do {
         off \<leftarrow> ld mem 3;
         val_check ignore (off \<noteq> 0x01) VAL_RES_CH_INVALID_BIA_OFFSET res check_bia }) }) } })"

text \<open>Start offset and length of the product, serial number and part number fields.\<close>

definition ivfru_get_bia_predefined_fields ::
  "byte list \<Rightarrow> ((nat \<times> nat) \<times> (nat \<times> nat) \<times> (nat \<times> nat)) option"
where
  "ivfru_get_bia_predefined_fields mem = do {
     address \<leftarrow> next_field mem (sizeof_ch + sizeof_bia);
     product_len \<leftarrow> fru_tl_get_length mem address;
     let product = address + 1;
     address \<leftarrow> next_field mem address;
     sn_len \<leftarrow> fru_tl_get_length mem address;
     let sn = address + 1;
     address \<leftarrow> next_field mem address;
     pn_len \<leftarrow> fru_tl_get_length mem address;
     let pn = address + 1;
     _ \<leftarrow> next_field mem address;
     Some ((product, product_len), (sn, sn_len), (pn, pn_len)) }"

section \<open>Abstract FRU images\<close>

text \<open>A field is its type-length byte and its data.\<close>

type_synonym field = "byte \<times> byte list"

definition wf_field :: "field \<Rightarrow> bool" where
  "wf_field f \<longleftrightarrow> fst f \<noteq> FRU_END_MARKER \<and> tl_length (fst f) = length (snd f)"

definition enc_field :: "field \<Rightarrow> byte list" where
  "enc_field f = fst f # snd f"

definition enc_fields :: "field list \<Rightarrow> byte list" where
  "enc_fields fs = concat (map enc_field fs)"

lemma wf_field_pair [simp]: "wf_field (b, d) \<longleftrightarrow> b \<noteq> FRU_END_MARKER \<and> tl_length b = length d"
  by (simp add: wf_field_def)

record fru =
  fru_date :: "byte list"
  fru_predef :: "field list"
  fru_custom :: "field list"

definition wf_fru :: "fru \<Rightarrow> bool" where
  "wf_fru f \<longleftrightarrow> length (fru_date f) = 3 \<and> length (fru_predef f) = 4 \<and>
     list_all wf_field (fru_predef f) \<and> list_all wf_field (fru_custom f)"

text \<open>The board information area: fixed part, four predefined fields, the empty FRU File ID,
  custom fields, end marker, zero padding; and the checksum that makes it sum to zero.\<close>

definition enc_body :: "byte \<Rightarrow> fru \<Rightarrow> nat \<Rightarrow> byte list" where
  "enc_body lenb f pad =
     [0x01, lenb, 0x00] @ fru_date f @ enc_fields (fru_predef f) @ 0x00 # enc_fields (fru_custom f) @
     FRU_END_MARKER # replicate pad 0x00"

definition enc_bia :: "byte \<Rightarrow> fru \<Rightarrow> nat \<Rightarrow> byte list" where
  "enc_bia lenb f pad = enc_body lenb f pad @ [- sum_list (enc_body lenb f pad)]"

definition area_length :: "bool \<Rightarrow> byte \<Rightarrow> nat" where
  "area_length old_format lenb = (if old_format then unat lenb else unat lenb * 8)"

lemma enc_fields_simps [simp]:
  "enc_fields [] = []" "enc_fields (f # fs) = fst f # snd f @ enc_fields fs"
  "enc_fields (fs @ gs) = enc_fields fs @ enc_fields gs"
  by (simp_all add: enc_fields_def enc_field_def)

lemma length_enc_body:
  "length (enc_body lenb f pad) =
     5 + length (fru_date f) + length (enc_fields (fru_predef f)) + length (enc_fields (fru_custom f)) + pad"
  by (simp add: enc_body_def)

lemma length_enc_bia [simp]: "length (enc_bia lenb f pad) = Suc (length (enc_body lenb f pad))"
  by (simp add: enc_bia_def)

section \<open>What the loops traverse\<close>

lemma ld_drop: "ld mem a = Some b \<longleftrightarrow> a < length mem \<and> drop a mem = b # drop (Suc a) mem"
  by (auto simp: ld_def Cons_nth_drop_Suc [symmetric])

lemma drop_field:
  assumes "drop a mem = b # drop (Suc a) mem" "a + 1 + tl_length b < length mem"
  shows "drop a mem = b # take (tl_length b) (drop (Suc a) mem) @ drop (a + 1 + tl_length b) mem"
  using assms by (metis Suc_eq_plus1 add.assoc add.commute append_take_drop_id drop_drop)

lemma skip_custom_fields:
  "skip_custom mem a r = Some (a', r') \<Longrightarrow>
   a' < length mem \<and> (\<exists>fs. list_all wf_field fs \<and> drop a mem = enc_fields fs @ drop a' mem \<and>
     a' = a + length (enc_fields fs) \<and> r' = r - int (length (enc_fields fs)))"
proof (induction mem a r rule: skip_custom.induct)
  case (1 mem a r)
  from "1.prems" obtain b where b: "ld mem a = Some b"
    by (auto simp: skip_custom.simps [of mem a] split: option.splits)
  show ?case
  proof (cases "b \<noteq> FRU_END_MARKER \<and> 0 < r")
    case True
    let ?a = "a + 1 + tl_length b"
    have "skip_custom mem ?a (r - (1 + int (tl_length b))) = Some (a', r')"
      using "1.prems" b True by (simp add: skip_custom.simps [of mem a])
    with "1.IH" [OF b True] obtain fs where fs: "a' < length mem" "list_all wf_field fs"
      "drop ?a mem = enc_fields fs @ drop a' mem" "a' = ?a + length (enc_fields fs)"
      "r' = r - (1 + int (tl_length b)) - int (length (enc_fields fs))" by blast
    let ?f = "(b, take (tl_length b) (drop (Suc a) mem))"
    have "drop a mem = b # take (tl_length b) (drop (Suc a) mem) @ drop ?a mem"
      using b fs(1,4) by (intro drop_field) (auto simp: ld_drop)
    moreover have "length (snd ?f) = tl_length b" using fs(1,4) by simp
    ultimately show ?thesis
      using fs True by (intro conjI exI [of _ "?f # fs"]) auto
  next
    case False
    then show ?thesis
      using "1.prems" b by (auto simp: skip_custom.simps [of mem a] ld_drop intro!: exI [of _ "[]"])
  qed
qed

lemma skip_predef_fields:
  "skip_predef mem a i r = Some (a', i', r') \<Longrightarrow>
   a' < length mem \<and> (\<exists>fs. list_all wf_field fs \<and> drop a mem = enc_fields fs @ drop a' mem \<and>
     a' = a + length (enc_fields fs) \<and> i' = i + length fs \<and> r' = r - int (length (enc_fields fs)))
   \<and> (i \<le> 4 \<longrightarrow> i' \<le> 4)"
proof (induction mem a i r rule: skip_predef.induct)
  case (1 mem a i r)
  from "1.prems" obtain b where b: "ld mem a = Some b"
    by (auto simp: skip_predef.simps [of mem a] split: option.splits)
  show ?case
  proof (cases "b \<noteq> FRU_END_MARKER \<and> i < 4 \<and> 0 < r")
    case True
    let ?a = "a + 1 + tl_length b"
    have "skip_predef mem ?a (i + 1) (r - (1 + int (tl_length b))) = Some (a', i', r')"
      using "1.prems" b True by (simp add: skip_predef.simps [of mem a])
    with "1.IH" [OF b True] True obtain fs where fs: "a' < length mem" "list_all wf_field fs"
      "drop ?a mem = enc_fields fs @ drop a' mem" "a' = ?a + length (enc_fields fs)"
      "i' = i + 1 + length fs" "i' \<le> 4"
      "r' = r - (1 + int (tl_length b)) - int (length (enc_fields fs))" by auto
    let ?f = "(b, take (tl_length b) (drop (Suc a) mem))"
    have "drop a mem = b # take (tl_length b) (drop (Suc a) mem) @ drop ?a mem"
      using b fs(1,4) by (intro drop_field) (auto simp: ld_drop)
    moreover have "length (snd ?f) = tl_length b" using fs(1,4) by simp
    ultimately have "list_all wf_field (?f # fs) \<and> drop a mem = enc_fields (?f # fs) @ drop a' mem \<and>
     a' = a + length (enc_fields (?f # fs)) \<and> i' = i + length (?f # fs) \<and>
     r' = r - int (length (enc_fields (?f # fs)))"
      using fs True by auto
    then show ?thesis using fs(1,6) by blast
  next
    case False
    then show ?thesis
      using "1.prems" b by (auto simp: skip_predef.simps [of mem a] ld_drop intro!: exI [of _ "[]"])
  qed
qed

lemma skip_padding_zeros:
  "skip_padding mem a r = Some (a', r') \<Longrightarrow>
   a' < length mem \<and> (\<exists>n. drop a mem = replicate n 0 @ drop a' mem \<and> a' = a + n \<and> r' = r - int n)"
proof (induction mem a r rule: skip_padding.induct)
  case (1 mem a r)
  from "1.prems" obtain b where b: "ld mem a = Some b"
    by (auto simp: skip_padding.simps [of mem a] split: option.splits)
  show ?case
  proof (cases "b = 0x00 \<and> 1 < r")
    case True
    have "skip_padding mem (a + 1) (r - 1) = Some (a', r')"
      using "1.prems" b True by (simp add: skip_padding.simps [of mem a])
    with "1.IH" [OF b True] obtain n where "a' < length mem" "drop (a + 1) mem = replicate n 0 @ drop a' mem"
      "a' = a + 1 + n" "r' = r - 1 - int n" by blast
    then show ?thesis using b True by (intro conjI exI [of _ "Suc n"]) (auto simp: ld_drop)
  next
    case False
    then show ?thesis
      using "1.prems" b by (auto simp: skip_padding.simps [of mem a] ld_drop intro!: exI [of _ 0])
  qed
qed

lemma ld_drop_eq: "drop a mem = b # xs \<Longrightarrow> ld mem a = Some b"
  by (metis drop_eq_Nil2 ld_def linorder_not_le list.distinct(1) list.inject Cons_nth_drop_Suc)

lemma drop_plus: "drop a mem = xs @ ys \<Longrightarrow> drop (a + length xs) mem = ys"
  by (metis add.commute append_eq_conv_conj drop_drop)

lemma skip_custom_enc:
  "list_all wf_field fs \<Longrightarrow> drop a mem = enc_fields fs @ FRU_END_MARKER # rest \<Longrightarrow>
   int (length (enc_fields fs)) < r \<Longrightarrow>
   skip_custom mem a r = Some (a + length (enc_fields fs), r - int (length (enc_fields fs)))"
proof (induction fs arbitrary: a r)
  case Nil
  then show ?case by (simp add: skip_custom.simps [of mem a] ld_drop_eq)
next
  case (Cons f fs)
  have wf: "fst f \<noteq> FRU_END_MARKER" "tl_length (fst f) = length (snd f)"
    using Cons.prems(1) by (auto simp: wf_field_def)
  have "drop (a + 1 + length (snd f)) mem = enc_fields fs @ FRU_END_MARKER # rest"
    using Cons.prems(2) drop_plus [of a mem "fst f # snd f"] by simp
  with Cons wf show ?case by (simp add: skip_custom.simps [of mem a] ld_drop_eq)
qed

lemma skip_predef_enc:
  "list_all wf_field fs \<Longrightarrow> drop a mem = enc_fields fs @ c # rest \<Longrightarrow> i + length fs = 4 \<Longrightarrow>
   int (length (enc_fields fs)) < r \<Longrightarrow>
   skip_predef mem a i r = Some (a + length (enc_fields fs), 4, r - int (length (enc_fields fs)))"
proof (induction fs arbitrary: a i r)
  case Nil
  then show ?case by (simp add: skip_predef.simps [of mem a] ld_drop_eq)
next
  case (Cons f fs)
  have wf: "fst f \<noteq> FRU_END_MARKER" "tl_length (fst f) = length (snd f)"
    using Cons.prems(1) by (auto simp: wf_field_def)
  have "drop (a + 1 + length (snd f)) mem = enc_fields fs @ c # rest"
    using Cons.prems(2) drop_plus [of a mem "fst f # snd f"] by simp
  with Cons wf show ?case by (simp add: skip_predef.simps [of mem a] ld_drop_eq)
qed

lemma skip_padding_enc:
  "drop a mem = replicate n 0 @ c # rest \<Longrightarrow> skip_padding mem a (int n + 1) = Some (a + n, 1)"
proof (induction n arbitrary: a)
  case 0
  then show ?case by (simp add: skip_padding.simps [of mem a] ld_drop_eq)
next
  case (Suc n)
  then have "drop (a + 1) mem = replicate n 0 @ c # rest"
    using drop_plus [of a mem "[0]"] by simp
  with Suc show ?case by (simp add: skip_padding.simps [of mem a] ld_drop_eq add.commute)
qed

lemma val_check_strict:
  "b \<noteq> 0 \<Longrightarrow> val_check False c b 0 k = Some 0 \<longleftrightarrow> \<not> c \<and> k 0 = Some 0"
  by (simp add: val_check_def)

text \<open>A run without the ignore flag succeeds exactly when no check fires.\<close>

lemma ivfru_bia_validate_strict:
  "ivfru_bia_validate mem bia old False = Some (IVFRU_RET_SUCCESS, r) \<longleftrightarrow>
   r = 0 \<and> (\<exists>lenb a1 i r1 a2 r2 a3 c. ld mem (bia + 1) = Some lenb \<and>
     6 \<le> area_length old lenb \<and> ld mem bia = Some 1 \<and> ld mem (bia + 2) = Some 0 \<and>
     skip_predef mem (bia + 6) 0 (int (area_length old lenb) - 6) = Some (a1, i, r1) \<and>
     4 \<le> i \<and> 3 \<le> r1 \<and> ld mem a1 = Some 0 \<and>
     skip_custom mem a1 r1 = Some (a2, r2) \<and> ld mem a2 = Some FRU_END_MARKER \<and> 1 \<le> r2 \<and>
     skip_padding mem (a2 + 1) (r2 - 1) = Some (a3, 1) \<and> ld mem a3 = Some c \<and>
     fru_calculate_checksum mem bia (int (area_length old lenb) - 1) = Some c)"
proof -
  have z: "(if x \<noteq> (0::u32) then IVFRU_RET_INVALID_FRU_DATA else IVFRU_RET_SUCCESS, x)
      = (IVFRU_RET_SUCCESS, r) \<longleftrightarrow> x = 0 \<and> r = 0" for x by auto
  have l: "(if old then uint lenb else uint lenb * 8) = int (area_length old lenb)" for lenb
    by (simp add: area_length_def)
  have e: "FRU_END_MARKER \<noteq> 0" by (simp add: FRU_END_MARKER_def)
  show ?thesis
    unfolding ivfru_bia_validate_def map_option_eq_Some z VAL_RES_SUCCESS_def sizeof_bia_def Let_def l
    by (auto simp: bind_eq_Some_conv val_check_strict val_res_defs not_less e)
qed

lemma drop_3: "ld mem a = Some x \<Longrightarrow> ld mem (a + 1) = Some y \<Longrightarrow> ld mem (a + 2) = Some z \<Longrightarrow>
   drop a mem = x # y # z # drop (a + 3) mem"
  by (simp add: ld_drop) (metis add_Suc_right numeral_2_eq_2 numeral_3_eq_3 add_2_eq_Suc')

lemma bia_validate_sound:
  assumes "ivfru_bia_validate mem bia old False = Some (IVFRU_RET_SUCCESS, r)"
  shows "r = 0 \<and> (\<exists>lenb f pad rest. wf_fru f \<and> drop bia mem = enc_bia lenb f pad @ rest \<and>
    area_length old lenb = length (enc_bia lenb f pad))"
proof -
  from assms [unfolded ivfru_bia_validate_strict] obtain lenb a1 i r1 a2 r2 a3 c where
    r: "r = 0" and hd: "ld mem bia = Some 1" "ld mem (bia + 1) = Some lenb" "ld mem (bia + 2) = Some 0"
    and p: "skip_predef mem (bia + 6) 0 (int (area_length old lenb) - 6) = Some (a1, i, r1)"
      "4 \<le> i" "3 \<le> r1" "ld mem a1 = Some 0"
    and cu: "skip_custom mem a1 r1 = Some (a2, r2)" "ld mem a2 = Some FRU_END_MARKER"
    and pa: "skip_padding mem (a2 + 1) (r2 - 1) = Some (a3, 1)" "ld mem a3 = Some c"
      "fru_calculate_checksum mem bia (int (area_length old lenb) - 1) = Some c" by blast
  obtain ps where ps: "list_all wf_field ps" "drop (bia + 6) mem = enc_fields ps @ drop a1 mem"
    "a1 = bia + 6 + length (enc_fields ps)" "length ps = 4"
    "r1 = int (area_length old lenb) - 6 - int (length (enc_fields ps))"
    using skip_predef_fields [OF p(1)] p(2) by auto
  have a1: "drop a1 mem = 0 # drop (a1 + 1) mem" using p(4) by (simp add: ld_drop)
  have "skip_custom mem (a1 + 1) (r1 - 1) = Some (a2, r2)"
    using cu p(3,4) skip_custom.simps [of mem a1 r1]
    by (simp add: FRU_END_MARKER_def tl_length_def)
  then obtain cs where cs: "list_all wf_field cs" "drop (a1 + 1) mem = enc_fields cs @ drop a2 mem"
    "a2 = a1 + 1 + length (enc_fields cs)" "r2 = r1 - 1 - int (length (enc_fields cs))"
    using skip_custom_fields by blast
  have a2: "drop a2 mem = FRU_END_MARKER # drop (a2 + 1) mem" using cu(2) by (simp add: ld_drop)
  obtain n where n: "drop (a2 + 1) mem = replicate n 0 @ drop a3 mem" "a3 = a2 + 1 + n" "1 = r2 - 1 - int n"
    using skip_padding_zeros [OF pa(1)] by blast
  have a3: "drop a3 mem = c # drop (a3 + 1) mem" "a3 < length mem" using pa(2) by (simp_all add: ld_drop)
  define f where "f = \<lparr>fru_date = take 3 (drop (bia + 3) mem), fru_predef = ps, fru_custom = cs\<rparr>"
  have len: "bia + 6 < length mem" using ps(3) cs(3) n(2) a3(2) by simp
  have wf: "wf_fru f" using ps cs len by (simp add: wf_fru_def f_def)
  have "drop (bia + 3) mem = fru_date f @ drop (bia + 6) mem"
    using append_take_drop_id [of 3 "drop (bia + 3) mem"] by (simp add: f_def add.commute)
  then have d: "drop bia mem = enc_body lenb f n @ c # drop (a3 + 1) mem"
    using drop_3 [OF hd] ps(2) a1 cs(2) a2 n(1) a3(1) by (simp add: enc_body_def f_def)
  have L: "area_length old lenb = Suc (length (enc_body lenb f n))"
    using ps(5) cs(4) n(3) len by (simp add: length_enc_body f_def)
  have "c = - sum_list (enc_body lenb f n)"
    using pa(3) d L by (auto simp: fru_calculate_checksum_cases split: if_splits)
  then have "drop bia mem = enc_bia lenb f n @ drop (a3 + 1) mem" using d by (simp add: enc_bia_def)
  then show ?thesis using r wf L by auto
qed

lemma bia_validate_complete:
  assumes wf: "wf_fru f" and d: "drop bia mem = enc_bia lenb f pad @ rest"
    and L: "area_length old lenb = length (enc_bia lenb f pad)"
  shows "ivfru_bia_validate mem bia old False = Some (IVFRU_RET_SUCCESS, 0)"
proof -
  let ?P = "enc_fields (fru_predef f)" and ?C = "enc_fields (fru_custom f)"
  let ?ck = "- sum_list (enc_body lenb f pad)"
  have date: "length (fru_date f) = 3" and w: "length (fru_predef f) = 4"
    "list_all wf_field (fru_predef f)" "list_all wf_field (fru_custom f)"
    using wf by (auto simp: wf_fru_def)
  have al: "area_length old lenb = 9 + length ?P + length ?C + pad"
    using L date by (simp add: length_enc_body)
  have d0: "drop bia mem = [1, lenb, 0] @ fru_date f @ ?P @ 0 # ?C @ FRU_END_MARKER # replicate pad 0 @ ?ck # rest"
    using d by (simp add: enc_bia_def enc_body_def)
  have d6: "drop (bia + 6) mem = ?P @ 0 # ?C @ FRU_END_MARKER # replicate pad 0 @ ?ck # rest"
    using drop_plus [of bia mem "[1, lenb, 0] @ fru_date f"] d0 date by simp
  let ?a1 = "bia + 6 + length ?P"
  have d1: "drop ?a1 mem = enc_fields ((0, []) # fru_custom f) @ FRU_END_MARKER # replicate pad 0 @ ?ck # rest"
    using drop_plus [OF d6] by simp
  let ?a2 = "?a1 + 1 + length ?C"
  have d2: "drop ?a2 mem = FRU_END_MARKER # replicate pad 0 @ ?ck # rest"
    using drop_plus [OF d1] by (simp add: ac_simps)
  have d3: "drop (?a2 + 1) mem = replicate pad 0 @ ?ck # rest"
    using drop_plus [of ?a2 mem "[FRU_END_MARKER]"] d2 by simp
  have d4: "drop (?a2 + 1 + pad) mem = ?ck # rest" using drop_plus [OF d3] by simp
  have h: "ld mem bia = Some 1" "ld mem (bia + 1) = Some lenb" "ld mem (bia + 2) = Some 0"
    using d0 drop_plus [of bia mem "[1]"] drop_plus [of bia mem "[1, lenb]"]
    by (auto intro: ld_drop_eq)
  have s1: "skip_predef mem (bia + 6) 0 (int (area_length old lenb) - 6) = Some (?a1, 4, int (3 + length ?C + pad))"
    using skip_predef_enc [OF w(2) d6, of 0 "int (area_length old lenb) - 6"] w(1) al by simp
  have s2: "skip_custom mem ?a1 (int (3 + length ?C + pad)) = Some (?a2, int (2 + pad))"
    using skip_custom_enc [OF _ d1, of "int (3 + length ?C + pad)"] w(3)
    by (simp add: FRU_END_MARKER_def tl_length_def)
  have s3: "skip_padding mem (?a2 + 1) (int (2 + pad) - 1) = Some (?a2 + 1 + pad, 1)"
    using skip_padding_enc [OF d3] by (simp add: add.commute)
  have "length mem - bia = length (drop bia mem)" by simp
  then have "bia + length (enc_bia lenb f pad) \<le> length mem" unfolding d by simp
  then have ck: "fru_calculate_checksum mem bia (int (area_length old lenb) - 1) = Some ?ck"
    using d L by (simp add: fru_calculate_checksum_cases enc_bia_def)
  have l: "6 \<le> area_length old lenb" "(4::nat) \<le> 4" "3 \<le> int (3 + length ?C + pad)" "1 \<le> int (2 + pad)"
    using al by simp_all
  have z: "ld mem ?a1 = Some 0" using d1 by (auto intro: ld_drop_eq)
  show ?thesis
    unfolding ivfru_bia_validate_strict
    using h(2) l(1) h(1) h(3) s1 l(2,3) z s2 ld_drop_eq [OF d2] l(4) s3 ld_drop_eq [OF d4] ck
    by blast
qed

section \<open>The whole image\<close>

definition wf_header :: "byte list \<Rightarrow> bool" where
  "wf_header ch \<longleftrightarrow> length ch = 8 \<and> ch ! 0 = 0x01 \<and> ch ! 3 = 0x01 \<and> sum_list ch = 0"

text \<open>\<open>image_of mem ch lenb f pad rest\<close>: the buffer \<open>mem\<close> starts with a new-format image of \<open>f\<close>.\<close>

definition image_of :: "byte list \<Rightarrow> byte list \<Rightarrow> byte \<Rightarrow> fru \<Rightarrow> nat \<Rightarrow> byte list \<Rightarrow> bool" where
  "image_of mem ch lenb f pad rest \<longleftrightarrow> wf_header ch \<and> wf_fru f \<and>
     8 * unat lenb = length (enc_bia lenb f pad) \<and> mem = ch @ enc_bia lenb f pad @ rest"

lemma wf_header_not_old: "wf_header ch \<Longrightarrow> ch \<noteq> CH_OLD"
  by (auto simp: wf_header_def CH_OLD_def)

lemma wf_header_default: "wf_header CH_DEFAULT"
  by (simp add: wf_header_def CH_DEFAULT_def)

lemma sum_list8:
  assumes "length (xs :: byte list) = 8"
  shows "sum_list xs = 0 \<longleftrightarrow> - sum_list (take 7 xs) = xs ! 7"
proof -
  have "xs = take 7 xs @ [xs ! 7]"
    using assms id_take_nth_drop [of 7 xs] by simp
  then have "sum_list xs = sum_list (take 7 xs) + xs ! 7"
    by (metis sum_list_word_append sum_list.Cons sum_list.Nil add_0_right)
  then show ?thesis by (simp add: neg_eq_iff_add_eq_0)
qed

lemma ivfru_validate_strict:
  "ivfru_validate mem False = Some (IVFRU_RET_SUCCESS, r) \<longleftrightarrow>
   r = 0 \<and> 8 \<le> length mem \<and>
   (if take 8 mem = CH_OLD then ivfru_bia_validate mem 8 True False = Some (IVFRU_RET_SUCCESS, 0)
    else wf_header (take 8 mem) \<and> ivfru_bia_validate mem 8 False False = Some (IVFRU_RET_SUCCESS, 0))"
proof (cases "8 \<le> length mem")
  case True
  have b: "(\<exists>a. ivfru_bia_validate mem 8 old False = Some (a, 0)) =
      (ivfru_bia_validate mem 8 old False = Some (IVFRU_RET_SUCCESS, 0))" for old
    by (auto simp: ivfru_bia_validate_def VAL_RES_SUCCESS_def)
  have s: "sum_list (take 8 mem) = 0 \<longleftrightarrow> - sum_list (take 7 mem) = mem ! 7"
    using sum_list8 [of "take 8 mem"] True by (simp add: min_def)
  have z: "(if x \<noteq> (0::u32) then IVFRU_RET_INVALID_FRU_DATA else IVFRU_RET_SUCCESS, x)
      = (IVFRU_RET_SUCCESS, r) \<longleftrightarrow> x = 0 \<and> r = 0" for x by auto
  show ?thesis
    unfolding ivfru_validate_def map_option_eq_Some z VAL_RES_SUCCESS_def sizeof_ch_def Let_def
    using True
    by (auto simp: fru_is_old_format_def ldn_def sizeof_ch_def val_check_strict val_res_defs
        wf_header_def s ld_def fru_calculate_checksum_cases b bind_eq_Some_conv)
next
  case False
  then show ?thesis
    by (simp add: ivfru_validate_def fru_is_old_format_def ldn_def sizeof_ch_def)
qed

lemma validated_image:
  assumes "fru_is_old_format mem = Some False" "ivfru_validate mem False = Some (IVFRU_RET_SUCCESS, r)"
  obtains ch lenb f pad rest where "image_of mem ch lenb f pad rest" "r = 0"
proof -
  have r: "r = 0" "wf_header (take 8 mem)"
    "ivfru_bia_validate mem 8 False False = Some (IVFRU_RET_SUCCESS, 0)"
    using assms by (auto simp: ivfru_validate_strict fru_is_old_format_def ldn_def sizeof_ch_def
        split: if_splits)
  from bia_validate_sound [OF r(3)] obtain lenb f pad rest where
    "wf_fru f" "drop 8 mem = enc_bia lenb f pad @ rest"
    "area_length False lenb = length (enc_bia lenb f pad)" by blast
  then have "image_of mem (take 8 mem) lenb f pad rest"
    using r(2) append_take_drop_id [of 8 mem] by (simp add: image_of_def area_length_def mult.commute)
  with r(1) show thesis using that by blast
qed

lemma image_not_old: "image_of mem ch lenb f pad rest \<Longrightarrow> fru_is_old_format mem = Some False"
  using wf_header_not_old [of ch]
  by (auto simp: image_of_def fru_is_old_format_def ldn_def sizeof_ch_def wf_header_def)

lemma image_validates:
  assumes "image_of mem ch lenb f pad rest"
  shows "ivfru_validate mem False = Some (IVFRU_RET_SUCCESS, 0)"
proof -
  have "ivfru_bia_validate mem 8 False False = Some (IVFRU_RET_SUCCESS, 0)"
    using assms
    by (intro bia_validate_complete [where f = f and lenb = lenb and pad = pad and rest = rest])
       (auto simp: image_of_def wf_header_def area_length_def)
  moreover have "take 8 mem = ch" using assms by (simp add: image_of_def wf_header_def)
  ultimately show ?thesis
    using assms wf_header_not_old [of ch]
    by (auto simp: ivfru_validate_strict image_of_def wf_header_def)
qed

text \<open>
  C1: on a buffer that is not in the old format the validator (without the ignore flag) reports
  success exactly when the buffer starts with a well-formed common header followed by the encoding
  of some FRU record, the stored length being the length of the encoding: nothing malformed is
  accepted and nothing well-formed is rejected.
\<close>

theorem ivfru_validate_iff_image:
  assumes "fru_is_old_format mem = Some False"
  shows "ivfru_validate mem False = Some (IVFRU_RET_SUCCESS, r) \<longleftrightarrow>
    r = 0 \<and> (\<exists>ch lenb f pad rest. image_of mem ch lenb f pad rest)"
proof
  assume "ivfru_validate mem False = Some (IVFRU_RET_SUCCESS, r)"
  then show "r = 0 \<and> (\<exists>ch lenb f pad rest. image_of mem ch lenb f pad rest)"
    by (rule validated_image [OF assms]) blast
next
  assume "r = 0 \<and> (\<exists>ch lenb f pad rest. image_of mem ch lenb f pad rest)"
  then show "ivfru_validate mem False = Some (IVFRU_RET_SUCCESS, r)"
    using image_validates by blast
qed

definition sample_fru :: fru where
  "sample_fru = \<lparr>fru_date = [0x20, 0x5C, 0xCC],
     fru_predef = [(0xC2, [0x69, 0x56]), (0xC2, [0x41, 0x42]), (0xC3, [0x30, 0x30, 0x31]), (0xC2, [0x50, 0x4E])],
     fru_custom = [(0xC2, [0x12, 0x34])]\<rparr>"

definition sample_image :: "byte list" where
  "sample_image = CH_DEFAULT @ enc_bia 4 sample_fru 7"

lemma sample_image_of: "image_of (sample_image @ rest) CH_DEFAULT 4 sample_fru 7 rest"
proof -
  have "8 * unat (4 :: byte) = length (enc_bia 4 sample_fru 7)" by code_simp
  moreover have "wf_fru sample_fru" by code_simp
  ultimately show ?thesis by (simp add: image_of_def sample_image_def wf_header_default)
qed

theorem ivfru_validate_iff_image_witness:
  "ivfru_validate sample_image False = Some (IVFRU_RET_SUCCESS, 0)"
proof -
  have "image_of sample_image CH_DEFAULT 4 sample_fru 7 []" using sample_image_of [of "[]"] by simp
  then show ?thesis
    using ivfru_validate_iff_image [of sample_image 0] image_not_old by blast
qed

section \<open>Reads of the validator stay near the area\<close>

lemma ld_no_fault: "a < length mem \<Longrightarrow> \<exists>b. ld mem a = Some b"
  by (simp add: ld_def)

text \<open>\<open>e\<close> is the end of the area: every loop keeps \<open>address + rem_length\<close>, enters its body only
  before the end, and a field is at most 64 bytes long.\<close>

lemma skip_predef_bound:
  "int a + r = e \<Longrightarrow> int a \<le> B \<Longrightarrow> e + 63 \<le> B \<Longrightarrow> B < int (length mem) \<Longrightarrow>
   \<exists>a' i' r'. skip_predef mem a i r = Some (a', i', r') \<and> int a' + r' = e \<and> int a' \<le> B"
proof (induction mem a i r rule: skip_predef.induct)
  case (1 mem a i r)
  obtain b where b: "ld mem a = Some b" using "1.prems" ld_no_fault [of a mem] by auto
  show ?case
  proof (cases "b \<noteq> FRU_END_MARKER \<and> i < 4 \<and> 0 < r")
    case True
    then show ?thesis
      using "1.IH" [OF b True] b "1.prems" tl_length_bound [of b]
      by (simp add: skip_predef.simps [of mem a])
  qed (use b "1.prems" in \<open>auto simp: skip_predef.simps [of mem a]\<close>)
qed

lemma skip_custom_bound:
  "int a + r = e \<Longrightarrow> int a \<le> B \<Longrightarrow> e + 63 \<le> B \<Longrightarrow> B < int (length mem) \<Longrightarrow>
   \<exists>a' r'. skip_custom mem a r = Some (a', r') \<and> int a' + r' = e \<and> int a' \<le> B"
proof (induction mem a r rule: skip_custom.induct)
  case (1 mem a r)
  obtain b where b: "ld mem a = Some b" using "1.prems" ld_no_fault [of a mem] by auto
  show ?case
  proof (cases "b \<noteq> FRU_END_MARKER \<and> 0 < r")
    case True
    then show ?thesis
      using "1.IH" [OF b True] b "1.prems" tl_length_bound [of b]
      by (simp add: skip_custom.simps [of mem a])
  qed (use b "1.prems" in \<open>auto simp: skip_custom.simps [of mem a]\<close>)
qed

lemma skip_padding_bound:
  "int a + r = e \<Longrightarrow> int a \<le> B \<Longrightarrow> e \<le> B \<Longrightarrow> B < int (length mem) \<Longrightarrow>
   \<exists>a' r'. skip_padding mem a r = Some (a', r') \<and> int a' + r' = e \<and> int a' \<le> B"
proof (induction mem a r rule: skip_padding.induct)
  case (1 mem a r)
  obtain b where b: "ld mem a = Some b" using "1.prems" ld_no_fault [of a mem] by auto
  show ?case
  proof (cases "b = 0x00 \<and> 1 < r")
    case True
    then show ?thesis
      using "1.IH" [OF b True] b "1.prems" by (simp add: skip_padding.simps [of mem a])
  qed (use b "1.prems" in \<open>auto simp: skip_padding.simps [of mem a]\<close>)
qed

lemma val_check_no_fault: "(\<And>res. \<exists>y. k res = Some y) \<Longrightarrow> \<exists>y. val_check ig c b res k = Some y"
  by (simp add: val_check_def)

lemma bia_validate_no_fault:
  assumes "ld mem (bia + 1) = Some lenb"
    and "bia + max (area_length old lenb) 6 + 65 \<le> length mem" "ig \<Longrightarrow> lenb \<noteq> 0"
  shows "ivfru_bia_validate mem bia old ig \<noteq> None"
proof -
  let ?L = "area_length old lenb"
  let ?e = "int bia + int ?L" and ?B = "int bia + max (int ?L) 6 + 63"
  have l: "(if old then uint lenb else uint lenb * 8) = int ?L" by (simp add: area_length_def)
  have lim: "?B + 1 < int (length mem)" "?B < int (length mem)"
    using assms(2) by (auto simp: max_def split: if_splits)
  have lim2: "?e \<le> ?B + 1" by simp
  obtain v lang where ld: "ld mem bia = Some v" "ld mem (bia + 2) = Some lang"
    using assms(2) ld_no_fault [of bia mem] ld_no_fault [of "bia + 2" mem] by auto
  obtain a1 i r1 where p: "skip_predef mem (bia + 6) 0 (int ?L - 6) = Some (a1, i, r1)"
    "int a1 + r1 = ?e" "int a1 \<le> ?B"
    using skip_predef_bound [of "bia + 6" "int ?L - 6" ?e ?B mem 0] lim by auto
  obtain a2 r2 where c: "skip_custom mem a1 r1 = Some (a2, r2)" "int a2 + r2 = ?e" "int a2 \<le> ?B"
    using skip_custom_bound [OF p(2,3), of mem] lim by auto
  obtain a3 r3 where d: "skip_padding mem (a2 + 1) (r2 - 1) = Some (a3, r3)" "int a3 \<le> ?B + 1"
    using skip_padding_bound [of "a2 + 1" "r2 - 1" ?e "?B + 1" mem] c(2,3) lim lim2 by auto
  obtain b1 b2 b3 where b: "ld mem a1 = Some b1" "ld mem a2 = Some b2" "ld mem a3 = Some b3"
    using p(3) c(3) d(2) lim ld_no_fault [of a1 mem] ld_no_fault [of a2 mem]
      ld_no_fault [of a3 mem] by auto
  have ck: "\<exists>x. fru_calculate_checksum mem bia (int ?L - 1) = Some x" if "ig \<or> \<not> int ?L < 6"
  proof -
    have "0 < ?L" using that assms(3) by (auto simp: area_length_def unat_gt_0 split: if_splits)
    then have "nat (int ?L - 1) = ?L - 1" "0 \<le> int ?L - 1" by auto
    moreover have "bia + ?L \<le> length mem"
      using assms(2) max.cobounded1 [of ?L 6] by linarith
    ultimately show ?thesis by (auto simp: fru_calculate_checksum_cases)
  qed
  show ?thesis
  proof (cases "ig \<or> \<not> int ?L < 6")
    case True
    then obtain x where "fru_calculate_checksum mem bia (int ?L - 1) = Some x" using ck by blast
    then show ?thesis
      unfolding ivfru_bia_validate_def sizeof_bia_def
      using assms(1) ld p(1) c(1) d(1) b by (auto simp: l Let_def intro!: val_check_no_fault)
  next
    case False
    then show ?thesis using assms(1)
      by (auto simp: ivfru_bia_validate_def sizeof_bia_def l Let_def val_check_def)
  qed
qed



lemma bind_fault: "(\<And>x. f x = None) \<Longrightarrow> Option.bind m f = None"
  by (cases m) simp_all

lemma val_check_fault: "(\<And>res. k res = None) \<Longrightarrow> val_check True c b res k = None"
  by (simp add: val_check_def)

text \<open>
  With the ignore flag (the way \<open>ivfru_display\<close> calls it) an area whose stored length is
  zero makes the validator compute a checksum over a negative size: whenever the walk over the
  fields stays inside the buffer, the checksum loop runs off its end, for every buffer.
\<close>

theorem ivfru_validate_zero_length_faults:
  assumes "fru_is_old_format mem = Some False" "ld mem 3 = Some 0x01" "ld mem 9 = Some 0"
  shows "ivfru_validate mem True = None"
proof -
  have ck: "fru_calculate_checksum mem 8 (- 1) = None"
    by (simp add: fru_calculate_checksum_cases)
  have bia: "ivfru_bia_validate mem 8 False True = None"
    using assms(3) unfolding ivfru_bia_validate_def
    by (auto simp: ck intro!: bind_fault val_check_fault split: prod.split)
  show ?thesis
    using assms(1,2) bia unfolding ivfru_validate_def sizeof_ch_def
    by (auto simp: val_check_def val_res_defs Let_def intro!: bind_fault)
qed

theorem ivfru_validate_zero_length_faults_witness:
  "ivfru_validate (CH_DEFAULT @ [1, 0, 0] @ replicate 200 0xC1) True = None"
  by (rule ivfru_validate_zero_length_faults)
     (simp_all add: CH_DEFAULT_def fru_is_old_format_def ldn_def sizeof_ch_def CH_OLD_def ld_def)

section \<open>Walking the fields of an image\<close>

lemma next_field_enc:
  "drop a mem = enc_fields (g # gs) @ ys \<Longrightarrow> wf_field g \<Longrightarrow>
   next_field mem a = Some (a + 1 + length (snd g)) \<and>
   drop (a + 1 + length (snd g)) mem = enc_fields gs @ ys \<and>
   fru_tl_get_length mem a = Some (length (snd g)) \<and> ldn mem (a + 1) (length (snd g)) = Some (snd g)"
proof -
  assume d: "drop a mem = enc_fields (g # gs) @ ys" and w: "wf_field g"
  have l: "ld mem a = Some (fst g)" using d by (auto intro: ld_drop_eq)
  have d1: "drop (a + 1) mem = snd g @ enc_fields gs @ ys"
    using drop_plus [of a mem "[fst g]"] d by simp
  moreover have "a + 1 + length (snd g) \<le> length mem"
    using arg_cong [OF d1, of length, unfolded length_drop length_append] ld_SomeD [OF l] by linarith
  ultimately show ?thesis
    using w l drop_plus [OF d1]
    by (auto simp: next_field_eq fru_tl_get_length_def wf_field_def ldn_def)
qed

lemma image_variable:
  assumes "image_of mem ch lenb f pad rest"
  shows "drop (sizeof_ch + sizeof_bia) mem = enc_fields (fru_predef f @ (0, []) # fru_custom f) @
      FRU_END_MARKER # replicate pad 0 @ - sum_list (enc_body lenb f pad) # rest"
proof -
  have "length (fru_date f) = 3" "length ch = 8"
    using assms by (auto simp: image_of_def wf_fru_def wf_header_def)
  then show ?thesis
    using assms by (simp add: image_of_def enc_bia_def enc_body_def sizeof_ch_def sizeof_bia_def)
qed

lemma predefined_fields_data:
  assumes i: "image_of mem ch lenb f pad rest"
  shows "\<exists>p sn pn. ivfru_get_bia_predefined_fields mem = Some (p, sn, pn) \<and>
    ldn mem (fst p) (snd p) = Some (snd (fru_predef f ! 1)) \<and>
    ldn mem (fst sn) (snd sn) = Some (snd (fru_predef f ! 2)) \<and>
    ldn mem (fst pn) (snd pn) = Some (snd (fru_predef f ! 3))"
proof -
  obtain m p s n where ps: "fru_predef f = [m, p, s, n]" and w: "wf_field m" "wf_field p" "wf_field s" "wf_field n"
    using i by (auto simp: image_of_def wf_fru_def length_Suc_conv eval_nat_numeral)
  note d = image_variable [OF i, unfolded ps append.simps]
  note a1 = next_field_enc [OF d w(1)]
  note a2 = next_field_enc [OF a1 [THEN conjunct2, THEN conjunct1] w(2)]
  note a3 = next_field_enc [OF a2 [THEN conjunct2, THEN conjunct1] w(3)]
  note a4 = next_field_enc [OF a3 [THEN conjunct2, THEN conjunct1] w(4)]
  show ?thesis
    using a1 a2 a3 a4 by (simp add: ivfru_get_bia_predefined_fields_def Let_def ps)
qed

text \<open>
  On a valid image \<open>ivfru_get_bia_predefined_fields\<close> returns pointers and lengths at which
  the buffer holds exactly the product, serial number and part number fields of the record.
\<close>

theorem get_bia_predefined_fields_correct:
  assumes "image_of mem ch lenb f pad rest"
  shows "\<exists>p sn pn. ivfru_get_bia_predefined_fields mem = Some (p, sn, pn) \<and>
    ldn mem (fst p) (snd p) = Some (snd (fru_predef f ! 1)) \<and>
    ldn mem (fst sn) (snd sn) = Some (snd (fru_predef f ! 2)) \<and>
    ldn mem (fst pn) (snd pn) = Some (snd (fru_predef f ! 3))"
  by (rule predefined_fields_data [OF assms])

theorem get_bia_predefined_fields_correct_witness:
  "\<exists>p sn pn. ivfru_get_bia_predefined_fields sample_image = Some (p, sn, pn) \<and>
    ldn sample_image (fst sn) (snd sn) = Some [0x30, 0x30, 0x31]"
  using get_bia_predefined_fields_correct [OF sample_image_of [of "[]"]]
  by (auto simp: sample_fru_def)

end
