(* ===== verification/Fru_Date.thy ===== *)
theory Fru_Date
  imports Fru_Codec
begin

text \<open>
  The calendar of the FRU tool (\<open>ivfru_common.c\<close>: \<open>ipmi_time_to_date\<close>, \<open>date_to_ipmi_time\<close>,
  \<open>date2dmy\<close>).  IPMI counts minutes since 1996-01-01 in 24 bits.  The specification is the day
  number \<open>days_since_1996\<close>; both conversions are related to it, and composed they are the
  identity on every valid date whose minute count fits.
\<close>

section \<open>Calendar\<close>

definition days_per_month :: "nat list" where
  "days_per_month = [0, 31, 28, 31, 30, 31, 30, 31, 31, 30, 31, 30, 31]"

definition leap :: "int \<Rightarrow> bool" where
  "leap year \<longleftrightarrow> year mod 400 = 0 \<or> (year mod 4 = 0 \<and> year mod 100 \<noteq> 0)"

text \<open>Length of a month as the loop guard of \<open>ipmi_time_to_date\<close> computes it.\<close>

definition month_len :: "nat \<Rightarrow> int \<Rightarrow> nat" where
  "month_len month year = days_per_month ! month + (if leap year \<and> month = 2 then 1 else 0)"

lemma month_cases:
  "1 \<le> m \<Longrightarrow> m \<le> (12::nat) \<Longrightarrow>
   m = 1 \<or> m = 2 \<or> m = 3 \<or> m = 4 \<or> m = 5 \<or> m = 6 \<or>
   m = 7 \<or> m = 8 \<or> m = 9 \<or> m = 10 \<or> m = 11 \<or> m = 12"
  by presburger

lemma month_len_pos: "1 \<le> month \<Longrightarrow> month \<le> 12 \<Longrightarrow> 28 \<le> month_len month year"
  by (drule (1) month_cases) (auto simp: month_len_def days_per_month_def)

text \<open>The \<open>while\<close> loop of \<open>ipmi_time_to_date\<close>.  It starts at month 1 and keeps the month in
  1 to 12, so the first branch is never taken.\<close>

function date_loop :: "nat \<Rightarrow> nat \<Rightarrow> int \<Rightarrow> nat \<times> nat \<times> int" where
  "date_loop total_days month year =
     (if month < 1 \<or> 12 < month then (total_days, month, year)
      else if month_len month year \<le> total_days
      then (if 12 < month + 1
            then date_loop (total_days - month_len month year) 1 (year + 1)
            else date_loop (total_days - month_len month year) (month + 1) year)
      else (total_days, month, year))"
  by pat_completeness auto
termination
proof (relation "measure (\<lambda>(d, m, y). d)", goal_cases)
  case (2 total_days month year)
  then show ?case using month_len_pos [of month year] by auto
next
  case (3 total_days month year)
  then show ?case using month_len_pos [of month year] by auto
qed auto

declare date_loop.simps [simp del]

definition ipmi_time_to_date :: "byte \<Rightarrow> byte \<Rightarrow> byte \<Rightarrow> int \<times> nat \<times> int" where
  "ipmi_time_to_date t0 t1 t2 =
     (let minutes = (push_bit 8 (push_bit 8 (ucast t2) + ucast t1) + ucast t0 :: u32);
          total_days = unat (minutes div 1440);
          (d, month, year) = date_loop total_days 1 1996
      in (1 + int d, month, year))"

text \<open>The year loop of \<open>date_to_ipmi_time\<close>, with its leap flag; then the month loop.\<close>

function year_loop :: "int \<Rightarrow> int \<Rightarrow> bool \<Rightarrow> u32 \<Rightarrow> bool \<times> u32" where
  "year_loop i year isLeapYear minutes =
     (if i < year
      then year_loop (i + 1) year
             ((i + 1) mod 4 = 0 \<and> ((i + 1) mod 100 \<noteq> 0 \<or> (i + 1) mod 400 = 0))
             (minutes + (if isLeapYear then 366 else 365) * 1440)
      else (isLeapYear, minutes))"
  by pat_completeness auto
termination
  by (relation "measure (\<lambda>(i, year, l, m). nat (year - i))") auto

declare year_loop.simps [simp del]

fun month_loop :: "nat list \<Rightarrow> u32 \<Rightarrow> u32 option" where
  "month_loop [] minutes = Some minutes"
| "month_loop (i # is) minutes =
     (if i < length days_per_month
      then month_loop is (minutes + of_nat (days_per_month ! i) * 1440) else None)"

definition date_to_ipmi_time :: "int \<Rightarrow> int \<Rightarrow> int \<Rightarrow> (ivfru_ret + byte \<times> byte \<times> byte) option" where
  "date_to_ipmi_time day month year =
     (if year < MIN_YEAR then Some (Inl IVFRU_RET_INVALID_ARGUMENT)
      else
        (let (isLeapYear, minutes) = year_loop 1996 year True 0
         in do {
           minutes \<leftarrow> month_loop [1..<nat month] minutes;
           let minutes = (if 2 < month \<and> isLeapYear then minutes + 1440 else minutes);
           let minutes = minutes + of_int ((day - 1) * 1440);
           if minutes AND 0xFFFFFF = 0 then Some (Inl IVFRU_RET_INVALID_ARGUMENT)
           else Some (Inr (ucast (minutes AND 0xFF), ucast (drop_bit 8 minutes AND 0xFF),
                           ucast (drop_bit 8 (drop_bit 8 minutes) AND 0xFF))) }))"

text \<open>The date parser.  The accumulators are C \<open>int\<close>s.\<close>

fun digits_loop :: "byte list \<Rightarrow> int \<Rightarrow> (int \<times> byte list) option" where
  "digits_loop [] acc = Some (acc, [])"
| "digits_loop (c # cs) acc =
     (if c \<noteq> 0 \<and> 48 \<le> c \<and> c \<le> 57
      then do { acc \<leftarrow> int32 (acc * 10 + (uint c - 48)); digits_loop cs acc }
      else Some (acc, c # cs))"

definition expect_dash :: "byte list \<Rightarrow> byte list option" where
  "expect_dash s = (case s of c # cs \<Rightarrow> if c = 45 then Some cs else None | [] \<Rightarrow> None)"

definition date2dmy :: "byte list \<Rightarrow> (ivfru_ret + int \<times> int \<times> int) option" where
  "date2dmy date = do {
     (day, s) \<leftarrow> digits_loop date 0;
     (case expect_dash s of None \<Rightarrow> Some (Inl IVFRU_RET_INVALID_ARGUMENT) | Some s \<Rightarrow>
      if day < 1 \<or> 31 < day then Some (Inl IVFRU_RET_INVALID_ARGUMENT) else do {
     (month, s) \<leftarrow> digits_loop s 0;
     (case expect_dash s of None \<Rightarrow> Some (Inl IVFRU_RET_INVALID_ARGUMENT) | Some s \<Rightarrow>
      if month < 1 \<or> 12 < month then Some (Inl IVFRU_RET_INVALID_ARGUMENT) else do {
     (year, s) \<leftarrow> digits_loop s 0;
     if year < MIN_YEAR then Some (Inl IVFRU_RET_INVALID_ARGUMENT)
     else if month \<noteq> 2
     then (if int (days_per_month ! nat month) < day then Some (Inl IVFRU_RET_INVALID_ARGUMENT)
           else Some (Inr (day, month, year)))
     else if leap year \<and> 29 < day then Some (Inl IVFRU_RET_INVALID_ARGUMENT)
     else if \<not> leap year \<and> 28 < day then Some (Inl IVFRU_RET_INVALID_ARGUMENT)
     else Some (Inr (day, month, year)) }) }) }"

section \<open>The day number\<close>

definition year_len :: "int \<Rightarrow> nat" where
  "year_len year = (if leap year then 366 else 365)"

definition days_since_1996 :: "int \<Rightarrow> nat \<Rightarrow> int \<Rightarrow> nat" where
  "days_since_1996 day month year =
     (\<Sum>i<nat (year - 1996). year_len (1996 + int i)) + (\<Sum>m = 1..<month. month_len m year)
       + nat (day - 1)"

definition valid_date :: "int \<Rightarrow> int \<Rightarrow> int \<Rightarrow> bool" where
  "valid_date day month year \<longleftrightarrow>
     1996 \<le> year \<and> 1 \<le> month \<and> month \<le> 12 \<and> 1 \<le> day \<and> day \<le> int (month_len (nat month) year)"

lemma date_loop_month:
  "1 \<le> m \<Longrightarrow> m < 12 \<Longrightarrow> date_loop (month_len m y + t) m y = date_loop t (Suc m) y"
  by (subst date_loop.simps) simp

lemma date_loop_december: "date_loop (month_len 12 y + t) 12 y = date_loop t 1 (y + 1)"
  by (subst date_loop.simps) simp

lemma date_loop_months:
  "1 \<le> m \<Longrightarrow> m \<le> 12 \<Longrightarrow> date_loop ((\<Sum>i = 1..<m. month_len i y) + t) 1 y = date_loop t m y"
proof (induction m arbitrary: t)
  case 0
  then show ?case by simp
next
  case (Suc m)
  show ?case
  proof (cases "m = 0")
    case True
    then show ?thesis by simp
  next
    case False
    then have "date_loop ((\<Sum>i = 1..<Suc m. month_len i y) + t) 1 y
        = date_loop ((\<Sum>i = 1..<m. month_len i y) + (month_len m y + t)) 1 y"
      by (simp add: add.assoc)
    also have "\<dots> = date_loop t (Suc m) y"
      using Suc False by (simp add: date_loop_month)
    finally show ?thesis .
  qed
qed

lemma sum_months_of_year: "(\<Sum>i = 1..<12. month_len i y) + month_len 12 y = year_len y"
  by (simp add: month_len_def days_per_month_def year_len_def eval_nat_numeral)

lemma date_loop_year: "date_loop (year_len y + t) 1 y = date_loop t 1 (y + 1)"
proof -
  have "date_loop (year_len y + t) 1 y
      = date_loop ((\<Sum>i = 1..<12. month_len i y) + (month_len 12 y + t)) 1 y"
    by (simp only: sum_months_of_year [symmetric] add.assoc)
  also have "\<dots> = date_loop t 1 (y + 1)"
    by (subst date_loop_months) (simp_all add: date_loop_december)
  finally show ?thesis .
qed

lemma date_loop_years:
  "date_loop ((\<Sum>i<n. year_len (y + int i)) + t) 1 y = date_loop t 1 (y + int n)"
proof (induction n arbitrary: t)
  case 0
  then show ?case by simp
next
  case (Suc n)
  have "date_loop ((\<Sum>i<Suc n. year_len (y + int i)) + t) 1 y
      = date_loop ((\<Sum>i<n. year_len (y + int i)) + (year_len (y + int n) + t)) 1 y"
    by (simp add: add.assoc)
  also have "\<dots> = date_loop t 1 (y + int n + 1)"
    by (simp only: Suc.IH date_loop_year)
  finally show ?case by (simp add: add.commute add.left_commute)
qed

text \<open>The loop inverts the day number.\<close>

lemma date_loop_days_since:
  assumes "valid_date day month year"
  shows "date_loop (days_since_1996 day (nat month) year) 1 1996 = (nat (day - 1), nat month, year)"
proof -
  have "date_loop (days_since_1996 day (nat month) year) 1 1996
      = date_loop ((\<Sum>m = 1..<nat month. month_len m year) + nat (day - 1)) 1 (1996 + int (nat (year - 1996)))"
    by (simp only: days_since_1996_def add.assoc date_loop_years)
  also have "\<dots> = date_loop (nat (day - 1)) (nat month) year"
    using assms by (subst date_loop_months [symmetric]) (auto simp: valid_date_def)
  also have "\<dots> = (nat (day - 1), nat month, year)"
    using assms by (subst date_loop.simps) (auto simp: valid_date_def)
  finally show ?thesis .
qed

section \<open>Encoding computes the minute count\<close>

lemma leap_alt: "(y mod 4 = 0 \<and> (y mod 100 \<noteq> 0 \<or> y mod 400 = 0)) = leap (y::int)"
  unfolding leap_def by presburger

lemma year_loop_eq:
  "year_loop i (i + int n) (leap i) minutes =
     (leap (i + int n), minutes + of_nat (1440 * (\<Sum>k<n. year_len (i + int k))))"
proof (induction n arbitrary: i minutes)
  case 0
  then show ?case by (simp add: year_loop.simps)
next
  case (Suc n)
  have "year_loop i (i + int (Suc n)) (leap i) minutes =
      year_loop (i + 1) (i + 1 + int n) (leap (i + 1)) (minutes + (if leap i then 366 else 365) * 1440)"
    by (subst year_loop.simps) (simp only: leap_alt, simp add: add.assoc)
  also have "\<dots> = (leap (i + int (Suc n)),
      minutes + (if leap i then 366 else 365) * 1440
        + of_nat (1440 * (\<Sum>k<n. year_len (i + int (Suc k)))))"
    by (simp only: Suc.IH) (simp add: add.assoc)
  also have "minutes + (if leap i then 366 else 365) * 1440
        + of_nat (1440 * (\<Sum>k<n. year_len (i + int (Suc k))))
      = minutes + of_nat (1440 * (\<Sum>k<Suc n. year_len (i + int k)))"
    by (simp add: sum.lessThan_Suc_shift year_len_def algebra_simps del: sum.lessThan_Suc)
  finally show ?case .
qed

lemma month_loop_eq:
  "m \<le> 13 \<Longrightarrow> month_loop [1..<m] minutes = Some (minutes + of_nat (1440 * (\<Sum>i = 1..<m. days_per_month ! i)))"
proof (induction m)
  case 0
  then show ?case by simp
next
  case (Suc m)
  have app: "month_loop (xs @ [i]) t = month_loop xs t \<bind> (\<lambda>t. month_loop [i] t)" for xs i t
    by (induction xs arbitrary: t) auto
  show ?case
  proof (cases "m = 0")
    case False
    then have "[1..<Suc m] = [1..<m] @ [m]" by simp
    with Suc False show ?thesis
      by (simp add: app days_per_month_def algebra_simps del: upt_Suc)
  qed simp
qed

lemma sum_month_len:
  "(\<Sum>i = 1..<m. month_len i y) = (\<Sum>i = 1..<m. days_per_month ! i) + (if 2 < m \<and> leap y then 1 else 0)"
  by (induction m) (auto simp: month_len_def less_Suc_eq numeral_2_eq_2 split: if_splits)

section \<open>Three bytes of a minute count\<close>

definition ipmi_minutes :: "byte \<Rightarrow> byte \<Rightarrow> byte \<Rightarrow> u32" where
  "ipmi_minutes t0 t1 t2 = push_bit 8 (push_bit 8 (ucast t2) + ucast t1) + ucast t0"

lemma unat_ipmi_minutes:
  "unat (ipmi_minutes t0 t1 t2) = unat t0 + 256 * unat t1 + 65536 * unat t2"
proof -
  have b: "unat t0 < 256" "unat t1 < 256" "unat t2 < 256"
    using unsigned_less [of t0] unsigned_less [of t1] unsigned_less [of t2] by simp_all
  then have "unat t0 + 256 * unat t1 + 65536 * unat t2 < 2 ^ LENGTH(32)" by simp
  moreover have "ipmi_minutes t0 t1 t2 = of_nat (unat t0 + 256 * unat t1 + 65536 * unat t2)"
    by (simp add: ipmi_minutes_def push_bit_eq_mult unsigned_ucast_eq algebra_simps)
  ultimately show ?thesis by (simp only: unat_of_nat mod_less)
qed

lemma low_bytes_minutes:
  fixes w :: u32
  defines "t0 \<equiv> ucast (w AND 0xFF) :: byte"
    and "t1 \<equiv> ucast (drop_bit 8 w AND 0xFF) :: byte"
    and "t2 \<equiv> ucast (drop_bit 8 (drop_bit 8 w) AND 0xFF) :: byte"
  shows "unat (ipmi_minutes t0 t1 t2) = unat w mod 2 ^ 24"
proof -
  have m: "w AND 0xFF = take_bit 8 w" for w :: u32
    by (simp add: take_bit_eq_mask mask_eq_exp_minus_1)
  have "unat t0 = unat w mod 256" "unat t1 = unat w div 256 mod 256" "unat t2 = unat w div 65536 mod 256"
    unfolding t0_def t1_def t2_def m
    by (simp_all add: unsigned_ucast_eq take_bit_eq_mod drop_bit_eq_div unat_mod unat_div div_mult2_eq [symmetric])
  moreover have "n mod 256 + 256 * (n div 256 mod 256) + 65536 * (n div 65536 mod 256) = n mod 2 ^ 24"
    for n :: nat
    using mod_mult2_eq [of n 256 65536] mod_mult2_eq [of "n div 256" 256 256]
    by (simp add: div_mult2_eq [symmetric])
  ultimately show ?thesis by (simp add: unat_ipmi_minutes)
qed

lemma ipmi_time_to_date_days:
  "ipmi_time_to_date t0 t1 t2 =
     (case date_loop (unat (ipmi_minutes t0 t1 t2) div 1440) 1 1996 of (d, m, y) \<Rightarrow> (1 + int d, m, y))"
  by (simp add: ipmi_time_to_date_def ipmi_minutes_def Let_def unat_div)

text \<open>What the encoder stores for a valid date: the minute count modulo 2 to the 24.\<close>

lemma date_to_ipmi_time_minutes:
  assumes v: "valid_date day month year"
  defines "w \<equiv> of_nat (1440 * days_since_1996 day (nat month) year) :: u32"
  shows "date_to_ipmi_time day month year =
     (if w AND 0xFFFFFF = 0 then Some (Inl IVFRU_RET_INVALID_ARGUMENT)
      else Some (Inr (ucast (w AND 0xFF), ucast (drop_bit 8 w AND 0xFF),
                      ucast (drop_bit 8 (drop_bit 8 w) AND 0xFF))))"
proof -
  have y: "year_loop 1996 year True 0 =
      (leap year, of_nat (1440 * (\<Sum>k<nat (year - 1996). year_len (1996 + int k))))"
    using v year_loop_eq [of 1996 "nat (year - 1996)" 0] by (simp add: valid_date_def leap_def)
  have "(of_int ((day - 1) * 1440) :: u32) = of_nat (1440 * nat (day - 1))"
    using v by (simp add: valid_date_def of_nat_nat mult.commute)
  then have w: "(if 2 < month \<and> leap year
        then of_nat (1440 * (\<Sum>k<nat (year - 1996). year_len (1996 + int k)))
          + of_nat (1440 * (\<Sum>i = 1..<nat month. days_per_month ! i)) + 1440
        else of_nat (1440 * (\<Sum>k<nat (year - 1996). year_len (1996 + int k)))
          + of_nat (1440 * (\<Sum>i = 1..<nat month. days_per_month ! i)))
      + of_int ((day - 1) * 1440) = w"
    using v unfolding w_def days_since_1996_def sum_month_len
    by (auto simp: algebra_simps valid_date_def)
  have m: "nat month \<le> 13" "\<not> year < MIN_YEAR" using v by (auto simp: valid_date_def MIN_YEAR_def)
  show ?thesis
    by (simp only: date_to_ipmi_time_def m(2) if_False Let_def y prod.case
          month_loop_eq [OF m(1)] bind.bind_lunit w)
qed
section \<open>Dates round-trip\<close>

lemma mask24_mod: "(w AND 0xFFFFFF = (0::u32)) = (unat w mod 2 ^ 24 = 0)"
proof -
  have "w AND 0xFFFFFF = take_bit 24 w"
    by (simp add: take_bit_eq_mask mask_eq_exp_minus_1)
  moreover have "unat (take_bit 24 w) = unat w mod 2 ^ 24"
    by (simp add: take_bit_eq_mod unat_mod)
  ultimately show ?thesis by (metis unat_0 unat_eq_zero)
qed

lemma ipmi_date_inverse:
  assumes "valid_date day month year"
    and "0 < days_since_1996 day (nat month) year"
    and "1440 * days_since_1996 day (nat month) year < 2 ^ 24"
  shows "\<exists>t0 t1 t2. date_to_ipmi_time day month year = Some (Inr (t0, t1, t2)) \<and>
           ipmi_time_to_date t0 t1 t2 = (day, nat month, year)"
proof -
  let ?D = "days_since_1996 day (nat month) year"
  define w :: u32 where "w = of_nat (1440 * ?D)"
  have "1440 * ?D < 2 ^ LENGTH(32)" using assms(3) by simp
  then have u: "unat w = 1440 * ?D" unfolding w_def by (simp only: unat_of_nat mod_less)
  with assms(2,3) have nz: "w AND 0xFFFFFF \<noteq> 0" by (simp add: mask24_mod)
  have "unat (ipmi_minutes (ucast (w AND 0xFF)) (ucast (drop_bit 8 w AND 0xFF))
      (ucast (drop_bit 8 (drop_bit 8 w) AND 0xFF))) = 1440 * ?D"
    using assms(3) by (simp only: low_bytes_minutes u mod_less)
  then have "ipmi_time_to_date (ucast (w AND 0xFF)) (ucast (drop_bit 8 w AND 0xFF))
      (ucast (drop_bit 8 (drop_bit 8 w) AND 0xFF)) = (day, nat month, year)"
    using assms(1) date_loop_days_since [OF assms(1)]
    by (simp add: ipmi_time_to_date_days valid_date_def del: One_nat_def)
  with nz show ?thesis
    using date_to_ipmi_time_minutes [OF assms(1)] unfolding w_def by auto
qed

text \<open>
  C10: every valid date after 1996-01-01 whose minute count fits in the 24-bit IPMI time stamp is
  stored by \<open>date_to_ipmi_time\<close> and read back unchanged by \<open>ipmi_time_to_date\<close>.
\<close>
theorem ipmi_date_roundtrip:
  assumes "valid_date day month year"
    and "0 < days_since_1996 day (nat month) year"
    and "1440 * days_since_1996 day (nat month) year < 2 ^ 24"
  shows "\<exists>t0 t1 t2. date_to_ipmi_time day month year = Some (Inr (t0, t1, t2)) \<and>
           ipmi_time_to_date t0 t1 t2 = (day, nat month, year)"
  by (rule ipmi_date_inverse [OF assms])

lemma days_2021_06_15: "days_since_1996 15 6 2021 = 9297"
  by (simp add: days_since_1996_def year_len_def leap_def month_len_def days_per_month_def
      eval_nat_numeral)

theorem ipmi_date_roundtrip_witness:
  "\<exists>t0 t1 t2. date_to_ipmi_time 15 6 2021 = Some (Inr (t0, t1, t2)) \<and>
     ipmi_time_to_date t0 t1 t2 = (15, 6, 2021)"
  using ipmi_date_roundtrip [of 15 6 2021]
  by (simp add: days_2021_06_15 valid_date_def month_len_def days_per_month_def)

section \<open>The date parser\<close>

definition dec2 :: "int \<Rightarrow> byte list" where
  "dec2 n = [of_int (48 + n div 10), of_int (48 + n mod 10)]"

definition dmy_string :: "int \<Rightarrow> int \<Rightarrow> int \<Rightarrow> byte list" where
  "dmy_string day month year =
     dec2 day @ [45] @ dec2 month @ [45] @ dec2 (year div 100) @ dec2 (year mod 100)"

lemma digit_byte:
  assumes "0 \<le> k" "k \<le> 9"
  shows "(of_int (48 + k) :: byte) \<noteq> 0" "48 \<le> (of_int (48 + k) :: byte)"
    "(of_int (48 + k) :: byte) \<le> 57" "uint (of_int (48 + k) :: byte) = 48 + k"
proof -
  show u: "uint (of_int (48 + k) :: byte) = 48 + k"
    using assms by (simp add: uint_word_of_int take_bit_eq_mod del: of_int_add)
  show "(of_int (48 + k) :: byte) \<noteq> 0" "48 \<le> (of_int (48 + k) :: byte)"
    "(of_int (48 + k) :: byte) \<le> 57"
    using assms unfolding word_uint_eq_iff word_le_def u by simp_all
qed

lemma digits_loop_digit:
  assumes "0 \<le> k" "k \<le> 9" "0 \<le> acc" "acc < 10000"
  shows "digits_loop (of_int (48 + k) # cs) acc = digits_loop cs (acc * 10 + k)"
  using assms by (simp add: digit_byte int32_def del: of_int_add)

lemma digits_loop_dec2:
  assumes "0 \<le> n" "n \<le> 99" "0 \<le> acc" "acc \<le> 99"
  shows "digits_loop (dec2 n @ cs) acc = digits_loop cs (acc * 100 + n)"
proof -
  have "digits_loop (dec2 n @ cs) acc
      = digits_loop (of_int (48 + n mod 10) # cs) (acc * 10 + n div 10)"
    unfolding dec2_def append.simps by (rule digits_loop_digit) (use assms in auto)
  also have "\<dots> = digits_loop cs ((acc * 10 + n div 10) * 10 + n mod 10)"
    by (rule digits_loop_digit) (use assms in auto)
  also have "(acc * 10 + n div 10) * 10 + n mod 10 = acc * 100 + n" by simp
  finally show ?thesis .
qed

lemma digits_loop_dash [simp]: "digits_loop (45 # cs) acc = Some (acc, 45 # cs)"
  by simp

lemma days_per_month_le: "m \<le> 12 \<Longrightarrow> days_per_month ! m \<le> 31"
  using month_cases [of m] by (cases "m = 0") (auto simp: days_per_month_def)

lemma date2dmy_on_dmy:
  assumes "0 \<le> day" "day \<le> 99" "0 \<le> month" "month \<le> 99" "0 \<le> year" "year \<le> 9999"
  shows "date2dmy (dmy_string day month year) =
    Some (if valid_date day month year then Inr (day, month, year)
          else Inl IVFRU_RET_INVALID_ARGUMENT)"
proof -
  have y: "digits_loop (dec2 (year div 100) @ dec2 (year mod 100)) 0 = Some (year, [])"
    using assms digits_loop_dec2 [of "year mod 100" "year div 100" "[]"]
    by (simp add: digits_loop_dec2)
  have l: "nat month = 2 \<longleftrightarrow> month = 2" by auto
  have "month \<le> 12 \<Longrightarrow> int (days_per_month ! nat month) \<le> 31"
    using days_per_month_le [of "nat month"] by simp
  moreover have "days_per_month ! 2 = 28" by (simp add: days_per_month_def)
  ultimately show ?thesis
    using assms
    by (auto simp: date2dmy_def dmy_string_def digits_loop_dec2 expect_dash_def y MIN_YEAR_def
        valid_date_def month_len_def l)
qed

text \<open>
  On a string in the documented form DD-MM-YYYY the parser \<open>date2dmy\<close> returns the three
  numbers when they are a date of the calendar not before 1996, and rejects the string otherwise.
\<close>
theorem date2dmy_decides_validity:
  assumes "0 \<le> day" "day \<le> 99" "0 \<le> month" "month \<le> 99" "0 \<le> year" "year \<le> 9999"
  shows "date2dmy (dmy_string day month year) =
    Some (if valid_date day month year then Inr (day, month, year)
          else Inl IVFRU_RET_INVALID_ARGUMENT)"
  by (rule date2dmy_on_dmy [OF assms])

theorem date2dmy_decides_validity_witness:
  "date2dmy (dmy_string 29 2 2024) = Some (Inr (29, 2, 2024)) \<and>
   date2dmy (dmy_string 29 2 2023) = Some (Inl IVFRU_RET_INVALID_ARGUMENT)"
  using date2dmy_decides_validity [of 29 2 2024] date2dmy_decides_validity [of 29 2 2023]
  by (simp add: valid_date_def month_len_def days_per_month_def leap_def)

lemma days_2027_11_25: "days_since_1996 25 11 2027 = 11651"
  by (simp add: days_since_1996_def year_len_def leap_def month_len_def days_per_month_def
      eval_nat_numeral)

text \<open>
  The encoder accepts dates beyond the 24-bit range and silently stores the minute count
  modulo 2 to the 24: 25-11-2027, a valid date, is stored as a time stamp that decodes to
  01-01-1996.
\<close>
theorem ipmi_date_wraps_silently:
  "valid_date 25 11 2027 \<and>
   (\<exists>t0 t1 t2. date_to_ipmi_time 25 11 2027 = Some (Inr (t0, t1, t2)) \<and>
      ipmi_time_to_date t0 t1 t2 = (1, 1, 1996))"
proof -
  have v: "valid_date 25 11 2027"
    by (simp add: valid_date_def month_len_def days_per_month_def)
  have "date_to_ipmi_time 25 11 2027 = Some (Inr (224, 0, 0))"
    using date_to_ipmi_time_minutes [OF v] by (simp add: days_2027_11_25)
  moreover have "ipmi_time_to_date 224 0 0 = (1, 1, 1996)"
    by (simp add: ipmi_time_to_date_def date_loop.simps month_len_def days_per_month_def)
  ultimately show ?thesis using v by blast
qed
end
