(* ===== verification/Fru_Edit.thy ===== *)
theory Fru_Edit
  imports Fru_Validate Fru_Date
begin

text \<open>
  The editing commands of the FRU tool as transformations of the image buffer
  (\<open>ivfru_common.c\<close>: \<open>ivfru_fix\<close>, \<open>ivfru_xcreate\<close>, \<open>ivfru_add\<close>, \<open>ivfru_rm\<close>), without the platform
  calls, which theory Fru_Ops puts around them.  On a buffer that holds the encoding of a record
  the commands are shown to produce the encoding of the edited record: insertion and removal in
  the list of custom fields, the record made of the given strings, and the same record in the new
  header format.
\<close>

section \<open>Walking to a custom field\<close>

text \<open>The loop over the five predefined fields.\<close>

primrec skip_fields :: "nat \<Rightarrow> byte list \<Rightarrow> nat \<Rightarrow> nat option" where
  "skip_fields 0 mem address = Some address"
| "skip_fields (Suc n) mem address = do { address \<leftarrow> next_field mem address; skip_fields n mem address }"

function goto_custom :: "byte list \<Rightarrow> nat \<Rightarrow> int \<Rightarrow> (nat \<times> int) option" where
  "goto_custom mem address index =
     (case ld mem address of
        None \<Rightarrow> None
      | Some b \<Rightarrow>
          if b \<noteq> FRU_END_MARKER \<and> 0 < index
          then goto_custom mem (address + 1 + tl_length b) (index - 1)
          else Some (address, index))"
  by pat_completeness auto
termination
  by (relation "measure (\<lambda>(mem, address, index). length mem - address)")
     (auto simp: ld_def split: if_splits)

text \<open>The address just after the end marker.\<close>

function find_end :: "byte list \<Rightarrow> nat \<Rightarrow> nat option" where
  "find_end mem e =
     (case ld mem e of
        None \<Rightarrow> None
      | Some b \<Rightarrow> if b \<noteq> FRU_END_MARKER then find_end mem (e + 1 + tl_length b) else Some (e + 1))"
  by pat_completeness auto
termination
  by (relation "measure (\<lambda>(mem, e). length mem - e)") (auto simp: ld_def split: if_splits)

declare goto_custom.simps [simp del] find_end.simps [simp del]

section \<open>Padding, length and checksum\<close>

definition round8 :: "nat \<Rightarrow> nat" where
  "round8 n = ((n + 7) div 8) * 8"

text \<open>The tail shared by \<open>ivfru_add\<close> and \<open>ivfru_rm\<close>: zero the padding, store the area length in
  units of eight bytes, and store the checksum after the padding.\<close>

definition seal_bia :: "byte list \<Rightarrow> nat \<Rightarrow> nat \<Rightarrow> nat \<Rightarrow> byte list option" where
  "seal_bia mem e bia_len pad_len = do {
     mem \<leftarrow> stn mem e (replicate pad_len 0);
     mem \<leftarrow> st mem (sizeof_ch + 1) (of_nat (bia_len div 8));
     c \<leftarrow> fru_calculate_checksum mem sizeof_ch (int bia_len - 1);
     st mem (e + pad_len) c }"

section \<open>\<open>ivfru_rm\<close>\<close>

text \<open>\<open>memcpy\<close> between two regions of the buffer.  The C standard leaves an overlapping copy
  undefined; the flag says that the C library copies in ascending order, as a move down needs.\<close>

definition memcpy_within :: "bool \<Rightarrow> byte list \<Rightarrow> nat \<Rightarrow> nat \<Rightarrow> nat \<Rightarrow> byte list option" where
  "memcpy_within ascending mem dst src n =
     (if ascending \<or> dst + n \<le> src \<or> src + n \<le> dst
      then do { xs \<leftarrow> ldn mem src n; stn mem dst xs } else None)"

definition rm_image :: "bool \<Rightarrow> byte list \<Rightarrow> int \<Rightarrow> (ivfru_ret + byte list \<times> nat) option" where
  "rm_image ascending mem index = do {
     old \<leftarrow> fru_is_old_format mem;
     if old then Some (Inl IVFRU_RET_FRU_OLD_FORMAT) else do {
     (ret, _) \<leftarrow> ivfru_validate mem False;
     if ret \<noteq> IVFRU_RET_SUCCESS then Some (Inl IVFRU_RET_INVALID_FRU_DATA) else do {
     address \<leftarrow> skip_fields 5 mem (sizeof_ch + sizeof_bia);
     (address, index) \<leftarrow> goto_custom mem address index;
     if index \<noteq> 0 then Some (Inl IVFRU_RET_INVALID_ARGUMENT) else do {
     c \<leftarrow> ld mem address;
     if c = FRU_END_MARKER then Some (Inl IVFRU_RET_INVALID_ARGUMENT) else do {
     len \<leftarrow> fru_tl_get_length mem address;
     let rlen = len + 1;
     e \<leftarrow> find_end mem address;
     mem \<leftarrow> memcpy_within ascending mem address (address + rlen) (e - address - rlen);
     let e = e - rlen;
     let bia_len = round8 (e - sizeof_ch + 1);
     let pad_len = bia_len - (e - sizeof_ch + 1);
     mem \<leftarrow> seal_bia mem e bia_len pad_len;
     Some (Inr (mem, bia_len + sizeof_ch)) } } } } }"

section \<open>\<open>ivfru_add\<close>\<close>

text \<open>The part before the buffer is resized.  \<open>field\<close> is a variable-length array of \<open>len + 1\<close>
  bytes, which needs a positive size.\<close>

record add_plan =
  ap_address :: nat
  ap_end :: nat
  ap_index :: int
  ap_field :: "byte list"
  ap_bia_len :: nat
  ap_pad_len :: nat

definition add_prepare :: "byte list \<Rightarrow> int \<Rightarrow> byte list \<Rightarrow> int \<Rightarrow> (ivfru_ret + add_plan) option" where
  "add_prepare mem index data len = do {
     old \<leftarrow> fru_is_old_format mem;
     if old then Some (Inl IVFRU_RET_FRU_OLD_FORMAT) else do {
     (ret, _) \<leftarrow> ivfru_validate mem False;
     if ret \<noteq> IVFRU_RET_SUCCESS then Some (Inl IVFRU_RET_INVALID_FRU_DATA) else
     if len + 1 \<le> 0 then None else do {
     r \<leftarrow> fru_area_format_field (replicate (nat (len + 1)) 0) 0 (Some data) len IVFRU_TLB_TYPE_11;
     (case r of
        Inl _ \<Rightarrow> Some (Inl IVFRU_RET_INVALID_ARGUMENT)
      | Inr (field, _) \<Rightarrow> do {
          address \<leftarrow> skip_fields 5 mem (sizeof_ch + sizeof_bia);
          (address, index) \<leftarrow> goto_custom mem address index;
          e \<leftarrow> find_end mem address;
          let used = e - sizeof_ch + length field + 1;
          let bia_len = round8 used;
          Some (Inr \<lparr>ap_address = address, ap_end = e, ap_index = index, ap_field = field,
                     ap_bia_len = bia_len, ap_pad_len = bia_len - used\<rparr>) }) } } }"

text \<open>The loop that moves the tail up by \<open>k\<close> bytes, from its last byte down to \<open>address\<close>; \<open>n\<close>
  counts the bytes still to move.\<close>

primrec make_room :: "nat \<Rightarrow> nat \<Rightarrow> nat \<Rightarrow> byte list \<Rightarrow> byte list option" where
  "make_room 0 address k mem = Some mem"
| "make_room (Suc n) address k mem = do {
     b \<leftarrow> ld mem (address + n);
     mem \<leftarrow> st mem (address + n + k) b;
     make_room n address k mem }"

definition add_commit :: "byte list \<Rightarrow> add_plan \<Rightarrow> (byte list \<times> nat) option" where
  "add_commit mem p = do {
     let address = (if ap_index p < 0 then ap_end p - 1 else ap_address p);
     let field_len = length (ap_field p);
     mem \<leftarrow> make_room (ap_end p - address) address field_len mem;
     mem \<leftarrow> stn mem address (ap_field p);
     mem \<leftarrow> seal_bia mem (ap_end p + field_len) (ap_bia_len p) (ap_pad_len p);
     Some (mem, ap_bia_len p + sizeof_ch) }"

section \<open>\<open>ivfru_fix\<close>\<close>

definition fix_image :: "byte list \<Rightarrow> (ivfru_ret + byte list \<times> nat) option" where
  "fix_image mem = do {
     old \<leftarrow> fru_is_old_format mem;
     if \<not> old then Some (Inl IVFRU_RET_FRU_NEW_FORMAT) else do {
     mem \<leftarrow> st mem 3 0x01;
     c \<leftarrow> fru_calculate_checksum mem 0 (int sizeof_ch - 1);
     mem \<leftarrow> st mem 7 c;
     l \<leftarrow> ld mem (sizeof_ch + 1);
     let bia_len = unat l;
     mem \<leftarrow> st mem (sizeof_ch + 1) (l div 0x08);
     c \<leftarrow> fru_calculate_checksum mem sizeof_ch (int bia_len - 1);
     mem \<leftarrow> st mem (sizeof_ch + bia_len - 1) c;
     Some (Inr (mem, bia_len + sizeof_ch)) } }"

section \<open>\<open>ivfru_xcreate\<close>\<close>

text \<open>String, type and requested length of the six fields; the end marker is the null pointer.\<close>

type_synonym field_spec = "byte list option \<times> ivfru_tlb_type \<times> int"

definition xcreate_fields ::
  "byte list \<Rightarrow> int \<Rightarrow> byte list \<Rightarrow> int \<Rightarrow> byte list \<Rightarrow> int \<Rightarrow> byte list \<Rightarrow> int \<Rightarrow> field_spec list"
where
  "xcreate_fields product product_len sn sn_len pn pn_len mfr mfr_len =
     [(Some mfr, IVFRU_TLB_TYPE_11, mfr_len),
      (Some product, IVFRU_TLB_TYPE_11, product_len),
      (Some sn, IVFRU_TLB_TYPE_11, sn_len),
      (Some pn, IVFRU_TLB_TYPE_11, pn_len),
      (Some [], IVFRU_TLB_TYPE_UNSPECIFIED, 0),
      (None, IVFRU_TLB_TYPE_11, 0)]"

text \<open>The loop that settles the lengths; \<open>None\<close> is its error return.\<close>

fun settle_lengths :: "field_spec list \<Rightarrow> field_spec list option" where
  "settle_lengths [] = Some []"
| "settle_lengths ((Some s, t, len) # fs) =
     (if len < 0 then map_option (Cons (Some s, t, int (length s))) (settle_lengths fs)
      else if len < int (length s) then None
      else map_option (Cons (Some s, t, len)) (settle_lengths fs))"
| "settle_lengths ((None, t, len) # fs) = map_option (Cons (None, t, 0)) (settle_lengths fs)"

fun total_size_loop :: "field_spec list \<Rightarrow> int \<Rightarrow> int option" where
  "total_size_loop [] acc = Some acc"
| "total_size_loop ((s, t, len) # fs) acc =
     do { l \<leftarrow> int32 (1 + len); acc \<leftarrow> int32 (acc + l); total_size_loop fs acc }"

definition xcreate_sizes :: "field_spec list \<Rightarrow> (int \<times> int) option" where
  "xcreate_sizes fs = do {
     t \<leftarrow> total_size_loop fs (int sizeof_ch + int sizeof_bia);
     used \<leftarrow> int32 (t + 1);
     up \<leftarrow> int32 (used + 7);
     let total_size = (up div 8) * 8;
     Some (total_size, total_size - used) }"

text \<open>One iteration of the loop that writes the fields.  A field of length zero takes the other
  call, whose length argument is the type and whose type argument is zero.\<close>

definition xcreate_field :: "byte list \<Rightarrow> nat \<Rightarrow> field_spec \<Rightarrow> (ivfru_ret + byte list \<times> nat) option" where
  "xcreate_field mem address fs = (case fs of (s, t, len) \<Rightarrow>
     if 0 < len
     then do {
       str \<leftarrow> s;
       field \<leftarrow> stn (replicate (nat len) 0x20) 0 str;
       fru_area_format_field mem address (Some field) len t }
     else fru_area_format_field mem address (map_option (\<lambda>str. str @ [0]) s) (tlb_val t)
            IVFRU_TLB_TYPE_UNSPECIFIED)"

fun xcreate_loop :: "byte list \<Rightarrow> nat \<Rightarrow> field_spec list \<Rightarrow> (ivfru_ret \<times> byte list \<times> nat) option" where
  "xcreate_loop mem address [] = Some (IVFRU_RET_SUCCESS, mem, address)"
| "xcreate_loop mem address (fs # rest) = do {
     r \<leftarrow> xcreate_field mem address fs;
     (case r of
        Inl _ \<Rightarrow> Some (IVFRU_RET_INVALID_ARGUMENT, mem, address)
      | Inr (mem, address) \<Rightarrow> xcreate_loop mem address rest) }"

text \<open>The part after the buffer is reserved; the result of \<open>date_to_ipmi_time\<close> is not looked at.\<close>

definition xcreate_image ::
  "byte list \<Rightarrow> int \<times> int \<times> int \<Rightarrow> field_spec list \<Rightarrow> int \<Rightarrow> int \<Rightarrow> (ivfru_ret \<times> byte list) option"
where
  "xcreate_image mem dmy fs total_size pad_len = (case dmy of (day, month, year) \<Rightarrow> do {
     mem \<leftarrow> stn mem 0 CH_DEFAULT;
     let bia_len = total_size - int sizeof_ch;
     mem \<leftarrow> st mem sizeof_ch 0x01;
     mem \<leftarrow> st mem (sizeof_ch + 1) (of_int (bia_len div 8));
     mem \<leftarrow> st mem (sizeof_ch + 2) 0x00;
     time \<leftarrow> date_to_ipmi_time day month year;
     mem \<leftarrow> (case time of Inl _ \<Rightarrow> Some mem | Inr (t0, t1, t2) \<Rightarrow> stn mem (sizeof_ch + 3) [t0, t1, t2]);
     (ret, mem, address) \<leftarrow> xcreate_loop mem (sizeof_ch + sizeof_bia) fs;
     if ret \<noteq> IVFRU_RET_SUCCESS then Some (IVFRU_RET_INVALID_ARGUMENT, mem)
     else do {
       mem \<leftarrow> stn mem address (replicate (nat pad_len) 0);
       c \<leftarrow> fru_calculate_checksum mem sizeof_ch (bia_len - 1);
       mem \<leftarrow> st mem (address + nat pad_len) c;
       Some (IVFRU_RET_SUCCESS, mem) } })"

section \<open>The walks on an encoded list of fields\<close>

lemma skip_fields_enc:
  "drop a mem = enc_fields gs @ z \<Longrightarrow> list_all wf_field gs \<Longrightarrow>
   skip_fields (length gs) mem a = Some (a + length (enc_fields gs))"
proof (induction gs arbitrary: a)
  case (Cons g gs)
  then show ?case using next_field_enc [of a mem g gs z] by simp
qed simp

lemma goto_custom_enc:
  "drop a mem = enc_fields fs @ FRU_END_MARKER # z \<Longrightarrow> list_all wf_field fs \<Longrightarrow>
   goto_custom mem a index =
     Some (a + length (enc_fields (take (nat index) fs)), index - int (min (nat index) (length fs)))"
proof (induction fs arbitrary: a index)
  case Nil
  then show ?case by (simp add: goto_custom.simps [of mem a] ld_drop_eq)
next
  case (Cons g fs)
  have d: "drop (a + 1 + length (snd g)) mem = enc_fields fs @ FRU_END_MARKER # z"
    "ld mem a = Some (fst g)" "fst g \<noteq> FRU_END_MARKER" "tl_length (fst g) = length (snd g)"
    using Cons.prems next_field_enc [of a mem g fs] by (auto simp: wf_field_def intro: ld_drop_eq)
  show ?case
  proof (cases "0 < index")
    case True
    then have "nat index = Suc (nat (index - 1))" by simp
    then show ?thesis
      using Cons.IH [OF d(1), of "index - 1"] Cons.prems d True
      by (simp add: goto_custom.simps [of mem a])
  next
    case False
    then show ?thesis using d by (simp add: goto_custom.simps [of mem a])
  qed
qed

lemma find_end_enc:
  "drop a mem = enc_fields fs @ FRU_END_MARKER # z \<Longrightarrow> list_all wf_field fs \<Longrightarrow>
   find_end mem a = Some (a + length (enc_fields fs) + 1)"
proof (induction fs arbitrary: a)
  case Nil
  then show ?case by (simp add: find_end.simps [of mem a] ld_drop_eq)
next
  case (Cons g fs)
  have d: "drop (a + 1 + length (snd g)) mem = enc_fields fs @ FRU_END_MARKER # z"
    "ld mem a = Some (fst g)" "fst g \<noteq> FRU_END_MARKER" "tl_length (fst g) = length (snd g)"
    using Cons.prems next_field_enc [of a mem g fs] by (auto simp: wf_field_def intro: ld_drop_eq)
  then show ?case using Cons.IH [OF d(1)] Cons.prems by (simp add: find_end.simps [of mem a])
qed

text \<open>Positions in an image: the custom fields start right after the file identifier.\<close>

definition custom_start :: "fru \<Rightarrow> nat" where
  "custom_start f = sizeof_ch + sizeof_bia + length (enc_fields (fru_predef f)) + 1"

lemma image_walk:
  assumes i: "image_of mem ch lenb f pad rest"
  defines "z \<equiv> replicate pad 0 @ - sum_list (enc_body lenb f pad) # rest"
  shows "skip_fields 5 mem (sizeof_ch + sizeof_bia) = Some (custom_start f)"
    and "drop (custom_start f) mem = enc_fields (fru_custom f) @ FRU_END_MARKER # z"
proof -
  have w: "length (fru_predef f) = 4" "list_all wf_field (fru_predef f)"
    using i by (auto simp: image_of_def wf_fru_def)
  let ?gs = "fru_predef f @ [(0, [])]"
  have d: "drop (sizeof_ch + sizeof_bia) mem = enc_fields ?gs @ enc_fields (fru_custom f) @ FRU_END_MARKER # z"
    using image_variable [OF i] by (simp add: z_def)
  have "list_all wf_field ?gs" using w by (simp add: FRU_END_MARKER_def tl_length_def)
  from skip_fields_enc [OF d this] w
  show "skip_fields 5 mem (sizeof_ch + sizeof_bia) = Some (custom_start f)"
    by (simp add: custom_start_def del: skip_fields.simps)
  show "drop (custom_start f) mem = enc_fields (fru_custom f) @ FRU_END_MARKER # z"
    using drop_plus [OF d] by (simp add: custom_start_def add.assoc)
qed

section \<open>Sealing an area\<close>

lemma enc_body_pad: "enc_body lenb f 0 @ replicate n 0 = enc_body lenb f n"
  by (simp add: enc_body_def)

lemma enc_body_set_length: "(enc_body l f n)[Suc 0 := l'] = enc_body l' f n"
  by (simp add: enc_body_def)

lemma round8_bounds: "n \<le> round8 n" "round8 n < n + 8" "8 dvd round8 n"
  unfolding round8_def by presburger+

lemma round8_least: "8 dvd m \<Longrightarrow> n \<le> m \<Longrightarrow> round8 n \<le> m"
  unfolding round8_def by presburger

lemma pad_and_checksum:
  assumes ch: "length ch = 8" and e: "e = 8 + length (enc_body l f 0)" and pad: "pad < length junk"
    and L: "bia_len = length (enc_body l f 0) + pad + 1"
  shows "stn (ch @ enc_body l f 0 @ junk) e (replicate pad 0) = Some (ch @ enc_body l f pad @ drop pad junk)"
    and "fru_calculate_checksum (ch @ enc_body l f pad @ drop pad junk) sizeof_ch (int bia_len - 1)
      = Some (- sum_list (enc_body l f pad))"
    and "st (ch @ enc_body l f pad @ drop pad junk) (e + pad) c
      = Some (ch @ enc_body l f pad @ c # drop (pad + 1) junk)"
proof -
  have len: "length (enc_body l f pad) = length (enc_body l f 0) + pad"
    by (simp add: length_enc_body)
  have junk: "drop pad junk = junk ! pad # drop (pad + 1) junk"
    using pad by (simp add: Cons_nth_drop_Suc)
  show "stn (ch @ enc_body l f 0 @ junk) e (replicate pad 0) = Some (ch @ enc_body l f pad @ drop pad junk)"
    using pad e ch enc_body_pad [of l f pad, symmetric] by (simp add: stn_def)
  have "sizeof_ch + nat (int bia_len - 1) \<le> length (ch @ enc_body l f pad @ drop pad junk)"
    using ch pad L len by (simp add: sizeof_ch_def)
  moreover have "nat (int bia_len - 1) = length (enc_body l f pad)" using L len by simp
  ultimately show "fru_calculate_checksum (ch @ enc_body l f pad @ drop pad junk) sizeof_ch (int bia_len - 1)
      = Some (- sum_list (enc_body l f pad))"
    using L ch by (simp add: fru_calculate_checksum_cases sizeof_ch_def del: append_assoc)
  show "st (ch @ enc_body l f pad @ drop pad junk) (e + pad) c
      = Some (ch @ enc_body l f pad @ c # drop (pad + 1) junk)"
    using st_at [of "ch @ enc_body l f pad" "junk ! pad" "drop (pad + 1) junk" c] ch e len junk
    by (simp add: add.assoc)
qed

lemma seal_bia_enc:
  assumes ch: "length ch = 8" and mem: "mem = ch @ enc_body l0 f 0 @ junk"
    and e: "e = 8 + length (enc_body l0 f 0)" and pad: "pad < length junk"
    and L: "bia_len = length (enc_body l0 f 0) + pad + 1"
  shows "seal_bia mem e bia_len pad = Some (ch @ enc_bia (of_nat (bia_len div 8)) f pad @ drop (pad + 1) junk)"
proof -
  let ?l = "of_nat (bia_len div 8) :: byte"
  have len: "length (enc_body ?l f 0) = length (enc_body l0 f 0)" by (simp add: length_enc_body)
  note 1 = pad_and_checksum(1) [OF ch e pad L]
  have 2: "st (ch @ enc_body l0 f pad @ drop pad junk) (sizeof_ch + 1) ?l
      = Some (ch @ enc_body ?l f pad @ drop pad junk)"
    using ch by (simp add: st_def sizeof_ch_def list_update_append enc_body_set_length length_enc_body)
  note 3 = pad_and_checksum(2,3) [OF ch _ pad, of e ?l f bia_len]
  show ?thesis using 1 2 3 e L len by (simp add: seal_bia_def enc_bia_def mem)
qed

section \<open>Removal\<close>

lemma memcpy_down:
  "memcpy_within True (A @ E1 @ E2 @ Z) (length A) (length A + length E1) (length E2)
     = Some (A @ E2 @ drop (length E2) (E1 @ E2 @ Z))"
  by (simp add: memcpy_within_def ldn_def stn_def)

lemma memcpy_within_length: "memcpy_within asc mem d s n = Some mem' \<Longrightarrow> length mem' = length mem"
  by (auto simp: memcpy_within_def bind_eq_Some_conv dest: stn_length split: if_splits)

definition remove_at :: "nat \<Rightarrow> 'a list \<Rightarrow> 'a list" where
  "remove_at i xs = take i xs @ drop (Suc i) xs"

lemma remove_at_simps [simp]:
  "remove_at i [] = []" "remove_at 0 (x # xs) = xs" "remove_at (Suc i) (x # xs) = x # remove_at i xs"
  by (simp_all add: remove_at_def)

text \<open>The image whose padding is the least that makes the length a multiple of eight.\<close>

definition least_pad :: "fru \<Rightarrow> nat" where
  "least_pad f = round8 (length (enc_body 0 f 0) + 1) - (length (enc_body 0 f 0) + 1)"

lemma length_enc_body_lenb: "length (enc_body l f n) = length (enc_body 0 f 0) + n"
  by (simp add: length_enc_body)

lemma least_pad_length: "length (enc_bia l f (least_pad f)) = round8 (length (enc_body 0 f 0) + 1)"
  unfolding length_enc_bia length_enc_body_lenb [of l f "least_pad f"]
  using round8_bounds(1) [of "length (enc_body 0 f 0) + 1"] by (simp add: least_pad_def)

definition image_len :: "fru \<Rightarrow> nat" where
  "image_len f = round8 (length (enc_body 0 f 0) + 1)"

lemma unat_image_len: "image_len f \<le> 2040 \<Longrightarrow> 8 * unat (of_nat (image_len f div 8) :: byte) = image_len f"
  using round8_bounds(3) [of "length (enc_body 0 f 0) + 1"]
  by (simp add: image_len_def unat_of_nat) 

lemma sealed_image:
  assumes "wf_header ch" "wf_fru f" "image_len f \<le> 2040"
  shows "image_of (ch @ enc_bia (of_nat (image_len f div 8)) f (least_pad f) @ rest) ch
    (of_nat (image_len f div 8)) f (least_pad f) rest"
  using assms unat_image_len [OF assms(3)] least_pad_length
  by (simp add: image_of_def image_len_def)

definition enc_front :: "byte \<Rightarrow> fru \<Rightarrow> byte list" where
  "enc_front l f = [0x01, l, 0x00] @ fru_date f @ enc_fields (fru_predef f) @ [0x00]"

lemma enc_body_front:
  "enc_body l f n = enc_front l f @ enc_fields (fru_custom f) @ FRU_END_MARKER # replicate n 0"
  by (simp add: enc_body_def enc_front_def)

lemma enc_front_custom [simp]: "enc_front l (f\<lparr>fru_custom := cs\<rparr>) = enc_front l f"
  by (simp add: enc_front_def)

lemma length_enc_front: "wf_fru f \<Longrightarrow> 8 + length (enc_front l f) = custom_start f"
  by (simp add: enc_front_def custom_start_def wf_fru_def sizeof_ch_def sizeof_bia_def)

lemma wf_fru_custom: "wf_fru f \<Longrightarrow> list_all wf_field cs \<Longrightarrow> wf_fru (f\<lparr>fru_custom := cs\<rparr>)"
  by (simp add: wf_fru_def)

lemma rm_image_enc:
  assumes i: "image_of mem ch lenb f pad rest" and c: "fru_custom f = xs @ g # ys"
  defines "f' \<equiv> f\<lparr>fru_custom := xs @ ys\<rparr>"
  shows "\<exists>rest'. rm_image True mem (int (length xs)) =
      Some (Inr (ch @ enc_bia (of_nat (image_len f' div 8)) f' (least_pad f') @ rest', image_len f' + 8)) \<and>
    length mem = 8 + image_len f' + length rest' \<and> image_len f' \<le> 2040"
proof -
  have w: "wf_fru f" "wf_header ch" "length ch = 8" "8 * unat lenb = length (enc_bia lenb f pad)"
    using i by (auto simp: image_of_def wf_header_def)
  have wc: "list_all wf_field (xs @ g # ys)" using w(1) c by (simp add: wf_fru_def)
  let ?ck = "- sum_list (enc_body lenb f pad)"
  let ?Z = "replicate pad 0 @ ?ck # rest"
  let ?A = "ch @ enc_front lenb f @ enc_fields xs" and ?E2 = "enc_fields ys @ [FRU_END_MARKER]"
  have mem: "mem = ?A @ enc_fields [g] @ ?E2 @ ?Z"
    using i by (simp add: image_of_def enc_bia_def enc_body_front c)
  have A: "length ?A = custom_start f + length (enc_fields xs)"
    using length_enc_front [OF w(1)] w(3) by simp
  note walk = image_walk [OF i]
  have g: "goto_custom mem (custom_start f) (int (length xs)) = Some (length ?A, 0)"
    using goto_custom_enc [OF walk(2)] wc A by (simp add: c)
  have da: "drop (length ?A) mem = enc_fields (g # ys) @ FRU_END_MARKER # ?Z"
    unfolding mem by simp
  have t: "ld mem (length ?A) = Some (fst g)" "fst g \<noteq> FRU_END_MARKER"
    "fru_tl_get_length mem (length ?A) = Some (length (snd g))"
    using da next_field_enc [OF da] wc by (auto simp: wf_field_def intro: ld_drop_eq)
  have e: "find_end mem (length ?A) = Some (length ?A + length (enc_fields [g]) + length ?E2)"
    using find_end_enc [OF da] wc by simp
  define junk where "junk = drop (length ?E2) (enc_fields [g] @ ?E2 @ ?Z)"
  have cp: "memcpy_within True mem (length ?A) (length ?A + length (enc_fields [g])) (length ?E2)
      = Some (ch @ enc_body lenb f' 0 @ junk)"
    unfolding mem by (subst memcpy_down) (simp add: enc_body_front f'_def junk_def)
  have B: "length ?A + length ?E2 = 8 + length (enc_body lenb f' 0)"
    using w(3) by (simp add: enc_body_front f'_def)
  have B0: "length (enc_body lenb f' 0) = length (enc_body 0 f' 0)" by (simp add: length_enc_body)
  have old: "8 * unat lenb = length (enc_body 0 f' 0) + 1 + length (enc_fields [g]) + pad"
    using w(4) by (simp add: enc_body_front f'_def c)  (simp add: enc_front_def)
  have il: "image_len f' \<le> 8 * unat lenb"
    unfolding image_len_def using old round8_least [OF dvd_triv_left [of 8 "unat lenb"]] by simp
  moreover have "unat lenb \<le> 255" by (rule unat_byte_le)
  ultimately have max: "image_len f' \<le> 2040" by simp
  have lp: "least_pad f' < length junk"
    using il old by (simp add: junk_def least_pad_def image_len_def)
  have L: "image_len f' = length (enc_body lenb f' 0) + least_pad f' + 1"
    using round8_bounds(1) [of "length (enc_body 0 f' 0) + 1"] B0
    by (simp add: image_len_def least_pad_def)
  have s: "seal_bia (ch @ enc_body lenb f' 0 @ junk) (8 + length (enc_body lenb f' 0)) (image_len f') (least_pad f')
    = Some (ch @ enc_bia (of_nat (image_len f' div 8)) f' (least_pad f') @ drop (least_pad f' + 1) junk)"
    by (rule seal_bia_enc [OF w(3) refl refl lp L])
  define a n2 k where "a = length ?A" and "n2 = length ?E2" and "k = length (enc_body lenb f' 0)"
  have k: "8 + k - sizeof_ch + 1 = k + 1" "round8 (k + 1) = image_len f'" "image_len f' - (k + 1) = least_pad f'"
    using B0 L by (simp_all add: sizeof_ch_def image_len_def k_def)
  have e': "find_end mem a = Some (a + (length (snd g) + 1) + n2)"
    and cp': "memcpy_within True mem a (a + (length (snd g) + 1)) n2 = Some (ch @ enc_body lenb f' 0 @ junk)"
    using e cp by (simp_all add: a_def n2_def)
  have x: "a + (length (snd g) + 1) + n2 - a - (length (snd g) + 1) = n2"
    "a + (length (snd g) + 1) + n2 - (length (snd g) + 1) = 8 + k"
    using B by (auto simp: a_def n2_def k_def)
  have "rm_image True mem (int (length xs)) = Some (Inr (ch @ enc_bia (of_nat (image_len f' div 8)) f' (least_pad f')
      @ drop (least_pad f' + 1) junk, image_len f' + 8))"
    unfolding rm_image_def image_not_old [OF i] image_validates [OF i] bind.bind_lunit walk(1) Let_def
      g [folded a_def] t [folded a_def] split if_False if_True not_True_eq_False simp_thms
      e' x cp' k s [folded k_def] 
    using t(2) by (simp add: sizeof_ch_def)
  moreover have "length mem = 8 + image_len f' + length (drop (least_pad f' + 1) junk)"
    using lp L w(3) memcpy_within_length [OF cp] by simp
  ultimately show ?thesis using max by blast
qed

lemma rm_image_bad_index:
  assumes i: "image_of mem ch lenb f pad rest" and "index < 0 \<or> int (length (fru_custom f)) \<le> index"
  shows "rm_image asc mem index = Some (Inl IVFRU_RET_INVALID_ARGUMENT)"
proof -
  note walk = image_walk [OF i]
  have "list_all wf_field (fru_custom f)" using i by (simp add: image_of_def wf_fru_def)
  note g = goto_custom_enc [OF walk(2) this, of index]
  let ?z = "FRU_END_MARKER # replicate pad 0 @ - sum_list (enc_body lenb f pad) # rest"
  have "ld mem (custom_start f + length (enc_fields (fru_custom f))) = Some FRU_END_MARKER"
    using drop_plus [OF walk(2)] by (rule ld_drop_eq)
  then show ?thesis
    using image_not_old [OF i] image_validates [OF i] walk(1) g assms(2)
    by (auto simp: rm_image_def nat_le_iff)
qed

lemma rm_image_step:
  fixes index :: int
  assumes i: "image_of mem ch lenb f pad rest" and k: "0 \<le> index" "nat index < length (fru_custom f)"
  defines "f' \<equiv> f\<lparr>fru_custom := remove_at (nat index) (fru_custom f)\<rparr>"
  shows "\<exists>mem' lenb' rest'. rm_image True mem index = Some (Inr (mem', 8 + image_len f')) \<and>
      image_of mem' ch lenb' f' (least_pad f') rest' \<and> length mem' = length mem"
proof -
  let ?k = "nat index"
  have c: "fru_custom f = take ?k (fru_custom f) @ fru_custom f ! ?k # drop (Suc ?k) (fru_custom f)"
    using k by (simp add: id_take_nth_drop)
  from rm_image_enc [OF i c] obtain rest' where
    r: "rm_image True mem index = Some (Inr (ch @ enc_bia (of_nat (image_len f' div 8)) f' (least_pad f') @ rest', 8 + image_len f'))"
    and l: "length mem = 8 + image_len f' + length rest'" "image_len f' \<le> 2040"
    using k unfolding f'_def remove_at_def by (auto simp: min_def)
  have "wf_header ch" "wf_fru f'"
    using i c by (auto simp: image_of_def f'_def remove_at_def wf_fru_def intro: wf_fru_custom
        dest: in_set_takeD in_set_dropD simp: list_all_iff)
  then have "image_of (ch @ enc_bia (of_nat (image_len f' div 8)) f' (least_pad f') @ rest') ch
    (of_nat (image_len f' div 8)) f' (least_pad f') rest'" using l(2) by (rule sealed_image)
  moreover have "length (ch @ enc_bia (of_nat (image_len f' div 8)) f' (least_pad f') @ rest') = length mem"
    using l least_pad_length \<open>wf_header ch\<close> by (simp add: image_len_def wf_header_def)
  ultimately show ?thesis using r by auto
qed

text \<open>
  \<open>ivfru_rm\<close> refines removal from a list.  On a buffer that starts with the image of a record,
  an index of an existing custom field turns it into the image of the record without that field,
  with the least padding, in a buffer of the same size, and reports the new image size; every other
  index is rejected and the buffer is left alone.
\<close>

theorem rm_image_refines_remove_at:
  fixes index :: int
  assumes i: "image_of mem ch lenb f pad rest"
  defines "f' \<equiv> f\<lparr>fru_custom := remove_at (nat index) (fru_custom f)\<rparr>"
  shows "if 0 \<le> index \<and> nat index < length (fru_custom f)
    then \<exists>mem' lenb' rest'. rm_image True mem index = Some (Inr (mem', 8 + image_len f')) \<and>
      image_of mem' ch lenb' f' (least_pad f') rest' \<and> length mem' = length mem
    else rm_image True mem index = Some (Inl IVFRU_RET_INVALID_ARGUMENT)"
proof (cases "0 \<le> index \<and> nat index < length (fru_custom f)")
  case True
  then show ?thesis using rm_image_step [OF i] by (simp add: f'_def)
next
  case False
  then have "index < 0 \<or> int (length (fru_custom f)) \<le> index" by linarith
  with False show ?thesis using rm_image_bad_index [OF i] by auto
qed

theorem rm_image_refines_remove_at_witness:
  "\<exists>mem' lenb' rest'. rm_image True sample_image 0 =
      Some (Inr (mem', 8 + image_len (sample_fru\<lparr>fru_custom := []\<rparr>))) \<and>
    image_of mem' CH_DEFAULT lenb' (sample_fru\<lparr>fru_custom := []\<rparr>)
      (least_pad (sample_fru\<lparr>fru_custom := []\<rparr>)) rest' \<and>
    rm_image True sample_image 1 = Some (Inl IVFRU_RET_INVALID_ARGUMENT)"
  using rm_image_refines_remove_at [OF sample_image_of [of "[]"], of 0]
    rm_image_refines_remove_at [OF sample_image_of [of "[]"], of 1]
  by (auto simp: sample_fru_def)

text \<open>
  Under the C standard's reading of \<open>memcpy\<close> the removal is undefined whenever the bytes after
  the removed field outnumber it, because source and destination then overlap.
\<close>

theorem rm_image_overlap_faults:
  assumes i: "image_of mem ch lenb f pad rest" and c: "fru_custom f = xs @ g # ys"
    and o: "length (snd g) < length (enc_fields ys)"
  shows "rm_image False mem (int (length xs)) = None"
proof -
  note walk = image_walk [OF i]
  have wc: "list_all wf_field (xs @ g # ys)" using i c by (simp add: image_of_def wf_fru_def)
  let ?a = "custom_start f + length (enc_fields xs)"
  let ?z = "FRU_END_MARKER # replicate pad 0 @ - sum_list (enc_body lenb f pad) # rest"
  have da: "drop ?a mem = enc_fields (g # ys) @ ?z"
    using walk(2) drop_plus [of "custom_start f" mem "enc_fields xs" "enc_fields (g # ys) @ ?z"]
    by (simp add: c)
  have t: "ld mem ?a = Some (fst g)" "fst g \<noteq> FRU_END_MARKER"
    "fru_tl_get_length mem ?a = Some (length (snd g))"
    using da next_field_enc [OF da] wc by (auto simp: wf_field_def intro: ld_drop_eq)
  have g: "goto_custom mem (custom_start f) (int (length xs)) = Some (?a, 0)"
    using goto_custom_enc [OF walk(2)] wc by (simp add: c)
  have e: "find_end mem ?a = Some (?a + length (enc_fields (g # ys)) + 1)"
    by (rule find_end_enc [OF da]) (use wc in simp)
  show ?thesis
    using image_not_old [OF i] image_validates [OF i] walk(1) g t e o
    by (simp add: rm_image_def memcpy_within_def Let_def)
qed

definition sample_fru2 :: fru where
  "sample_fru2 = sample_fru\<lparr>fru_custom := [(0xC2, [0x12, 0x34]), (0xC3, [0x12, 0x34, 0x56])]\<rparr>"

lemma sample2_image_of:
  "image_of (CH_DEFAULT @ enc_bia 4 sample_fru2 3) CH_DEFAULT 4 sample_fru2 3 []"
proof -
  have "8 * unat (4 :: byte) = length (enc_bia 4 sample_fru2 3)" by code_simp
  moreover have "wf_fru sample_fru2" by code_simp
  ultimately show ?thesis by (simp add: image_of_def wf_header_default)
qed

theorem rm_image_overlap_faults_witness:
  "rm_image False (CH_DEFAULT @ enc_bia 4 sample_fru2 3) 0 = None"
  using rm_image_overlap_faults [OF sample2_image_of, of "[]" "(0xC2, [0x12, 0x34])" "[(0xC3, [0x12, 0x34, 0x56])]"]
  by (simp add: sample_fru2_def)

section \<open>Insertion\<close>

definition insert_at :: "nat \<Rightarrow> 'a \<Rightarrow> 'a list \<Rightarrow> 'a list" where
  "insert_at i x xs = take i xs @ x # drop i xs"

text \<open>Where \<open>ivfru_add\<close> puts the field: a negative index, or one past the end, appends.\<close>

definition add_pos :: "int \<Rightarrow> nat \<Rightarrow> nat" where
  "add_pos index n = (if index < 0 then n else min (nat index) n)"

lemma make_room_enc:
  "k \<le> length Z \<Longrightarrow> \<exists>X. length X = k \<and>
   make_room (length T) (length A) k (A @ T @ Z) = Some (A @ X @ T @ drop k Z)"
proof (induction T arbitrary: Z rule: rev_induct)
  case Nil
  then show ?case by (intro exI [of _ "take k Z"]) simp
next
  case (snoc b T)
  let ?W = "(b # Z)[k := b]"
  have 1: "ld (A @ (T @ [b]) @ Z) (length A + length T) = Some b"
    using ld_at [of "A @ T" b Z] by simp
  have 2: "st (A @ (T @ [b]) @ Z) (length A + length T + k) b = Some (A @ T @ ?W)"
    using snoc.prems by (simp add: st_def list_update_append)
  have "k \<le> length ?W" using snoc.prems by (simp split: nat.split)
  from snoc.IH [OF this] obtain X where X: "length X = k"
    "make_room (length T) (length A) k (A @ T @ ?W) = Some (A @ X @ T @ drop k ?W)" by blast
  have "drop k ?W = b # drop k Z"
    using snoc.prems by (cases k) (auto simp: drop_update_swap Cons_nth_drop_Suc [symmetric])
  then show ?case using 1 2 X by (auto intro!: exI [of _ X])
qed

lemma add_commit_enc:
  assumes f: "wf_fru f" and ch: "length ch = 8" and mem: "mem = ch @ enc_body l f 0 @ junk"
    and c: "fru_custom f = xs @ ys" and room: "8 + image_len f' \<le> length mem"
    and f': "f' = f\<lparr>fru_custom := xs @ g # ys\<rparr>"
    and p: "p = \<lparr>ap_address = a, ap_end = custom_start f + length (enc_fields (fru_custom f)) + 1,
      ap_index = i, ap_field = enc_field g, ap_bia_len = image_len f', ap_pad_len = least_pad f'\<rparr>"
    and a: "(if i < 0 then custom_start f + length (enc_fields (fru_custom f)) else a)
      = custom_start f + length (enc_fields xs)"
  shows "\<exists>rest. add_commit mem p = Some
      (ch @ enc_bia (of_nat (image_len f' div 8)) f' (least_pad f') @ rest, 8 + image_len f') \<and>
    length mem = 8 + image_len f' + length rest"
proof -
  let ?A = "ch @ enc_front l f @ enc_fields xs" and ?T = "enc_fields ys @ [FRU_END_MARKER]"
  let ?k = "length (enc_field g)"
  have A: "length ?A = custom_start f + length (enc_fields xs)"
    using length_enc_front [OF f] ch by simp
  have m: "mem = ?A @ ?T @ junk" by (simp add: mem enc_body_front c)
  have b: "length (enc_body l f' 0) = length (enc_body 0 f' 0)"
    "length (enc_body l f' 0) = length (enc_body l f 0) + ?k"
    by (simp_all add: enc_body_front f' c) (simp_all add: enc_front_def enc_field_def)
  have L: "image_len f' = length (enc_body l f' 0) + least_pad f' + 1"
    using round8_bounds(1) [of "length (enc_body 0 f' 0) + 1"] b(1)
    by (simp add: image_len_def least_pad_def)
  have k: "?k + least_pad f' < length junk" using room L b(2) ch by (simp add: mem)
  then obtain X where X: "length X = ?k"
    "make_room (length ?T) (length ?A) ?k mem = Some (?A @ X @ ?T @ drop ?k junk)"
    using make_room_enc [of ?k junk ?T ?A] m by auto
  have s: "stn (?A @ X @ ?T @ drop ?k junk) (length ?A) (enc_field g)
      = Some (ch @ enc_body l f' 0 @ drop ?k junk)"
    using X(1) stn_at [of X "enc_field g" ?A "?T @ drop ?k junk"]
    by (simp add: enc_body_front f' enc_field_def)
  have e: "length ?A + length ?T = custom_start f + length (enc_fields (fru_custom f)) + 1"
    "length ?A + length ?T + ?k = 8 + length (enc_body l f' 0)"
    using A ch by (simp_all add: c enc_body_front f' enc_field_def)
  have z: "seal_bia (ch @ enc_body l f' 0 @ drop ?k junk) (8 + length (enc_body l f' 0)) (image_len f') (least_pad f')
    = Some (ch @ enc_bia (of_nat (image_len f' div 8)) f' (least_pad f') @ drop (least_pad f' + 1) (drop ?k junk))"
    by (rule seal_bia_enc [OF ch refl refl _ L]) (use k in simp)
  have at: "(if i < 0 then ap_end p - 1 else ap_address p) = length ?A"
    using a A by (auto simp: p split: if_splits)
  have en: "ap_end p = length ?A + length ?T" "ap_field p = enc_field g" "ap_index p = i"
    "ap_bia_len p = image_len f'" "ap_pad_len p = least_pad f'" using e by (simp_all add: p)
  have "add_commit mem p = Some (ch @ enc_bia (of_nat (image_len f' div 8)) f' (least_pad f') @
      drop (least_pad f' + 1) (drop ?k junk), 8 + image_len f')"
    unfolding add_commit_def Let_def en(3) at unfolding en diff_add_inverse X(2) bind.bind_lunit s e(2) z
    by (simp add: sizeof_ch_def)
  moreover have "length mem = 8 + image_len f' + length (drop (least_pad f' + 1) (drop ?k junk))"
    using k L b(2) ch by (simp add: mem)
  ultimately show ?thesis by blast
qed

definition new_field :: "byte list \<Rightarrow> field" where
  "new_field data = (push_bit 6 3 OR of_nat (length data), data)"

lemma new_field_wf:
  assumes "length data \<le> 63" "length data \<noteq> 1"
  shows "wf_field (new_field data)"
    "fru_make_tl_byte (int (length data)) IVFRU_TLB_TYPE_11 = Inr (fst (new_field data))"
proof -
  show t: "fru_make_tl_byte (int (length data)) IVFRU_TLB_TYPE_11 = Inr (fst (new_field data))"
    using assms by (simp add: fru_make_tl_byte_def new_field_def)
  show "wf_field (new_field data)"
    using fru_make_tl_byte_length [OF t] by (simp add: wf_field_def new_field_def)
qed

lemma format_field_new:
  assumes "length data \<le> 63" "length data \<noteq> 1" "length X = Suc (length data)"
  shows "fru_area_format_field (A @ X @ Z) (length A) (Some data) (int (length data)) IVFRU_TLB_TYPE_11
     = Some (Inr (A @ enc_field (new_field data) @ Z, length A + 1 + length data))"
proof -
  obtain x X' where X: "X = x # X'" "length X' = length data" using assms(3) by (cases X) auto
  show ?thesis
    using new_field_wf(2) [OF assms(1,2)] X stn_at [of X' data "A @ [fst (new_field data)]" Z]
    by (simp add: fru_area_format_field_def memcpy_src_def) (simp add: new_field_def enc_field_def)
qed

lemma add_prepare_enc:
  assumes i: "image_of mem ch lenb f pad rest"
    and d: "length data \<le> 63" "length data \<noteq> 1"
    and f': "f' = f\<lparr>fru_custom := insert_at n (new_field data) (fru_custom f)\<rparr>"
    and k: "k = min (nat index) (length (fru_custom f))"
  shows "add_prepare mem index data (int (length data)) = Some (Inr
    \<lparr>ap_address = custom_start f + length (enc_fields (take k (fru_custom f))),
     ap_end = custom_start f + length (enc_fields (fru_custom f)) + 1,
     ap_index = index - int k, ap_field = enc_field (new_field data),
     ap_bia_len = image_len f', ap_pad_len = least_pad f'\<rparr>)"
proof -
  note walk = image_walk [OF i]
  have w: "list_all wf_field (fru_custom f)" "wf_fru f" using i by (simp_all add: image_of_def wf_fru_def)
  let ?c = "fru_custom f"
  have tk: "take (nat index) ?c = take k ?c" by (simp add: k min_def)
  have g: "goto_custom mem (custom_start f) index = Some (custom_start f + length (enc_fields (take k ?c)), index - int k)"
    using goto_custom_enc [OF walk(2) w(1), of index] by (simp add: tk k [symmetric])
  let ?z = "FRU_END_MARKER # replicate pad 0 @ - sum_list (enc_body lenb f pad) # rest"
  have "drop (custom_start f + length (enc_fields (take k ?c))) mem = enc_fields (drop k ?c) @ ?z"
    using walk(2) drop_plus [of "custom_start f" mem "enc_fields (take k ?c)" "enc_fields (drop k ?c) @ ?z"]
    by (metis append_assoc append_take_drop_id enc_fields_simps(3))
  moreover have "list_all wf_field (drop k ?c)"
    using w(1) by (auto simp: list_all_iff dest: in_set_dropD)
  ultimately have e: "find_end mem (custom_start f + length (enc_fields (take k ?c)))
      = Some (custom_start f + length (enc_fields ?c) + 1)"
    using find_end_enc arg_cong [OF enc_fields_simps(3) [of "take k ?c" "drop k ?c"], of length]
    by (simp add: add.assoc)
  have ff: "fru_area_format_field (replicate (nat (int (length data) + 1)) 0) 0 (Some data) (int (length data)) IVFRU_TLB_TYPE_11
      = Some (Inr (enc_field (new_field data), 1 + length data))"
    using format_field_new [OF d, of "replicate (Suc (length data)) 0" "[]" "[]"] by (simp add: nat_add_distrib)
  have b: "length (enc_body 0 f' 0) + 1
      = custom_start f + length (enc_fields ?c) + 1 - sizeof_ch + length (enc_field (new_field data)) + 1"
    using length_enc_front [OF w(2), of 0] arg_cong [OF enc_fields_simps(3) [of "take n ?c" "drop n ?c"], of length]
    by (simp add: f' enc_body_front insert_at_def sizeof_ch_def enc_field_def)
  show ?thesis
    using image_not_old [OF i] image_validates [OF i] walk(1) g e ff b [symmetric]
    by (simp add: add_prepare_def Let_def image_len_def least_pad_def)
qed

lemma add_image_step:
  fixes index :: int
  assumes i: "image_of mem ch lenb f pad rest"
    and d: "length data \<le> 63" "length data \<noteq> 1"
    and f': "f' = f\<lparr>fru_custom := insert_at (add_pos index (length (fru_custom f))) (new_field data) (fru_custom f)\<rparr>"
    and m2: "mem2 = take (8 + length (enc_body lenb f 0)) mem @ junk" "8 + image_len f' \<le> length mem2"
    and L: "image_len f' \<le> 2040"
  shows "\<exists>p mem' lenb' rest'. add_prepare mem index data (int (length data)) = Some (Inr p) \<and>
    ap_bia_len p = image_len f' \<and> add_commit mem2 p = Some (mem', 8 + image_len f') \<and>
    image_of mem' ch lenb' f' (least_pad f') rest' \<and> length mem' = length mem2"
proof -
  let ?c = "fru_custom f" and ?n = "add_pos index (length (fru_custom f))"
  let ?k = "min (nat index) (length ?c)"
  have w: "wf_fru f" "wf_header ch" "length ch = 8"
    using i by (auto simp: image_of_def wf_header_def)
  note pr = add_prepare_enc [OF i d f' refl]
  have mem2: "mem2 = ch @ enc_body lenb f 0 @ junk"
    using i m2(1) w(3) by (simp add: image_of_def enc_bia_def enc_body_pad [of lenb f pad, symmetric])
  have c: "?c = take ?n ?c @ drop ?n ?c" by simp
  have a: "(if index - int ?k < 0 then custom_start f + length (enc_fields ?c)
      else custom_start f + length (enc_fields (take ?k ?c))) = custom_start f + length (enc_fields (take ?n ?c))"
    by (auto simp: add_pos_def min_def)
  from add_commit_enc [OF w(1,3) mem2 c m2(2) f' [unfolded insert_at_def] refl a]
  obtain rest' where r: "add_commit mem2
    \<lparr>ap_address = custom_start f + length (enc_fields (take ?k ?c)),
     ap_end = custom_start f + length (enc_fields ?c) + 1, ap_index = index - int ?k,
     ap_field = enc_field (new_field data), ap_bia_len = image_len f', ap_pad_len = least_pad f'\<rparr>
    = Some (ch @ enc_bia (of_nat (image_len f' div 8)) f' (least_pad f') @ rest', 8 + image_len f')"
    "length mem2 = 8 + image_len f' + length rest'" by blast
  have "wf_fru f'"
    using w(1) new_field_wf(1) [OF d] unfolding f'
    by (intro wf_fru_custom) (auto simp: insert_at_def wf_fru_def list_all_iff dest: in_set_takeD in_set_dropD)
  from sealed_image [OF w(2) this L, of rest'] pr r show ?thesis
    using least_pad_length [of "of_nat (image_len f' div 8)" f'] w(3)
    by (intro exI conjI) (assumption | simp add: image_len_def)+
qed

text \<open>
  \<open>ivfru_add\<close> refines insertion into a list.  On a buffer that starts with the image of a
  record and for data of a legal length, the first half computes a plan without touching the
  buffer; run on any buffer that kept the used bytes and has room for the new image, the second
  half leaves the image of the record with the new field inserted (appended for a negative or too
  large index) and reports its size.  The new area must fit the length byte.
\<close>

theorem add_image_refines_insert_at:
  fixes index :: int
  assumes i: "image_of mem ch lenb f pad rest"
    and d: "length data \<le> 63" "length data \<noteq> 1"
    and f': "f' = f\<lparr>fru_custom := insert_at (add_pos index (length (fru_custom f))) (new_field data) (fru_custom f)\<rparr>"
    and m2: "mem2 = take (8 + length (enc_body lenb f 0)) mem @ junk" "8 + image_len f' \<le> length mem2"
    and L: "image_len f' \<le> 2040"
  shows "\<exists>p mem' lenb' rest'. add_prepare mem index data (int (length data)) = Some (Inr p) \<and>
    ap_bia_len p = image_len f' \<and> add_commit mem2 p = Some (mem', 8 + image_len f') \<and>
    image_of mem' ch lenb' f' (least_pad f') rest' \<and> length mem' = length mem2"
  by (rule add_image_step [OF assms])

theorem add_image_refines_insert_at_witness:
  "\<exists>p mem' lenb' rest'. add_prepare sample_image 0 [0xAA, 0xBB] 2 = Some (Inr p) \<and>
    add_commit (take (8 + length (enc_body 4 sample_fru 0)) sample_image @ replicate 8 0) p = Some (mem', 8 + 32) \<and>
    image_of mem' CH_DEFAULT lenb' (sample_fru\<lparr>fru_custom := [(0xC2, [0xAA, 0xBB]), (0xC2, [0x12, 0x34])]\<rparr>)
      4 rest'"
proof -
  let ?f = "sample_fru\<lparr>fru_custom := [(0xC2, [0xAA, 0xBB]), (0xC2, [0x12, 0x34])]\<rparr>"
  have 1: "insert_at (add_pos 0 (length (fru_custom sample_fru))) (new_field [0xAA, 0xBB]) (fru_custom sample_fru)
      = [(0xC2, [0xAA, 0xBB]), (0xC2, [0x12, 0x34])]" by code_simp
  have 2: "image_len ?f = 32" "least_pad ?f = 4" by code_simp+
  have 3: "length (enc_body 4 sample_fru 0) = 24" by code_simp
  have 4: "length sample_image = 40" by code_simp
  show ?thesis
    using add_image_refines_insert_at [OF sample_image_of [of "[]"], of "[0xAA, 0xBB]" ?f 0
        "take (8 + length (enc_body 4 sample_fru 0)) sample_image @ replicate 8 0" "replicate 8 0"]
    by (auto simp: 1 2 3 4)
qed

section \<open>Conversion of the old format\<close>

lemma fix_header: "fru_is_old_format (CH_OLD @ X) = Some True"
  "st (CH_OLD @ X) 3 0x01 = Some ([0x01, 0, 0, 0x01, 0, 0, 0, 0xF7] @ X)"
  "fru_calculate_checksum ([0x01, 0, 0, 0x01, 0, 0, 0, 0xF7] @ X) 0 7 = Some 0xFE"
  "st ([0x01, 0, 0, 0x01, 0, 0, 0, 0xF7] @ X) 7 0xFE = Some (CH_DEFAULT @ X)"
  by (simp_all add: fru_is_old_format_def ldn_def sizeof_ch_def CH_OLD_def CH_DEFAULT_def st_def
      fru_calculate_checksum_cases)

lemma enc_body_cons: "enc_body l f pad = 0x01 # l # 0x00 # drop 3 (enc_body l f pad)"
  by (simp add: enc_body_def)

lemma fix_image_step:
  assumes w: "wf_fru f" and mem: "mem = CH_OLD @ enc_bia lenb f pad @ rest"
    and L: "unat lenb = length (enc_bia lenb f pad)" and d: "8 dvd unat lenb"
  shows "\<exists>mem'. fix_image mem = Some (Inr (mem', 8 + unat lenb)) \<and>
    image_of mem' CH_DEFAULT (lenb div 8) f pad rest"
proof -
  let ?l = "lenb div 8" and ?ck = "- sum_list (enc_body lenb f pad)"
  let ?m = "\<lambda>l c. CH_DEFAULT @ enc_body l f pad @ c # rest"
  have len: "length (enc_body ?l f pad) = length (enc_body lenb f pad)" "length CH_DEFAULT = 8"
    by (simp_all add: length_enc_body CH_DEFAULT_def)
  have 1: "ld (?m lenb ?ck) 9 = Some lenb"
    by (subst enc_body_cons) (simp add: CH_DEFAULT_def ld_def)
  have 2: "st (?m lenb ?ck) 9 ?l = Some (?m ?l ?ck)"
    using len(2) by (simp add: st_def list_update_append enc_body_set_length length_enc_body)
  have 3: "fru_calculate_checksum (?m ?l ?ck) 8 (int (unat lenb) - 1) = Some (- sum_list (enc_body ?l f pad))"
    using L len by (simp add: fru_calculate_checksum_cases)
  have 4: "st (?m ?l ?ck) (8 + unat lenb - 1) c = Some (?m ?l c)" for c
    using st_at [of "CH_DEFAULT @ enc_body ?l f pad" ?ck rest c] L len by simp
  have "fix_image mem = Some (Inr (CH_DEFAULT @ enc_bia ?l f pad @ rest, 8 + unat lenb))"
    using 1 2 3 4 fix_header by (simp add: fix_image_def mem enc_bia_def sizeof_ch_def Let_def)
  moreover have "8 * unat ?l = unat lenb" using d by (simp add: unat_div)
  ultimately show ?thesis
    using L len w wf_header_default by (auto simp: image_of_def)
qed

text \<open>
  C9: \<open>ivfru_fix\<close> turns a valid old-format image, whose length byte counts bytes, into a valid
  new-format image of the same record, whose length byte counts units of eight, and reports its
  size.  The old length must be a multiple of eight.
\<close>

theorem fix_image_converts:
  assumes w: "wf_fru f" and mem: "mem = CH_OLD @ enc_bia lenb f pad @ rest"
    and L: "unat lenb = length (enc_bia lenb f pad)" and d: "8 dvd unat lenb"
  shows "\<exists>mem'. fix_image mem = Some (Inr (mem', 8 + unat lenb)) \<and>
    image_of mem' CH_DEFAULT (lenb div 8) f pad rest"
  by (rule fix_image_step [OF assms])

theorem fix_image_converts_witness:
  "\<exists>mem'. fix_image (CH_OLD @ enc_bia 32 sample_fru 7 @ [0xFF]) = Some (Inr (mem', 8 + 32)) \<and>
    image_of mem' CH_DEFAULT 4 sample_fru 7 [0xFF]"
proof -
  have "unat (32 :: byte) = length (enc_bia 32 sample_fru 7)" "wf_fru sample_fru" "(32 :: byte) div 8 = 4"
    by code_simp+
  then show ?thesis
    using fix_image_converts [of sample_fru "CH_OLD @ enc_bia 32 sample_fru 7 @ [0xFF]" 32 7 "[0xFF]"] by simp
qed

section \<open>Creation\<close>

text \<open>The field the creation commands write: the string padded with spaces to its length.\<close>

definition padded_field :: "byte list \<Rightarrow> nat \<Rightarrow> field" where
  "padded_field s m = new_field (s @ replicate (m - length s) 0x20)"

definition settled :: "byte list \<Rightarrow> int \<Rightarrow> nat" where
  "settled s len = (if len < 0 then length s else nat len)"

definition legal_field :: "byte list \<Rightarrow> int \<Rightarrow> bool" where
  "legal_field s len \<longleftrightarrow> length s \<le> settled s len \<and> 2 \<le> settled s len \<and> settled s len \<le> 63"

lemma enc_padded: "length s \<le> m \<Longrightarrow> length (enc_field (padded_field s m)) = m + 1"
  by (simp add: enc_field_def padded_field_def new_field_def)

lemma xcreate_field_padded:
  assumes "length s \<le> m" "2 \<le> m" "m \<le> 63" "m < length Z"
  shows "xcreate_field (A @ Z) (length A) (Some s, IVFRU_TLB_TYPE_11, int m) =
    Some (Inr (A @ enc_field (padded_field s m) @ drop (m + 1) Z, length A + 1 + m))"
proof -
  let ?d = "s @ replicate (m - length s) 0x20"
  have f: "stn (replicate m 0x20) 0 s = Some ?d" using assms(1) by (simp add: stn_def)
  have "A @ Z = A @ take (m + 1) Z @ drop (m + 1) Z" by simp
  then show ?thesis
    using f assms format_field_new [of ?d "take (m + 1) Z" A "drop (m + 1) Z"]
    by (simp add: xcreate_field_def padded_field_def min_def)
qed

lemma xcreate_loop_padded:
  assumes "legal_field s len" "settled s len < length Z"
  shows "xcreate_loop (A @ Z) (length A) ((Some s, IVFRU_TLB_TYPE_11, int (settled s len)) # fs) =
    xcreate_loop ((A @ enc_field (padded_field s (settled s len))) @ drop (settled s len + 1) Z)
      (length (A @ enc_field (padded_field s (settled s len)))) fs"
  using assms xcreate_field_padded [of s "settled s len" Z A]
  by (simp add: legal_field_def enc_padded del: xcreate_loop.simps(1)) 

lemma xcreate_loop_tail:
  "xcreate_loop (A @ x # y # Z) (length A) [(Some [], IVFRU_TLB_TYPE_UNSPECIFIED, 0), (None, IVFRU_TLB_TYPE_11, 0)]
     = Some (IVFRU_RET_SUCCESS, A @ 0x00 # FRU_END_MARKER # Z, length A + 2)"
proof -
  have "xcreate_field (A @ x # y # Z) (length A) (Some [], IVFRU_TLB_TYPE_UNSPECIFIED, 0)
      = Some (Inr (A @ 0x00 # y # Z, length A + 1))"
    by (simp add: xcreate_field_def fru_area_format_field_def fru_make_tl_byte_def memcpy_src_def stn_def)
  moreover have "xcreate_field (A @ 0x00 # y # Z) (length A + 1) (None, IVFRU_TLB_TYPE_11, 0)
      = Some (Inr (A @ 0x00 # FRU_END_MARKER # Z, length A + 2))"
    using st_at [of "A @ [0x00]" y Z FRU_END_MARKER]
    by (simp add: xcreate_field_def fru_area_format_field_def fru_make_tl_byte_def)
  ultimately show ?thesis by simp
qed

lemma header_writes:
  assumes "length X = 14"
  shows "stn (X @ Z) 0 CH_DEFAULT = Some (CH_DEFAULT @ drop 8 X @ Z)"
    "st (CH_DEFAULT @ drop 8 X @ Z) 8 0x01 = Some (CH_DEFAULT @ 0x01 # drop 9 X @ Z)"
    "st (CH_DEFAULT @ 0x01 # drop 9 X @ Z) 9 l = Some (CH_DEFAULT @ 0x01 # l # drop 10 X @ Z)"
    "st (CH_DEFAULT @ 0x01 # l # drop 10 X @ Z) 10 0x00 = Some (CH_DEFAULT @ 0x01 # l # 0x00 # drop 11 X @ Z)"
    "stn (CH_DEFAULT @ 0x01 # l # 0x00 # drop 11 X @ Z) 11 [t0, t1, t2]
       = Some (CH_DEFAULT @ [0x01, l, 0x00, t0, t1, t2] @ Z)"
proof -
  have d: "drop 8 X = X ! 8 # drop 9 X" "drop 9 X = X ! 9 # drop 10 X" "drop 10 X = X ! 10 # drop 11 X"
    using assms by (simp_all add: Cons_nth_drop_Suc [symmetric])
  have l: "length CH_DEFAULT = 8" by (simp add: CH_DEFAULT_def)
  show "stn (X @ Z) 0 CH_DEFAULT = Some (CH_DEFAULT @ drop 8 X @ Z)"
    using assms by (simp add: stn_def l)
  show "st (CH_DEFAULT @ drop 8 X @ Z) 8 0x01 = Some (CH_DEFAULT @ 0x01 # drop 9 X @ Z)"
    unfolding d(1) using st_at [of CH_DEFAULT "X ! 8"] by (simp add: l)
  show "st (CH_DEFAULT @ 0x01 # drop 9 X @ Z) 9 l = Some (CH_DEFAULT @ 0x01 # l # drop 10 X @ Z)"
    unfolding d(2) using st_at [of "CH_DEFAULT @ [1]" "X ! 9"] by (simp add: l)
  show "st (CH_DEFAULT @ 0x01 # l # drop 10 X @ Z) 10 0x00 = Some (CH_DEFAULT @ 0x01 # l # 0x00 # drop 11 X @ Z)"
    unfolding d(3) using st_at [of "CH_DEFAULT @ [1, l]" "X ! 10"] by (simp add: l)
  show "stn (CH_DEFAULT @ 0x01 # l # 0x00 # drop 11 X @ Z) 11 [t0, t1, t2]
       = Some (CH_DEFAULT @ [0x01, l, 0x00, t0, t1, t2] @ Z)"
    using stn_at [of "drop 11 X" "[t0, t1, t2]" "CH_DEFAULT @ [1, l, 0]" Z] assms by (simp add: l)
qed

definition settled_specs :: "(byte list \<times> int) list \<Rightarrow> field_spec list" where
  "settled_specs ss = map (\<lambda>(s, len). (Some s, IVFRU_TLB_TYPE_11, int (settled s len))) ss @
     [(Some [], IVFRU_TLB_TYPE_UNSPECIFIED, 0), (None, IVFRU_TLB_TYPE_11, 0)]"

definition created_fru :: "byte list \<Rightarrow> (byte list \<times> int) list \<Rightarrow> fru" where
  "created_fru date ss = \<lparr>fru_date = date,
     fru_predef = map (\<lambda>(s, len). padded_field s (settled s len)) ss, fru_custom = []\<rparr>"

lemma settle_lengths_legal:
  assumes "list_all (\<lambda>(s, len). legal_field s len) [(mfr, ml), (product, pl), (sn, sl), (pn, nl)]"
  shows "settle_lengths (xcreate_fields product pl sn sl pn nl mfr ml) =
    Some (settled_specs [(mfr, ml), (product, pl), (sn, sl), (pn, nl)])"
  using assms by (simp add: xcreate_fields_def settled_specs_def legal_field_def settled_def not_less nat_le_iff le_nat_iff split: if_splits)

lemma enc_fields_padded:
  "list_all (\<lambda>(s, len). legal_field s len) ss \<Longrightarrow>
   length (enc_fields (map (\<lambda>(s, len). padded_field s (settled s len)) ss)) = (\<Sum>(s, len)\<leftarrow>ss. settled s len + 1)"
  by (induction ss) (auto simp: padded_field_def new_field_def legal_field_def)

lemma total_size_loop_settled:
  "list_all (\<lambda>(s, len). legal_field s len) ss \<Longrightarrow> 0 \<le> acc \<Longrightarrow> acc + 64 * int (length ss) + 2 < 2 ^ 31 \<Longrightarrow>
   total_size_loop (settled_specs ss) acc = Some (acc + int (\<Sum>(s, len)\<leftarrow>ss. settled s len + 1) + 2)"
proof (induction ss arbitrary: acc)
  case Nil
  then show ?case by (simp add: settled_specs_def int32_def)
next
  case (Cons x ss)
  obtain s len where x: "x = (s, len)" by (cases x)
  have "settled s len \<le> 63" using Cons.prems(1) by (simp add: x legal_field_def)
  then show ?case
    using Cons.prems Cons.IH [of "acc + (1 + int (settled s len))"]
    by (simp add: settled_specs_def x int32_def algebra_simps)
qed

lemma padded_sum_bound:
  "list_all (\<lambda>(s, len). legal_field s len) ss \<Longrightarrow> (\<Sum>(s, len)\<leftarrow>ss. settled s len + 1) \<le> 64 * length ss"
  by (induction ss) (auto simp: legal_field_def)

lemma int_round8: "((8 + int b + 7) div 8) * 8 = 8 + int (round8 b)"
proof -
  have "int (round8 b) = ((int b + 7) div 8) * 8" by (simp add: round8_def zdiv_int)
  moreover have "(8 + int b + 7) div 8 = (int b + 7) div 8 + 1"
    using div_add_self1 [of 8 "int b + 7"] by (simp add: algebra_simps)
  ultimately show ?thesis by simp
qed

lemma xcreate_sizes_settled:
  assumes "list_all (\<lambda>(s, len). legal_field s len) ss" "length ss = 4" "length date = 3"
  defines "f \<equiv> created_fru date ss"
  shows "xcreate_sizes (settled_specs ss) = Some (int (8 + image_len f), int (least_pad f))"
    and "image_len f \<le> 2040"
proof -
  let ?n = "\<Sum>(s, len)\<leftarrow>ss. settled s len + 1"
  let ?b = "length (enc_body 0 f 0) + 1"
  have b: "?b = 9 + ?n"
    using assms(3) enc_fields_padded [OF assms(1)] by (simp add: length_enc_body f_def created_fru_def)
  have n: "?n \<le> 256" using padded_sum_bound [OF assms(1)] assms(2) by simp
  show "image_len f \<le> 2040" unfolding image_len_def b using round8_bounds(2) [of "9 + ?n"] n by linarith
  have t: "total_size_loop (settled_specs ss) 14 = Some (int ?n + 16)"
    using total_size_loop_settled [OF assms(1), of 14] assms(2) by simp
  have r: "((24 + int ?n) div 8) * 8 = 8 + int (round8 ?b)"
    using int_round8 [of "9 + ?n"] unfolding b by (simp add: algebra_simps)
  have p: "8 + int (round8 ?b) - (17 + int ?n) = int (least_pad f)"
    using round8_bounds(1) [of ?b] b by (simp add: least_pad_def)
  show "xcreate_sizes (settled_specs ss) = Some (int (8 + image_len f), int (least_pad f))"
    using t n r p by (simp add: xcreate_sizes_def sizeof_ch_def sizeof_bia_def int32_def image_len_def Let_def)
qed

lemma xcreate_loop_settled:
  "list_all (\<lambda>(s, len). legal_field s len) ss \<Longrightarrow> (\<Sum>(s, len)\<leftarrow>ss. settled s len + 1) + 2 \<le> length Z \<Longrightarrow>
   xcreate_loop (A @ Z) (length A) (settled_specs ss) = Some (IVFRU_RET_SUCCESS,
     A @ enc_fields (map (\<lambda>(s, len). padded_field s (settled s len)) ss) @ 0x00 # FRU_END_MARKER #
       drop ((\<Sum>(s, len)\<leftarrow>ss. settled s len + 1) + 2) Z,
     length A + (\<Sum>(s, len)\<leftarrow>ss. settled s len + 1) + 2)"
proof (induction ss arbitrary: A Z)
  case Nil
  then obtain x y Z' where "Z = x # y # Z'"
    by (auto simp: numeral_2_eq_2 Suc_le_length_iff)
  then show ?case using xcreate_loop_tail [of A x y Z'] by (simp add: settled_specs_def)
next
  case (Cons p ss)
  obtain s len where p: "p = (s, len)" by (cases p)
  let ?e = "enc_field (padded_field s (settled s len))"
  have l: "legal_field s len" using Cons.prems(1) by (simp add: p)
  then have le: "length ?e = settled s len + 1" by (simp add: enc_padded legal_field_def)
  have "xcreate_loop (A @ Z) (length A) (settled_specs (p # ss)) =
      xcreate_loop ((A @ ?e) @ drop (settled s len + 1) Z) (length (A @ ?e)) (settled_specs ss)"
    using xcreate_loop_padded [OF l, of Z A "settled_specs ss"] Cons.prems(2)
    by (simp add: settled_specs_def p)
  also have "\<dots> = Some (IVFRU_RET_SUCCESS,
     (A @ ?e) @ enc_fields (map (\<lambda>(s, len). padded_field s (settled s len)) ss) @ 0x00 # FRU_END_MARKER #
       drop ((\<Sum>(s, len)\<leftarrow>ss. settled s len + 1) + 2) (drop (settled s len + 1) Z),
     length (A @ ?e) + (\<Sum>(s, len)\<leftarrow>ss. settled s len + 1) + 2)"
    by (rule Cons.IH) (use Cons.prems in \<open>simp_all add: p\<close>)
  finally show ?case
    using le by (simp add: p enc_field_def add.commute add.left_commute)
qed

lemma created_wf:
  assumes "list_all (\<lambda>(s, len). legal_field s len) ss" "length ss = 4" "length date = 3"
  shows "wf_fru (created_fru date ss)"
proof -
  have "wf_field (padded_field s (settled s len))" if "legal_field s len" for s len
    using that by (auto simp: padded_field_def legal_field_def intro!: new_field_wf)
  then show ?thesis using assms by (auto simp: wf_fru_def created_fru_def list_all_iff)
qed

lemma xcreate_image_enc:
  assumes ok: "list_all (\<lambda>(s, len). legal_field s len) ss" "length ss = 4"
    and t: "date_to_ipmi_time day month year = Some (Inr (t0, t1, t2))"
    and f: "f = created_fru [t0, t1, t2] ss" and room: "8 + image_len f \<le> length mem"
  shows "xcreate_image mem (day, month, year) (settled_specs ss) (int (8 + image_len f)) (int (least_pad f)) =
    Some (IVFRU_RET_SUCCESS, CH_DEFAULT @ enc_bia (of_nat (image_len f div 8)) f (least_pad f) @ drop (8 + image_len f) mem)"
proof -
  let ?n = "\<Sum>(s, len)\<leftarrow>ss. settled s len + 1" and ?l = "of_nat (image_len f div 8) :: byte"
  define X Z where "X = take 14 mem" and "Z = drop 14 mem"
  let ?A = "CH_DEFAULT @ [0x01, ?l, 0x00, t0, t1, t2]"
  let ?junk = "drop (?n + 2) Z"
  have lA: "length ?A = 14" "length CH_DEFAULT = 8" by (simp_all add: CH_DEFAULT_def)
  have B: "length (enc_body ?l f 0) = 8 + ?n" "length (enc_body 0 f 0) = 8 + ?n"
    using enc_fields_padded [OF ok(1)] by (simp_all add: length_enc_body f created_fru_def)
  have L: "image_len f = length (enc_body ?l f 0) + least_pad f + 1"
    using round8_bounds(1) [of "length (enc_body 0 f 0) + 1"] B by (simp add: image_len_def least_pad_def)
  have room': "14 + ?n + 2 + least_pad f + 1 \<le> length mem + 1" "14 + ?n + 3 + least_pad f \<le> length mem"
    using room L B by simp_all
  have X: "length X = 14" "mem = X @ Z" using room' by (simp_all add: X_def Z_def)
  have Z: "?n + 2 \<le> length Z" "least_pad f < length ?junk" using room' by (simp_all add: Z_def)
  note h = header_writes(1,2) [OF X(1), where Z = Z] header_writes(3,4) [OF X(1), where Z = Z and l = ?l]
    header_writes(5) [OF X(1), where Z = Z and l = ?l and ?t0.0 = t0 and ?t1.0 = t1 and ?t2.0 = t2]
  have loop: "xcreate_loop (?A @ Z) 14 (settled_specs ss) =
      Some (IVFRU_RET_SUCCESS, CH_DEFAULT @ enc_body ?l f 0 @ ?junk, 8 + length (enc_body ?l f 0))"
    using xcreate_loop_settled [OF ok(1) Z(1), of ?A] lA B
    by (simp add: enc_body_def f created_fru_def)
  note fin = pad_and_checksum [OF lA(2) refl Z(2) L]
  have lb: "int (8 + image_len f) - int sizeof_ch = int (image_len f)"
    "of_int (int (image_len f) div 8) = ?l"
    using zdiv_int [of "image_len f" 8, symmetric] by (simp_all add: sizeof_ch_def)
  have j: "drop (least_pad f + 1) ?junk = drop (8 + image_len f) mem"
    using L B by (simp add: Z_def add.commute add.left_commute)
  show ?thesis
    unfolding xcreate_image_def Let_def split lb t X(2)
    using h loop fin j X(2) by (simp add: sizeof_ch_def sizeof_bia_def enc_bia_def)
qed

lemma xcreate_step:
  assumes ok: "list_all (\<lambda>(s, len). legal_field s len) [(mfr, ml), (product, pl), (sn, sl), (pn, nl)]"
    and t: "date_to_ipmi_time day month year = Some (Inr (t0, t1, t2))"
    and f: "f = created_fru [t0, t1, t2] [(mfr, ml), (product, pl), (sn, sl), (pn, nl)]"
    and room: "8 + image_len f \<le> length mem"
  shows "\<exists>fs mem' lenb. settle_lengths (xcreate_fields product pl sn sl pn nl mfr ml) = Some fs \<and>
    xcreate_sizes fs = Some (int (8 + image_len f), int (least_pad f)) \<and>
    xcreate_image mem (day, month, year) fs (int (8 + image_len f)) (int (least_pad f)) =
      Some (IVFRU_RET_SUCCESS, mem') \<and>
    image_of mem' CH_DEFAULT lenb f (least_pad f) (drop (8 + image_len f) mem)"
proof -
  let ?ss = "[(mfr, ml), (product, pl), (sn, sl), (pn, nl)]"
  have l: "length ?ss = 4" "length [t0, t1, t2] = 3" by simp_all
  note sz = xcreate_sizes_settled [OF ok l, folded f]
  have "wf_fru f" unfolding f by (rule created_wf [OF ok l])
  from sealed_image [OF wf_header_default this sz(2)] show ?thesis
    using settle_lengths_legal [OF ok] sz(1) xcreate_image_enc [OF ok l(1) t f room] by blast
qed

text \<open>
  \<open>ivfru_xcreate\<close> builds the image of the record made of its arguments.  For four strings that
  fit their requested lengths, all between 2 and 63 (a negative length standing for the length of
  the string), and a date that the IPMI format can express, the length computation reserves exactly
  the size of the image and the fill writes a valid image with the strings padded with spaces,
  whatever the buffer held before.
\<close>

theorem xcreate_builds_image:
  assumes ok: "list_all (\<lambda>(s, len). legal_field s len) [(mfr, ml), (product, pl), (sn, sl), (pn, nl)]"
    and t: "date_to_ipmi_time day month year = Some (Inr (t0, t1, t2))"
    and f: "f = created_fru [t0, t1, t2] [(mfr, ml), (product, pl), (sn, sl), (pn, nl)]"
    and room: "8 + image_len f \<le> length mem"
  shows "\<exists>fs mem' lenb. settle_lengths (xcreate_fields product pl sn sl pn nl mfr ml) = Some fs \<and>
    xcreate_sizes fs = Some (int (8 + image_len f), int (least_pad f)) \<and>
    xcreate_image mem (day, month, year) fs (int (8 + image_len f)) (int (least_pad f)) =
      Some (IVFRU_RET_SUCCESS, mem') \<and>
    image_of mem' CH_DEFAULT lenb f (least_pad f) (drop (8 + image_len f) mem)"
  by (rule xcreate_step [OF assms])

theorem xcreate_builds_image_witness:
  "\<exists>fs mem' lenb. settle_lengths (xcreate_fields [0x41, 0x42] 16 [0x30, 0x31] (- 1) [0x50, 0x4E] 15 [0x69, 0x56] 10) = Some fs \<and>
    xcreate_image (replicate 80 0xFF) (15, 6, 2021) fs 64 0 = Some (IVFRU_RET_SUCCESS, mem') \<and>
    image_of mem' CH_DEFAULT lenb
      (created_fru [0xA0, 0x47, 0xCC] [([0x69, 0x56], 10), ([0x41, 0x42], 16), ([0x30, 0x31], - 1), ([0x50, 0x4E], 15)])
      0 (replicate 16 0xFF)"
proof -
  let ?ss = "[([0x69, 0x56], 10), ([0x41, 0x42], 16), ([0x30, 0x31], - 1), ([0x50, 0x4E], 15)]"
  let ?f = "created_fru [0xA0, 0x47, 0xCC] ?ss"
  have 1: "date_to_ipmi_time 15 6 2021 = Some (Inr (0xA0, 0x47, 0xCC))" by code_simp
  have 2: "image_len ?f = 56" "least_pad ?f = 0" by code_simp+
  have 3: "list_all (\<lambda>(s, len). legal_field s len) ?ss" by (simp add: legal_field_def settled_def)
  show ?thesis
    using xcreate_builds_image [OF 3 1 refl, of "replicate 80 0xFF"] unfolding 2 by auto
qed

lemma settle_lengths_too_long:
  "(Some s, t, len) \<in> set fs \<Longrightarrow> 0 \<le> len \<Longrightarrow> len < int (length s) \<Longrightarrow> settle_lengths fs = None"
  by (induction fs rule: settle_lengths.induct) auto

text \<open>
  A field of length zero cannot be created.  Where the length of a named field is zero the loop
  calls the formatter with the field type (3) as the length, which copies three bytes out of the
  one-byte empty string: the access is out of bounds for every buffer and every address.
\<close>

theorem xcreate_empty_field_faults:
  "xcreate_loop mem address ((Some [], IVFRU_TLB_TYPE_11, 0) # fs) = None"
  by (cases "st mem address (push_bit 6 0 OR 3)")
     (simp_all add: xcreate_field_def fru_area_format_field_def fru_make_tl_byte_def memcpy_src_def)

end
