(* ===== verification/Fru_Plat.thy ===== *)
theory Fru_Plat
  imports Fru_Codec
begin

text \<open>
  The platform interface of the FRU tool (\<open>ivfru_plat.h\<close>) as a record of operations over a
  platform state, the contract the commands rely on as the locale \<open>fru_platform\<close>, and the Linux
  implementation (\<open>recipes-bsp/ivfru/files/ivfru_plat.c\<close>): the heap block with its allocator, the
  files, the device-tree lookups, the EEPROM and flash accesses and the write-protect pin.
  Theory Fru_Uboot holds the U-Boot implementation.

  The C library, the kernel and the programs the code runs (\<open>eeprog\<close>, \<open>flashcp\<close>) are parameters,
  collected in the record \<open>lx_env\<close>.
\<close>

section \<open>The interface\<close>

text \<open>
  \<open>plat_get_buffer\<close> yields the identity of the block and its bytes; \<open>plat_store\<close> is a store through
  the buffer pointer.  \<open>plat_read_from_board\<close> yields the bytes delivered, which the caller finds at
  the pointer it passed.  \<open>None\<close> is undefined behaviour, or a call that does not return.
\<close>

record ('l, 's) plat =
  plat_read_from_location :: "'l \<Rightarrow> 's \<Rightarrow> (ivfru_ret \<times> 's) option"
  plat_write_to_location :: "'l \<Rightarrow> 's \<Rightarrow> (ivfru_ret \<times> 's) option"
  plat_read_from_board :: "ivfru_board \<Rightarrow> int \<Rightarrow> int \<Rightarrow> 's \<Rightarrow> (ivfru_ret \<times> byte list) option"
  plat_write_to_board :: "ivfru_board \<Rightarrow> byte list \<Rightarrow> 's \<Rightarrow> (ivfru_ret \<times> 's) option"
  plat_get_buffer :: "'s \<Rightarrow> (nat \<times> byte list) option"
  plat_store :: "byte list \<Rightarrow> 's \<Rightarrow> 's"
  plat_reserve_memory :: "int \<Rightarrow> 's \<Rightarrow> (ivfru_ret \<times> 's) option"
  plat_set_image_size :: "int \<Rightarrow> 's \<Rightarrow> ivfru_ret \<times> 's"
  plat_memcpy_ascending :: bool

text \<open>
  What the commands rely on, in two steps.  \<open>fru_buffer\<close> is the memory side: the buffer keeps what
  is stored through its pointer, and recording the image size does not disturb it.
  \<open>fru_platform\<close> adds what a platform in working order does for a location \<open>l\<close> (\<open>good l s\<close>: no I/O
  error, memory available in place): reading a location that starts with \<open>xs\<close> (\<open>holds\<close>) brings
  these bytes into the buffer, reserving keeps them, and writing leaves the image in the location
  (\<open>stored\<close>).  What the board storage yields depends on the devices \<open>dev s\<close> only, which stores and
  reservations leave alone.  No image is longer than 2048 bytes.
\<close>

locale fru_buffer =
  fixes P :: "('l, 's) plat"
    and sized :: "'s \<Rightarrow> nat \<Rightarrow> bool"
  assumes get_store: "plat_get_buffer P s = Some (b, m) \<Longrightarrow> length m' = length m \<Longrightarrow>
      plat_get_buffer P (plat_store P m' s) = Some (b, m')"
    and set_size: "fst (plat_set_image_size P n s) = IVFRU_RET_SUCCESS"
    and set_size_buffer: "plat_get_buffer P (snd (plat_set_image_size P n s)) = plat_get_buffer P s"
    and set_size_sized: "0 \<le> n \<Longrightarrow> sized (snd (plat_set_image_size P n s)) (nat n)"

locale fru_platform = fru_buffer +
  fixes good :: "'a \<Rightarrow> 'b \<Rightarrow> bool"
    and holds :: "'a \<Rightarrow> 'b \<Rightarrow> byte list \<Rightarrow> bool"
    and stored :: "'a \<Rightarrow> 'b \<Rightarrow> byte list \<Rightarrow> bool"
    and dev :: "'b \<Rightarrow> 'd"
  assumes good_store: "good l (plat_store P m s) = good l s"
    and good_size: "good l (snd (plat_set_image_size P n s)) = good l s"
    and dev_store: "dev (plat_store P m s) = dev s"
    and dev_reserve: "plat_reserve_memory P n s = Some (r, s') \<Longrightarrow> dev s' = dev s"
    and dev_read: "dev s = dev s' \<Longrightarrow>
      plat_read_from_board P board off n s = plat_read_from_board P board off n s'"
    and stored_holds: "stored l s xs \<Longrightarrow> holds l s xs"
    and read_ok: "good l s \<Longrightarrow> holds l s xs \<Longrightarrow> 0 < length xs \<Longrightarrow>
      \<exists>s' b rest. plat_read_from_location P l s = Some (IVFRU_RET_SUCCESS, s') \<and> good l s' \<and>
        plat_get_buffer P s' = Some (b, xs @ rest)"
    and reserve_ok: "good l s \<Longrightarrow> 0 < n \<Longrightarrow> n \<le> 2048 \<Longrightarrow>
      \<exists>s' b m. plat_reserve_memory P n s = Some (IVFRU_RET_SUCCESS, s') \<and> good l s' \<and>
        plat_get_buffer P s' = Some (b, m) \<and> nat n \<le> length m"
    and reserve_keeps: "good l s \<Longrightarrow> 0 < n \<Longrightarrow> n \<le> 2048 \<Longrightarrow> plat_get_buffer P s = Some (b, xs @ rest) \<Longrightarrow>
      length xs \<le> nat n \<Longrightarrow>
      \<exists>s' rest'. plat_reserve_memory P n s = Some (IVFRU_RET_SUCCESS, s') \<and> good l s' \<and>
        plat_get_buffer P s' = Some (b, xs @ rest') \<and> nat n \<le> length (xs @ rest')"
    and write_ok: "good l s \<Longrightarrow> plat_get_buffer P s = Some (b, xs @ rest) \<Longrightarrow> sized s (length xs) \<Longrightarrow>
      length xs \<le> 2048 \<Longrightarrow>
      \<exists>s'. plat_write_to_location P l s = Some (IVFRU_RET_SUCCESS, s') \<and> good l s' \<and> stored l s' xs"

section \<open>Linux: state and environment\<close>

datatype gpio_cmd = Gpio_Export int | Gpio_Direction_Out int | Gpio_Value int int | Gpio_Unexport int

record lx =
  image_buffer :: "byte list option"
  image_block :: nat
  buffer_size :: int
  image_size :: int
  heap_calls :: nat
  files :: "string \<Rightarrow> byte list option"
  eeproms :: "int \<Rightarrow> int \<Rightarrow> byte list"
  gpio_cmds :: "gpio_cmd list"

record lx_env =
  lx_alloc :: "nat \<Rightarrow> int \<Rightarrow> bool"
  lx_moves :: "nat \<Rightarrow> bool"
  lx_fresh :: "nat \<Rightarrow> nat \<Rightarrow> byte"
  lx_access :: "string \<Rightarrow> bool"
  lx_open :: "string \<Rightarrow> bool"
  lx_create :: "string \<Rightarrow> bool"
  lx_fread_ok :: "string \<Rightarrow> bool"
  lx_fwrite_max :: "string \<Rightarrow> nat"
  lx_dir :: "string \<Rightarrow> (string \<times> string) list option"
  lx_link :: "string \<Rightarrow> byte list option"
  lx_popen :: bool
  lx_pipe_max :: nat
  lx_eeprog_r :: "byte list \<Rightarrow> int \<Rightarrow> int \<Rightarrow> byte list"
  lx_eeprog_w :: "byte list \<Rightarrow> int \<Rightarrow> byte list \<Rightarrow> byte list"
  lx_flashcp :: "byte list \<Rightarrow> byte list \<Rightarrow> bool \<times> byte list"
  lx_memcpy_ascending :: bool

section \<open>Linux: the image buffer\<close>

definition ivfru_plat_set_buffer :: "byte list option \<Rightarrow> lx \<Rightarrow> ivfru_ret \<times> lx" where
  "ivfru_plat_set_buffer buffer s = (IVFRU_RET_SUCCESS, s\<lparr>image_buffer := buffer\<rparr>)"

definition ivfru_plat_get_buffer :: "lx \<Rightarrow> (nat \<times> byte list) option" where
  "ivfru_plat_get_buffer s =
     (if buffer_size s = 0 then None else map_option (Pair (image_block s)) (image_buffer s))"

text \<open>\<open>malloc\<close> and \<open>realloc\<close>: a negative size is a huge \<open>size_t\<close> and fails; a block that moves gets
  a new identity; the bytes beyond the old size are arbitrary.  \<open>realloc\<close> to size zero frees the
  block and leaves the pointer dangling.\<close>

definition ivfru_plat_reserve_memory :: "lx_env \<Rightarrow> int \<Rightarrow> lx \<Rightarrow> (ivfru_ret \<times> lx) option" where
  "ivfru_plat_reserve_memory E n s =
     (let k = heap_calls s; s1 = s\<lparr>heap_calls := k + 1\<rparr>; fresh = map (lx_fresh E k) [0..<nat n]
      in case image_buffer s of
           None \<Rightarrow>
             if n < 0 \<or> \<not> lx_alloc E k n then Some (IVFRU_RET_MEM_ERROR, s1)
             else Some (IVFRU_RET_SUCCESS,
                    s1\<lparr>image_buffer := Some fresh, image_block := k + 1, buffer_size := n\<rparr>)
         | Some old \<Rightarrow>
             if n = 0 then None
             else if n < 0 \<or> \<not> lx_alloc E k n then Some (IVFRU_RET_MEM_ERROR, s1)
             else Some (IVFRU_RET_SUCCESS,
                    s1\<lparr>image_buffer := Some (take (nat n) old @ drop (length old) fresh),
                       image_block := (if lx_moves E k then k + 1 else image_block s), buffer_size := n\<rparr>))"

definition ivfru_plat_set_image_size :: "int \<Rightarrow> lx \<Rightarrow> ivfru_ret \<times> lx" where
  "ivfru_plat_set_image_size n s = (IVFRU_RET_SUCCESS, s\<lparr>image_size := n\<rparr>)"

definition ivfru_plat_get_image_size :: "lx \<Rightarrow> int" where
  "ivfru_plat_get_image_size s = image_size s"

definition lx_store :: "byte list \<Rightarrow> lx \<Rightarrow> lx" where
  "lx_store m s = s\<lparr>image_buffer := map_option (\<lambda>_. m) (image_buffer s)\<rparr>"

section \<open>Linux: locations are files\<close>

text \<open>The file size is a \<open>long\<close> that \<open>ivfru_plat_reserve_memory\<close> takes as an \<open>int\<close>; the read uses
  the \<open>long\<close>.  Of an item of \<open>size\<close> bytes, \<open>fread\<close> reads the whole file or reports failure.\<close>

definition ivfru_plat_read_from_location :: "lx_env \<Rightarrow> string \<Rightarrow> lx \<Rightarrow> (ivfru_ret \<times> lx) option" where
  "ivfru_plat_read_from_location E path s =
     (case (if lx_open E path then files s path else None) of
        None \<Rightarrow> Some (IVFRU_RET_IO_ERROR, s)
      | Some content \<Rightarrow> do {
          (ret, s) \<leftarrow> ivfru_plat_reserve_memory E (sint (of_nat (length content) :: u32)) s;
          if ret \<noteq> IVFRU_RET_SUCCESS then Some (IVFRU_RET_MEM_ERROR, s)
          else case ivfru_plat_get_buffer s of
            None \<Rightarrow> Some (IVFRU_RET_MEM_ERROR, s)
          | Some (_, mem) \<Rightarrow>
              if \<not> lx_fread_ok E path then Some (IVFRU_RET_IO_ERROR, s)
              else do { mem \<leftarrow> stn mem 0 content; Some (IVFRU_RET_SUCCESS, lx_store mem s) } })"

text \<open>Opening for writing truncates the file.  \<open>fwrite\<close> accepts what the device has room for.\<close>

definition ivfru_plat_write_to_location :: "lx_env \<Rightarrow> string \<Rightarrow> lx \<Rightarrow> (ivfru_ret \<times> lx) option" where
  "ivfru_plat_write_to_location E path s =
     (if \<not> lx_create E path then Some (IVFRU_RET_IO_ERROR, s)
      else let s = s\<lparr>files := (files s)(path := Some [])\<rparr> in
        case ivfru_plat_get_buffer s of
          None \<Rightarrow> Some (IVFRU_RET_MEM_ERROR, s)
        | Some (_, mem) \<Rightarrow>
            let n = ivfru_plat_get_image_size s in
            if n < 0 then None
            else do {
              xs \<leftarrow> ldn mem 0 (nat n);
              let done = take (lx_fwrite_max E path) xs;
              let s = s\<lparr>files := (files s)(path := Some done)\<rparr>;
              Some (if length done = length xs then IVFRU_RET_SUCCESS else IVFRU_RET_IO_ERROR, s) })"

section \<open>Linux: the device tree\<close>

definition IPMI_DT_PATH :: string where "IPMI_DT_PATH = ''/proc/device-tree/iv_ipmi/''"
definition BOARD_PREFIX :: string where "BOARD_PREFIX = ''iv_''"
definition ZYNQMP_GPIO_OFNODE :: string where "ZYNQMP_GPIO_OFNODE = ''/axi/gpio@ff0a0000''"
definition MAX_QSPI_PART_LABEL_LEN :: nat where "MAX_QSPI_PART_LABEL_LEN = 100"
definition MAX_MTD_FILE_PATH :: nat where "MAX_MTD_FILE_PATH = 256"

fun board_string :: "ivfru_board \<Rightarrow> string option" where
  "board_string IVFRU_BOARD_MB = Some ''mb''"
| "board_string IVFRU_BOARD_IO = Some ''io''"
| "board_string IVFRU_BOARD_BP = Some ''bp''"
| "board_string MAX_IVFRU_BOARD = None"

lemma board_string_cstr: "ivfru_board2str b = map_option cstr (board_string b)"
  by (cases b) (simp_all add: ivfru_board_str_def)

text \<open>A string built with \<open>strcpy\<close> and \<open>strcat\<close> in an array of \<open>cap\<close> bytes, terminator included.\<close>

definition str_in :: "nat \<Rightarrow> string \<Rightarrow> string option" where
  "str_in cap s = (if length s < cap then Some s else None)"

text \<open>Big-endian words.  \<open>cells n c\<close> is what \<open>n\<close> consecutive \<open>read\<close> calls of four bytes and
  \<open>ntohl\<close> make of a file with content \<open>c\<close>, if they got all their bytes.\<close>

definition be32 :: "byte list \<Rightarrow> u32" where
  "be32 bs = foldl (\<lambda>w b. push_bit 8 w OR ucast b) 0 bs"

definition cells :: "nat \<Rightarrow> byte list \<Rightarrow> u32 list option" where
  "cells n c = (if 4 * n \<le> length c then Some (map (\<lambda>i. be32 (take 4 (drop (4 * i) c))) [0..<n]) else None)"

text \<open>\<open>access\<close> and \<open>open\<close> of a file that holds \<open>n\<close> cells.\<close>

definition dt_cells :: "lx_env \<Rightarrow> lx \<Rightarrow> string \<Rightarrow> nat \<Rightarrow> ivfru_ret + u32 list" where
  "dt_cells E s path n =
     (case files s path of
        None \<Rightarrow> Inl IVFRU_RET_INVALID_DEVICE_TREE
      | Some c \<Rightarrow>
          if \<not> lx_access E path then Inl IVFRU_RET_INVALID_DEVICE_TREE
          else if \<not> lx_open E path then Inl IVFRU_RET_IO_ERROR
          else case cells n c of None \<Rightarrow> Inl IVFRU_RET_IO_ERROR | Some ws \<Rightarrow> Inr ws)"

definition get_i2c_info_from_dt :: "lx_env \<Rightarrow> lx \<Rightarrow> ivfru_board \<Rightarrow> (ivfru_ret + u32 \<times> u32 \<times> u32) option" where
  "get_i2c_info_from_dt E s board =
     (case board_string board of
        None \<Rightarrow> Some (Inl IVFRU_RET_INVALID_ARGUMENT)
      | Some board_str \<Rightarrow> do {
          let path_len = length IPMI_DT_PATH + length BOARD_PREFIX + length board_str + 1 + 4 + 1;
          path \<leftarrow> str_in path_len (IPMI_DT_PATH @ BOARD_PREFIX @ board_str @ ''/i2c'');
          Some (case dt_cells E s path 3 of
                  Inl e \<Rightarrow> Inl e
                | Inr ws \<Rightarrow> Inr (ws ! 0, ws ! 1, ws ! 2)) })"

text \<open>A directory entry is its name and, for a name shorter than eight characters, the string
  that happens to lie at offset eight of the \<open>d_name\<close> array.  \<open>strtoul\<close> is applied there and must
  consume all of it.\<close>

type_synonym dirent = "string \<times> string"

definition d_name8 :: "dirent \<Rightarrow> string" where
  "d_name8 d = (if 8 \<le> length (fst d) then drop 8 (fst d) else snd d)"

definition entry_base :: "dirent \<Rightarrow> int option" where
  "entry_base d = (case strtoul 10 (d_name8 d) of Some (v, []) \<Rightarrow> Some (to_int32 v) | _ \<Rightarrow> None)"

fun first_base :: "dirent list \<Rightarrow> int" where
  "first_base [] = - 1"
| "first_base (d # ds) = (case entry_base d of None \<Rightarrow> first_base ds | Some v \<Rightarrow> v)"

text \<open>The write-protect pin.  The path arrays are sized by the expression at the top of the
  function; \<open>cap\<close> is that size.\<close>

definition wp_path_len :: "string \<Rightarrow> nat" where
  "wp_path_len board_str =
     length IPMI_DT_PATH + length BOARD_PREFIX + length board_str + 1 + 2 + 1 + 8 + 1"

definition gpiochip_match :: "lx_env \<Rightarrow> string \<Rightarrow> bool option" where
  "gpiochip_match E d_name =
     (if take 8 d_name \<noteq> ''gpiochip'' then Some False
      else case lx_link E (take 98 (''/sys/class/gpio/'' @ d_name @ ''/device/of_node'')) of
             None \<Rightarrow> Some False
           | Some ofpath \<Rightarrow>
               if ofpath = [] then Some False
               else if 1000 \<le> length ofpath \<or> length ofpath < length ZYNQMP_GPIO_OFNODE then None
               else Some (drop (length ofpath - length ZYNQMP_GPIO_OFNODE) ofpath = cstr ZYNQMP_GPIO_OFNODE))"

fun gpio_base :: "lx_env \<Rightarrow> dirent list \<Rightarrow> int option" where
  "gpio_base E [] = Some (- 1)"
| "gpio_base E (d # ds) = do {
     ok \<leftarrow> gpiochip_match E (fst d);
     (case entry_base d of
        Some v \<Rightarrow> if ok then Some v else gpio_base E ds
      | None \<Rightarrow> gpio_base E ds) }"

definition i2c_gpio_dir :: "u32 \<Rightarrow> u32 \<Rightarrow> string" where
  "i2c_gpio_dir bus addr =
     take 98 (''/sys/bus/i2c/devices/'' @ show_int (sint bus) @ ''-00'' @ show_hex2 addr @ ''/gpio/'')"

definition get_wp_info :: "lx_env \<Rightarrow> lx \<Rightarrow> (string \<Rightarrow> nat) \<Rightarrow> ivfru_board
    \<Rightarrow> (ivfru_ret + u32 \<times> u32) option" where
  "get_wp_info E s cap board =
     (case board_string board of
        None \<Rightarrow> Some (Inl IVFRU_RET_INVALID_ARGUMENT)
      | Some board_str \<Rightarrow> do {
          let prefix = IPMI_DT_PATH @ BOARD_PREFIX @ board_str @ ''/wp/'';
          path_gpio \<leftarrow> str_in (cap board_str) (prefix @ ''/gpio'');
          path_i2c_gpio \<leftarrow> str_in (cap board_str) (prefix @ ''/i2c_gpio'');
          case dt_cells E s path_i2c_gpio 4 of
            Inr ws \<Rightarrow>
              (case lx_dir E (i2c_gpio_dir (ws ! 0) (ws ! 1)) of
                 None \<Rightarrow> Some (Inl IVFRU_RET_IO_ERROR)
               | Some ds \<Rightarrow>
                   if first_base ds = - 1 then Some (Inl IVFRU_RET_INVALID_DEVICE_TREE)
                   else Some (Inr (ws ! 2 + of_int (first_base ds), ws ! 3)))
          | Inl e0 \<Rightarrow> if e0 \<noteq> IVFRU_RET_INVALID_DEVICE_TREE then Some (Inl e0) else
              (case dt_cells E s path_gpio 2 of
                 Inl e \<Rightarrow> Some (Inl e)
               | Inr ws \<Rightarrow>
                   (case lx_dir E ''/sys/class/gpio/'' of
                      None \<Rightarrow> Some (Inl IVFRU_RET_IO_ERROR)
                    | Some ds \<Rightarrow> do {
                        base \<leftarrow> gpio_base E ds;
                        if base = - 1 then Some (Inl IVFRU_RET_INVALID_DEVICE_TREE)
                        else Some (Inr (ws ! 0 + of_int base, ws ! 1)) })) })"

definition get_wp_info_from_dt :: "lx_env \<Rightarrow> lx \<Rightarrow> ivfru_board \<Rightarrow> (ivfru_ret + u32 \<times> u32) option" where
  "get_wp_info_from_dt E s board = get_wp_info E s wp_path_len board"

text \<open>The partition label is the file up to its first NUL; the offset is optional.\<close>

definition c_string :: "byte list \<Rightarrow> byte list" where
  "c_string bs = takeWhile (\<lambda>b. b \<noteq> 0) bs"

definition get_qspi_info_from_dt :: "lx_env \<Rightarrow> lx \<Rightarrow> ivfru_board \<Rightarrow> (ivfru_ret + byte list \<times> u32) option" where
  "get_qspi_info_from_dt E s board =
     (case board_string board of
        None \<Rightarrow> Some (Inl IVFRU_RET_INVALID_ARGUMENT)
      | Some board_str \<Rightarrow> do {
          let path_len = length IPMI_DT_PATH + length BOARD_PREFIX + length board_str + 1 + 11 + 1;
          let base = IPMI_DT_PATH @ BOARD_PREFIX @ board_str @ ''/qspi'';
          path \<leftarrow> str_in path_len base;
          (case files s path of
             None \<Rightarrow> Some (Inl IVFRU_RET_INVALID_DEVICE_TREE)
           | Some c \<Rightarrow>
               if \<not> lx_access E path then Some (Inl IVFRU_RET_INVALID_DEVICE_TREE)
               else if \<not> lx_open E path then Some (Inl IVFRU_RET_IO_ERROR)
               else if MAX_QSPI_PART_LABEL_LEN < length c then Some (Inl IVFRU_RET_INVALID_DEVICE_TREE)
               else do {
                 path \<leftarrow> str_in path_len (base @ ''_offset'');
                 Some (case dt_cells E s path 1 of
                         Inl e \<Rightarrow> if e = IVFRU_RET_INVALID_DEVICE_TREE then Inr (c_string c, 0) else Inl e
                       | Inr ws \<Rightarrow> Inr (c_string c, ws ! 0)) }) })"

text \<open>\<open>fgets\<close> of the name file, cut at the first CR or LF.\<close>

definition mtd_name :: "byte list \<Rightarrow> byte list option" where
  "mtd_name c = (if c = [] then None
     else Some (takeWhile (\<lambda>b. b \<noteq> 10 \<and> b \<noteq> 13 \<and> b \<noteq> 0) (take (MAX_MTD_FILE_PATH - 1) c)))"

fun mtd_lookup :: "lx_env \<Rightarrow> lx \<Rightarrow> byte list \<Rightarrow> dirent list \<Rightarrow> (ivfru_ret + string) option" where
  "mtd_lookup E s label [] = Some (Inl IVFRU_RET_INVALID_DEVICE_TREE)"
| "mtd_lookup E s label (d # ds) =
     (let path = take (MAX_MTD_FILE_PATH - 1) (''/sys/class/mtd/'' @ fst d @ ''/name'') in
      case (if lx_open E path then files s path else None) of
        Some c \<Rightarrow>
          if mtd_name c = Some label
          then map_option Inr (str_in MAX_MTD_FILE_PATH (''/dev/'' @ fst d))
          else mtd_lookup E s label ds
      | None \<Rightarrow> mtd_lookup E s label ds)"

definition get_mtd_info_from_label :: "lx_env \<Rightarrow> lx \<Rightarrow> byte list \<Rightarrow> (ivfru_ret + string) option" where
  "get_mtd_info_from_label E s label =
     (case lx_dir E ''/sys/class/mtd/'' of
        None \<Rightarrow> Some (Inl IVFRU_RET_IO_ERROR)
      | Some ds \<Rightarrow> mtd_lookup E s label ds)"

section \<open>Linux: EEPROM and flash\<close>

text \<open>The read loop over the pipe.  \<open>fread\<close> returns the bytes that are left, and zero at the end of
  the stream, which the loop does not treat as an error: it has no value when \<open>eeprog\<close> printed too
  little.\<close>

partial_function (option) fread_loop :: "byte list \<Rightarrow> int \<Rightarrow> byte list \<Rightarrow> byte list option" where
  "fread_loop out n data =
     (if int (length data) < n
      then fread_loop (drop (nat (n - int (length data))) out) n (data @ take (nat (n - int (length data))) out)
      else Some data)"

definition ivfru_read_i2c :: "lx_env \<Rightarrow> lx \<Rightarrow> int \<Rightarrow> int \<Rightarrow> int \<Rightarrow> int \<Rightarrow> (ivfru_ret \<times> byte list) option" where
  "ivfru_read_i2c E s bus addr offset n =
     (if \<not> lx_popen E then Some (IVFRU_RET_IO_ERROR, [])
      else do { data \<leftarrow> fread_loop (lx_eeprog_r E (eeproms s bus addr) offset n) n [];
                Some (IVFRU_RET_SUCCESS, data) })"

definition ivfru_write_i2c :: "lx_env \<Rightarrow> int \<Rightarrow> int \<Rightarrow> int \<Rightarrow> byte list \<Rightarrow> lx \<Rightarrow> ivfru_ret \<times> lx" where
  "ivfru_write_i2c E bus addr offset data s =
     (if \<not> lx_popen E then (IVFRU_RET_IO_ERROR, s)
      else let acc = take (lx_pipe_max E) data;
               rom = lx_eeprog_w E (eeproms s bus addr) offset acc;
               s = s\<lparr>eeproms := (eeproms s)(bus := (eeproms s bus)(addr := rom))\<rparr>
           in (if length acc = length data then IVFRU_RET_SUCCESS else IVFRU_RET_IO_ERROR, s))"

text \<open>\<open>lseek\<close> to a negative offset fails with minus one, which the code compares with the offset.\<close>

definition ivfru_read_qspi :: "lx_env \<Rightarrow> lx \<Rightarrow> string \<Rightarrow> int \<Rightarrow> int \<Rightarrow> ivfru_ret \<times> byte list" where
  "ivfru_read_qspi E s mtd_path offset n =
     (case (if lx_open E mtd_path then files s mtd_path else None) of
        None \<Rightarrow> (IVFRU_RET_IO_ERROR, [])
      | Some flash \<Rightarrow>
          if offset < - 1 \<or> n < 0 then (IVFRU_RET_IO_ERROR, [])
          else let got = take (nat n) (drop (nat offset) flash)
               in (if int (length got) = n then IVFRU_RET_SUCCESS else IVFRU_RET_IO_ERROR, got))"

text \<open>The temporary file holds the flash content up to the offset followed by the data; \<open>flashcp\<close>
  copies it to the start of the partition.  The array for the prefix has \<open>qspi_offset\<close> bytes.\<close>

definition ivfru_write_qspi :: "lx_env \<Rightarrow> string \<Rightarrow> u32 \<Rightarrow> byte list \<Rightarrow> lx \<Rightarrow> ivfru_ret \<times> lx" where
  "ivfru_write_qspi E mtd_path qspi_offset data s =
     (let run = (\<lambda>temp.
        if lx_fwrite_max E ''/tmp/temp'' < length temp then (IVFRU_RET_IO_ERROR, s)
        else case files s mtd_path of
               None \<Rightarrow> (IVFRU_RET_IO_ERROR, s)
             | Some flash \<Rightarrow>
                 let (ok, flash) = lx_flashcp E temp flash;
                     s = s\<lparr>files := (files s)(mtd_path := Some flash)\<rparr>
                 in (if ok then IVFRU_RET_SUCCESS else IVFRU_RET_IO_ERROR, s))
      in if \<not> lx_create E ''/tmp/temp'' then (IVFRU_RET_IO_ERROR, s)
         else if 0 < qspi_offset
         then (case ivfru_read_qspi E s mtd_path 0 (sint qspi_offset) of
                 (ret, temp) \<Rightarrow> if ret \<noteq> IVFRU_RET_SUCCESS then (ret, s) else run (temp @ data))
         else run data)"

text \<open>The sums \<open>ipmi_offset + offset\<close> and \<open>qspi_offset + offset\<close> are unsigned and passed as \<open>int\<close>.\<close>

definition ivfru_plat_read_from_board ::
  "lx_env \<Rightarrow> ivfru_board \<Rightarrow> int \<Rightarrow> int \<Rightarrow> lx \<Rightarrow> (ivfru_ret \<times> byte list) option"
where
  "ivfru_plat_read_from_board E board offset n s = do {
     i2c \<leftarrow> get_i2c_info_from_dt E s board;
     (case i2c of
        Inr (bus, addr, ipmi_offset) \<Rightarrow> do {
          (ret, data) \<leftarrow> ivfru_read_i2c E s (sint bus) (sint addr) (sint (ipmi_offset + of_int offset)) n;
          Some (if ret \<noteq> IVFRU_RET_SUCCESS then IVFRU_RET_IO_ERROR else IVFRU_RET_SUCCESS, data) }
      | Inl _ \<Rightarrow> do {
          qspi \<leftarrow> get_qspi_info_from_dt E s board;
          (case qspi of
             Inl _ \<Rightarrow> Some (IVFRU_RET_INVALID_DEVICE_TREE, [])
           | Inr (label, qspi_offset) \<Rightarrow> do {
               mtd \<leftarrow> get_mtd_info_from_label E s label;
               (case mtd of
                  Inl _ \<Rightarrow> Some (IVFRU_RET_INVALID_DEVICE_TREE, [])
                | Inr mtd_path \<Rightarrow>
                    (case ivfru_read_qspi E s mtd_path (sint (qspi_offset + of_int offset)) n of
                       (ret, data) \<Rightarrow>
                         Some (if ret \<noteq> IVFRU_RET_SUCCESS then IVFRU_RET_IO_ERROR else IVFRU_RET_SUCCESS, data))) }) }) }"

definition wp_release :: "u32 \<times> u32 \<Rightarrow> lx \<Rightarrow> lx" where
  "wp_release p s = s\<lparr>gpio_cmds := gpio_cmds s @ [Gpio_Export (sint (fst p)),
     Gpio_Direction_Out (sint (fst p)), Gpio_Value (sint (fst p)) (if snd p = 0 then 1 else 0)]\<rparr>"

definition wp_protect :: "u32 \<times> u32 \<Rightarrow> lx \<Rightarrow> lx" where
  "wp_protect p s = s\<lparr>gpio_cmds := gpio_cmds s @ [Gpio_Value (sint (fst p)) (sint (snd p)),
     Gpio_Unexport (sint (fst p))]\<rparr>"

text \<open>\<open>wp\<close> is the lookup of the write-protect pin, so that the path arrays can be given a size.\<close>

definition write_to_board_wp ::
  "(lx \<Rightarrow> (ivfru_ret + u32 \<times> u32) option) \<Rightarrow> lx_env \<Rightarrow> ivfru_board \<Rightarrow> byte list \<Rightarrow> lx \<Rightarrow> (ivfru_ret \<times> lx) option"
where
  "write_to_board_wp wp E board data s = do {
     i2c \<leftarrow> get_i2c_info_from_dt E s board;
     (case i2c of
        Inr (bus, addr, ipmi_offset) \<Rightarrow> do {
          pin \<leftarrow> wp s;
          let s = (case pin of Inr p \<Rightarrow> wp_release p s | Inl _ \<Rightarrow> s);
          let (ret, s) = ivfru_write_i2c E (sint bus) (sint addr) (sint ipmi_offset) data s;
          let s = (case pin of Inr p \<Rightarrow> wp_protect p s | Inl _ \<Rightarrow> s);
          Some (if ret \<noteq> IVFRU_RET_SUCCESS then IVFRU_RET_IO_ERROR else IVFRU_RET_SUCCESS, s) }
      | Inl _ \<Rightarrow> do {
          qspi \<leftarrow> get_qspi_info_from_dt E s board;
          (case qspi of
             Inl _ \<Rightarrow> Some (IVFRU_RET_INVALID_DEVICE_TREE, s)
           | Inr (label, qspi_offset) \<Rightarrow> do {
               mtd \<leftarrow> get_mtd_info_from_label E s label;
               (case mtd of
                  Inl _ \<Rightarrow> Some (IVFRU_RET_INVALID_DEVICE_TREE, s)
                | Inr mtd_path \<Rightarrow>
                    (case ivfru_write_qspi E mtd_path qspi_offset data s of
                       (ret, s) \<Rightarrow>
                         Some (if ret \<noteq> IVFRU_RET_SUCCESS then IVFRU_RET_IO_ERROR else IVFRU_RET_SUCCESS, s))) }) }) }"

definition ivfru_plat_write_to_board :: "lx_env \<Rightarrow> ivfru_board \<Rightarrow> byte list \<Rightarrow> lx \<Rightarrow> (ivfru_ret \<times> lx) option" where
  "ivfru_plat_write_to_board E board data s =
     write_to_board_wp (\<lambda>s. get_wp_info_from_dt E s board) E board data s"

definition linux_plat :: "lx_env \<Rightarrow> (string, lx) plat" where
  "linux_plat E = \<lparr>
     plat_read_from_location = ivfru_plat_read_from_location E,
     plat_write_to_location = ivfru_plat_write_to_location E,
     plat_read_from_board = ivfru_plat_read_from_board E,
     plat_write_to_board = ivfru_plat_write_to_board E,
     plat_get_buffer = ivfru_plat_get_buffer,
     plat_store = lx_store,
     plat_reserve_memory = ivfru_plat_reserve_memory E,
     plat_set_image_size = ivfru_plat_set_image_size,
     plat_memcpy_ascending = lx_memcpy_ascending E\<rparr>"

section \<open>Linux meets the contract\<close>

definition lx_holds :: "string \<Rightarrow> lx \<Rightarrow> byte list \<Rightarrow> bool" where
  "lx_holds path s xs \<longleftrightarrow> (\<exists>rest. files s path = Some (xs @ rest))"

definition lx_stored :: "string \<Rightarrow> lx \<Rightarrow> byte list \<Rightarrow> bool" where
  "lx_stored path s xs \<longleftrightarrow> files s path = Some xs"

text \<open>The environment serves a file: it can be read and written, memory is granted in place, and
  the file is not larger than an \<open>int\<close> can say.\<close>

definition lx_good :: "lx_env \<Rightarrow> string \<Rightarrow> lx \<Rightarrow> bool" where
  "lx_good E path s \<longleftrightarrow> lx_open E path \<and> lx_fread_ok E path \<and> lx_create E path \<and>
     2048 \<le> lx_fwrite_max E path \<and> (\<forall>k n. lx_alloc E k n) \<and> (\<forall>k. \<not> lx_moves E k) \<and>
     (case files s path of None \<Rightarrow> True | Some c \<Rightarrow> length c < 2 ^ 31)"

lemma lx_reserve_ok:
  assumes "\<forall>k n. lx_alloc E k n" "0 < n"
  shows "\<exists>s' m'. ivfru_plat_reserve_memory E n s = Some (IVFRU_RET_SUCCESS, s') \<and>
    image_buffer s' = Some m' \<and> length m' = nat n \<and> buffer_size s' = n \<and> files s' = files s"
  using assms by (cases "image_buffer s") (auto simp: ivfru_plat_reserve_memory_def Let_def)

lemma lx_reserve_keeps:
  assumes "\<forall>k n. lx_alloc E k n" "\<forall>k. \<not> lx_moves E k" "0 < n"
    "image_buffer s = Some (xs @ rest)" "length xs \<le> nat n"
  shows "\<exists>s' rest'. ivfru_plat_reserve_memory E n s = Some (IVFRU_RET_SUCCESS, s') \<and>
    image_buffer s' = Some (xs @ rest') \<and> length (xs @ rest') = nat n \<and> buffer_size s' = n \<and>
    files s' = files s \<and> image_block s' = image_block s"
  using assms by (auto simp: ivfru_plat_reserve_memory_def Let_def)

lemma reserve_keeps_devices:
  "ivfru_plat_reserve_memory E n s = Some (r, s') \<Longrightarrow> files s' = files s \<and> eeproms s' = eeproms s"
  by (auto simp: ivfru_plat_reserve_memory_def Let_def split: option.splits if_splits)

lemma mtd_lookup_cong: "files s = files s' \<Longrightarrow> mtd_lookup E s label ds = mtd_lookup E s' label ds"
  by (induction ds) (simp_all add: Let_def split: option.split)

lemma lx_board_read_cong:
  assumes "files s = files s'" "eeproms s = eeproms s'"
  shows "ivfru_plat_read_from_board E board off n s = ivfru_plat_read_from_board E board off n s'"
proof -
  have 1: "dt_cells E s = dt_cells E s'" by (intro ext) (simp add: dt_cells_def assms)
  have 2: "get_i2c_info_from_dt E s = get_i2c_info_from_dt E s'"
    by (intro ext) (simp only: get_i2c_info_from_dt_def 1)
  have 3: "get_qspi_info_from_dt E s = get_qspi_info_from_dt E s'"
    by (intro ext) (simp only: get_qspi_info_from_dt_def 1 assms)
  have 4: "get_mtd_info_from_label E s = get_mtd_info_from_label E s'"
    by (intro ext) (simp only: get_mtd_info_from_label_def mtd_lookup_cong [OF assms(1)])
  have 5: "ivfru_read_i2c E s = ivfru_read_i2c E s'" "ivfru_read_qspi E s = ivfru_read_qspi E s'"
    by (intro ext, simp only: ivfru_read_i2c_def ivfru_read_qspi_def assms)+
  show ?thesis by (simp only: ivfru_plat_read_from_board_def 2 3 4 5)
qed

lemma sint_small: "n < 2 ^ 31 \<Longrightarrow> sint (of_nat n :: u32) = int n"
proof -
  assume n: "n < 2 ^ 31"
  then have "uint (of_nat n :: u32) = int n" by (simp add: unsigned_of_nat take_bit_nat_eq_self)
  then show ?thesis using n by (simp add: sint_uint signed_take_bit_int_eq_self_iff)
qed

lemma lx_read_ok:
  assumes "lx_good E l s" "files s l = Some c" "0 < length c"
  shows "\<exists>s' b. ivfru_plat_read_from_location E l s = Some (IVFRU_RET_SUCCESS, s') \<and>
    files s' = files s \<and> ivfru_plat_get_buffer s' = Some (b, c)"
proof -
  have n: "sint (of_nat (length c) :: u32) = int (length c)"
    using assms(1,2) by (intro sint_small) (simp add: lx_good_def)
  have a: "\<forall>k n. lx_alloc E k n" "\<forall>k. \<not> lx_moves E k" using assms(1) by (auto simp: lx_good_def)
  obtain s1 m where r: "ivfru_plat_reserve_memory E (int (length c)) s = Some (IVFRU_RET_SUCCESS, s1)"
    "image_buffer s1 = Some m" "length m = length c" "buffer_size s1 = int (length c)" "files s1 = files s"
    using lx_reserve_ok [OF a(1), of "int (length c)" s] assms(3) by auto
  then show ?thesis
    using assms n by (auto simp: ivfru_plat_read_from_location_def lx_good_def ivfru_plat_get_buffer_def
        stn_def lx_store_def)
qed

interpretation lx: fru_platform "linux_plat E" "\<lambda>s n. image_size s = int n" "lx_good E" lx_holds lx_stored
  "\<lambda>s. (files s, eeproms s)" for E
proof
  fix s s' :: lx and board off n
  assume "(files s, eeproms s) = (files s', eeproms s')"
  then show "plat_read_from_board (linux_plat E) board off n s = plat_read_from_board (linux_plat E) board off n s'"
    using lx_board_read_cong [of s s' E board off n] by (simp add: linux_plat_def)
next
  fix n s r and s' :: lx
  assume "plat_reserve_memory (linux_plat E) n s = Some (r, s')"
  then show "(files s', eeproms s') = (files s, eeproms s)"
    using reserve_keeps_devices [of E n s r s'] by (simp add: linux_plat_def)
next
  fix l s xs
  assume "lx_good E l s" "lx_holds l s xs" "0 < length xs"
  moreover from this obtain rest where "files s l = Some (xs @ rest)" by (auto simp: lx_holds_def)
  ultimately show "\<exists>s' b rest. plat_read_from_location (linux_plat E) l s = Some (IVFRU_RET_SUCCESS, s') \<and>
      lx_good E l s' \<and> plat_get_buffer (linux_plat E) s' = Some (b, xs @ rest)"
    using lx_read_ok [of E l s "xs @ rest"] by (auto simp: linux_plat_def lx_good_def)
next
  fix l s and n :: int
  assume g: "lx_good E l s" and n: "0 < n" "n \<le> 2048"
  obtain s' m' where "ivfru_plat_reserve_memory E n s = Some (IVFRU_RET_SUCCESS, s')"
    "image_buffer s' = Some m'" "length m' = nat n" "buffer_size s' = n" "files s' = files s"
    using lx_reserve_ok [of E n s] g n(1) by (auto simp: lx_good_def)
  then show "\<exists>s' b m. plat_reserve_memory (linux_plat E) n s = Some (IVFRU_RET_SUCCESS, s') \<and>
      lx_good E l s' \<and> plat_get_buffer (linux_plat E) s' = Some (b, m) \<and> nat n \<le> length m"
    using g n by (intro exI [of _ s']) (simp add: linux_plat_def lx_good_def ivfru_plat_get_buffer_def)
next
  fix l s b xs rest and n :: int
  assume g: "lx_good E l s" and n: "0 < n" "n \<le> 2048" "length xs \<le> nat n"
    and b: "plat_get_buffer (linux_plat E) s = Some (b, xs @ rest)"
  have i: "image_buffer s = Some (xs @ rest)" "image_block s = b"
    using b by (auto simp: linux_plat_def ivfru_plat_get_buffer_def split: if_splits)
  obtain s' rest' where "ivfru_plat_reserve_memory E n s = Some (IVFRU_RET_SUCCESS, s')"
    "image_buffer s' = Some (xs @ rest')" "length (xs @ rest') = nat n" "buffer_size s' = n"
    "files s' = files s" "image_block s' = b"
    using lx_reserve_keeps [of E n s xs rest] g n(1,3) i unfolding lx_good_def by blast
  then show "\<exists>s' rest'. plat_reserve_memory (linux_plat E) n s = Some (IVFRU_RET_SUCCESS, s') \<and>
      lx_good E l s' \<and> plat_get_buffer (linux_plat E) s' = Some (b, xs @ rest') \<and> nat n \<le> length (xs @ rest')"
    using g n(1) by (intro exI [of _ s'] exI [of _ rest']) (simp add: linux_plat_def lx_good_def ivfru_plat_get_buffer_def)
qed (auto simp: linux_plat_def lx_store_def ivfru_plat_get_buffer_def ivfru_plat_set_image_size_def
      ivfru_plat_write_to_location_def ivfru_plat_get_image_size_def lx_holds_def lx_stored_def lx_good_def
      ldn_def Let_def split: if_splits option.splits)

section \<open>Properties of the Linux accesses\<close>

lemma fread_loop_sound:
  "fread_loop out n data = Some r \<Longrightarrow> n \<le> int (length data + length out)"
proof (rule fread_loop.raw_induct [where P = "\<lambda>out n data r. n \<le> int (length data + length out)"])
  fix f out n data r
  assume IH: "\<And>out n data r. f out n data = Some r \<Longrightarrow> n \<le> int (length data + length out)"
    and e: "(if int (length data) < n
      then f (drop (nat (n - int (length data))) out) n (data @ take (nat (n - int (length data))) out)
      else Some data) = Some r"
  show "n \<le> int (length data + length out)"
    using IH [of "drop (nat (n - int (length data))) out" n] e by (fastforce split: if_splits)
qed

lemma fread_loop_enough:
  assumes "0 \<le> n" "n \<le> int (length out)"
  shows "fread_loop out n [] = Some (take (nat n) out)"
proof (cases "n = 0")
  case False
  have "fread_loop (drop (nat n) out) n (take (nat n) out) = Some (take (nat n) out)"
    using assms by (subst fread_loop.simps) auto
  then show ?thesis using assms False by (subst fread_loop.simps) auto
qed (simp add: fread_loop.simps)

text \<open>
  C13: the EEPROM read returns exactly when \<open>eeprog\<close> printed at least as many bytes as were asked
  for, and then delivers them; on a shorter output the read loop never ends, because \<open>fread\<close> never
  returns a negative count.
\<close>

theorem ivfru_read_i2c_returns_iff:
  assumes "lx_popen E" "0 \<le> n"
  shows "ivfru_read_i2c E s bus addr offset n =
    (let out = lx_eeprog_r E (eeproms s bus addr) offset n in
     if n \<le> int (length out) then Some (IVFRU_RET_SUCCESS, take (nat n) out) else None)"
proof (cases "n \<le> int (length (lx_eeprog_r E (eeproms s bus addr) offset n))")
  case True
  then show ?thesis using assms by (simp add: ivfru_read_i2c_def fread_loop_enough Let_def)
next
  case False
  have "fread_loop (lx_eeprog_r E (eeproms s bus addr) offset n) n [] = None"
    using fread_loop_sound [of _ n "[]"] False by (cases "fread_loop (lx_eeprog_r E (eeproms s bus addr) offset n) n []") auto
  then show ?thesis using assms False by (simp add: ivfru_read_i2c_def Let_def)
qed

definition sample_env :: lx_env where
  "sample_env = \<lparr>lx_alloc = (\<lambda>_ _. True), lx_moves = (\<lambda>_. False), lx_fresh = (\<lambda>_ _. 0xA5),
     lx_access = (\<lambda>_. True), lx_open = (\<lambda>_. True), lx_create = (\<lambda>_. True), lx_fread_ok = (\<lambda>_. True),
     lx_fwrite_max = (\<lambda>_. 100000), lx_dir = (\<lambda>_. Some []), lx_link = (\<lambda>_. None), lx_popen = True,
     lx_pipe_max = 4096, lx_eeprog_r = (\<lambda>rom offset n. take (nat n) (drop (nat offset) rom)),
     lx_eeprog_w = (\<lambda>rom offset data. take (nat offset) rom @ data @ drop (nat offset + length data) rom),
     lx_flashcp = (\<lambda>temp flash. (True, temp @ drop (length temp) flash)), lx_memcpy_ascending = True\<rparr>"

definition sample_lx :: lx where
  "sample_lx = \<lparr>image_buffer = None, image_block = 0, buffer_size = 0, image_size = 0, heap_calls = 0,
     files = (\<lambda>_. None), eeproms = (\<lambda>_ _. [1, 2, 3, 4]), gpio_cmds = []\<rparr>"

theorem ivfru_read_i2c_returns_iff_witness:
  "ivfru_read_i2c sample_env sample_lx 0 80 1 2 = Some (IVFRU_RET_SUCCESS, [2, 3]) \<and>
   ivfru_read_i2c sample_env sample_lx 0 80 2 4 = None"
  using ivfru_read_i2c_returns_iff [of sample_env 2 sample_lx 0 80 1]
    ivfru_read_i2c_returns_iff [of sample_env 4 sample_lx 0 80 2]
  by (simp add: sample_env_def sample_lx_def)

text \<open>
  The lookup of the write-protect pin overruns its path array by one byte for every board: the
  array is sized without the doubled slash that the concatenation produces.
\<close>

theorem get_wp_info_overruns:
  "board \<noteq> MAX_IVFRU_BOARD \<Longrightarrow> get_wp_info_from_dt E s board = None"
  by (cases board)
     (simp_all add: get_wp_info_from_dt_def get_wp_info_def str_in_def wp_path_len_def Let_def)

theorem get_wp_info_overruns_witness: "get_wp_info_from_dt sample_env sample_lx IVFRU_BOARD_MB = None"
  by (rule get_wp_info_overruns) simp


definition sample_i2c_lx :: lx where
  "sample_i2c_lx = sample_lx\<lparr>files := (\<lambda>_. None)(''/proc/device-tree/iv_ipmi/iv_mb/i2c'' :=
     Some [0, 0, 0, 1, 0, 0, 0, 0x50, 0, 0, 0, 2])\<rparr>"


end
