(* ===== verification/Fru_Ops.thy ===== *)
theory Fru_Ops
  imports Fru_Edit Fru_Plat
begin

text \<open>
  The commands of \<open>ivfru_common.c\<close> with their platform calls: \<open>ivfru_get_size_from_storage\<close>,
  \<open>ivfru_read\<close>, \<open>ivfru_write\<close>, \<open>ivfru_display\<close>, \<open>ivfru_fix\<close>, \<open>ivfru_create\<close>, \<open>ivfru_xcreate\<close>,
  \<open>ivfru_add\<close> and \<open>ivfru_rm\<close>, each a function of the platform record.  Inside the locale
  \<open>fru_platform\<close> the editing commands are shown to turn a location that holds the image of a record
  into one that holds the image of the edited record; the Linux instance of these facts is stated
  over files.
\<close>

section \<open>Reading and writing the board storage\<close>

definition ivfru_get_size_from_storage :: "('l, 's) plat \<Rightarrow> ivfru_board \<Rightarrow> 's \<Rightarrow> (ivfru_ret \<times> int) option" where
  "ivfru_get_size_from_storage P board s = do {
     (err, ch) \<leftarrow> plat_read_from_board P board 0 (int sizeof_ch) s;
     if err \<noteq> IVFRU_RET_SUCCESS then Some (IVFRU_RET_IO_ERROR, 0)
     else do {
       off \<leftarrow> ld ch 3;
       if off = 0x00 then Some (IVFRU_RET_SUCCESS, int sizeof_ch)
       else do {
         (err, bia) \<leftarrow> plat_read_from_board P board (int sizeof_ch) (int sizeof_bia) s;
         if err \<noteq> IVFRU_RET_SUCCESS then Some (IVFRU_RET_IO_ERROR, int sizeof_ch)
         else do { l \<leftarrow> ld bia 1; Some (IVFRU_RET_SUCCESS, int sizeof_ch + uint l * 8) } } } }"

text \<open>The number of bytes after the fixed part; 0x40 is taken for the byte length of the old format.\<close>

definition read_rem_size :: "byte \<Rightarrow> int" where
  "read_rem_size l = (if l \<noteq> 0x40 then uint l * 8 else uint l) - int sizeof_bia"

text \<open>One \<open>ivfru_plat_read_from_board\<close> into the buffer at an offset.\<close>

definition read_into_buffer ::
  "('l, 's) plat \<Rightarrow> ivfru_board \<Rightarrow> nat \<Rightarrow> int \<Rightarrow> byte list \<Rightarrow> 's \<Rightarrow> (ivfru_ret \<times> byte list \<times> 's) option"
where
  "read_into_buffer P board offset n mem s = do {
     (err, data) \<leftarrow> plat_read_from_board P board (int offset) n s;
     mem \<leftarrow> stn mem offset data;
     Some (err, mem, plat_store P mem s) }"

definition ivfru_read :: "('l, 's) plat \<Rightarrow> ivfru_board \<Rightarrow> 'l \<Rightarrow> bool \<Rightarrow> 's \<Rightarrow> (ivfru_ret \<times> 's) option" where
  "ivfru_read P board location quiet s = do {
     let read_len = int sizeof_ch + int sizeof_bia;
     (ret, s) \<leftarrow> plat_reserve_memory P read_len s;
     if ret \<noteq> IVFRU_RET_SUCCESS then Some (IVFRU_RET_MEM_ERROR, s) else
     case plat_get_buffer P s of None \<Rightarrow> Some (IVFRU_RET_MEM_ERROR, s) | Some (_, mem) \<Rightarrow> do {
     (err, mem, s) \<leftarrow> read_into_buffer P board 0 read_len mem s;
     if err \<noteq> IVFRU_RET_SUCCESS then Some (IVFRU_RET_IO_ERROR, s) else do {
     let rem_offset = sizeof_ch + sizeof_bia;
     l \<leftarrow> ld mem (sizeof_ch + 1);
     let rem_size = read_rem_size l;
     let read_len = read_len + rem_size;
     (ret, s) \<leftarrow> plat_reserve_memory P read_len s;
     if ret \<noteq> IVFRU_RET_SUCCESS then Some (IVFRU_RET_MEM_ERROR, s) else
     case plat_get_buffer P s of None \<Rightarrow> Some (IVFRU_RET_MEM_ERROR, s) | Some (_, mem) \<Rightarrow> do {
     (err, mem, s) \<leftarrow> read_into_buffer P board rem_offset rem_size mem s;
     if err \<noteq> IVFRU_RET_SUCCESS then Some (IVFRU_RET_IO_ERROR, s) else do {
     let (ret, s) = (if quiet then (IVFRU_RET_SUCCESS, s) else plat_set_image_size P read_len s);
     if ret \<noteq> IVFRU_RET_SUCCESS then Some (IVFRU_RET_MEM_ERROR, s) else do {
     (ret, s) \<leftarrow> plat_write_to_location P location s;
     Some (if ret \<noteq> IVFRU_RET_SUCCESS then IVFRU_RET_IO_ERROR else IVFRU_RET_SUCCESS, s) } } } } } }"

text \<open>The common start of the commands that work on a location: read it into the buffer.\<close>

definition with_buffer ::
  "('l, 's) plat \<Rightarrow> 'l \<Rightarrow> 's \<Rightarrow> (nat \<Rightarrow> byte list \<Rightarrow> 's \<Rightarrow> (ivfru_ret \<times> 's) option) \<Rightarrow> (ivfru_ret \<times> 's) option"
where
  "with_buffer P location s k = do {
     (ret, s) \<leftarrow> plat_read_from_location P location s;
     if ret \<noteq> IVFRU_RET_SUCCESS then Some (IVFRU_RET_IO_ERROR, s)
     else case plat_get_buffer P s of
            None \<Rightarrow> Some (IVFRU_RET_MEM_ERROR, s)
          | Some (b, mem) \<Rightarrow> k b mem s }"

text \<open>The common end: record the image size and write the buffer back to the location.\<close>

definition write_back :: "('l, 's) plat \<Rightarrow> 'l \<Rightarrow> byte list \<Rightarrow> int \<Rightarrow> 's \<Rightarrow> (ivfru_ret \<times> 's) option" where
  "write_back P location mem n s = (case plat_set_image_size P n (plat_store P mem s) of (ret, s) \<Rightarrow>
     if ret \<noteq> IVFRU_RET_SUCCESS then Some (IVFRU_RET_MEM_ERROR, s)
     else do {
       (ret, s) \<leftarrow> plat_write_to_location P location s;
       Some (if ret \<noteq> IVFRU_RET_SUCCESS then IVFRU_RET_IO_ERROR else IVFRU_RET_SUCCESS, s) })"

definition ivfru_write :: "('l, 's) plat \<Rightarrow> ivfru_board \<Rightarrow> 'l \<Rightarrow> 's \<Rightarrow> (ivfru_ret \<times> 's) option" where
  "ivfru_write P board location s = with_buffer P location s (\<lambda>_ mem s. do {
     old \<leftarrow> fru_is_old_format mem;
     if old then Some (IVFRU_RET_FRU_OLD_FORMAT, s) else do {
     (ret, _) \<leftarrow> ivfru_validate mem False;
     if ret \<noteq> IVFRU_RET_SUCCESS then Some (IVFRU_RET_INVALID_FRU_DATA, s) else do {
     len \<leftarrow> fru_get_total_length mem;
     data \<leftarrow> ldn mem 0 (nat len);
     (err, s) \<leftarrow> plat_write_to_board P board data s;
     if err \<noteq> IVFRU_RET_SUCCESS then Some (IVFRU_RET_IO_ERROR, s)
     else (case plat_set_image_size P len s of (ret, s) \<Rightarrow>
       Some (if ret \<noteq> IVFRU_RET_SUCCESS then IVFRU_RET_MEM_ERROR else IVFRU_RET_SUCCESS, s)) } } })"

section \<open>Display\<close>

text \<open>What is printed, in order.  \<open>D_Error\<close> is a line of \<open>display_validation_errors\<close>.\<close>

datatype display_item =
    D_Error u32
  | D_Bia_Length int
  | D_Version byte
  | D_Lang byte
  | D_Mfg_Date int
  | D_Fixed nat "byte list"
  | D_File_Id_Len nat
  | D_Custom nat "byte list"
  | D_Bia_Valid bool
  | D_Area_Exists nat

definition display_validation_errors :: "u32 \<Rightarrow> display_item list" where
  "display_validation_errors res = map D_Error (filter (\<lambda>f. res AND f \<noteq> 0)
     [VAL_RES_CH_INVALID_FORMAT_VERSION, VAL_RES_CH_INVALID_BIA_OFFSET, VAL_RES_CH_INVALID_CHECKSUM,
      VAL_RES_BIA_INVALID_FORMAT_VERSION, VAL_RES_BIA_INVALID_LANGUAGE_CODE,
      VAL_RES_BIA_PREDEF_FIELDS_MISSING, VAL_RES_BIA_INVALID_FRU_FILE_ID,
      VAL_RES_BIA_MISSING_END_OF_FIELDS, VAL_RES_BIA_INVALID_PADDING, VAL_RES_BIA_MISSING_CHECKSUM,
      VAL_RES_BIA_INCORRECT_CHECKSUM])"

text \<open>The string printed for a field is its data up to the first NUL.\<close>

fun display_fixed :: "nat \<Rightarrow> nat \<Rightarrow> byte list \<Rightarrow> nat \<Rightarrow> int \<Rightarrow> (display_item list \<times> nat \<times> int) option" where
  "display_fixed 0 i mem address len = Some ([], address, len)"
| "display_fixed (Suc k) i mem address len =
     (if 0 < len
      then do {
        flen \<leftarrow> fru_tl_get_length mem address;
        (data, next) \<leftarrow> fru_area_get_field_at_address mem address True;
        (out, a, l) \<leftarrow> display_fixed k (i + 1) mem next (len - (1 + int flen));
        Some (D_Fixed i (c_string (the data)) # out, a, l) }
      else Some ([], address, len))"

function display_custom :: "nat \<Rightarrow> byte list \<Rightarrow> nat \<Rightarrow> int \<Rightarrow> display_item list option" where
  "display_custom i mem address len =
     (if 0 < len
      then (case ld mem address of
              None \<Rightarrow> None
            | Some c \<Rightarrow>
                if c = FRU_END_MARKER then Some []
                else (case ldn mem (address + 1) (tl_length c) of
                        None \<Rightarrow> None
                      | Some data \<Rightarrow>
                          map_option (Cons (D_Custom i (c_string data)))
                            (display_custom (i + 1) mem (address + 1 + tl_length c) (len - (1 + int (tl_length c))))))
      else Some [])"
  by pat_completeness auto
termination
  by (relation "measure (\<lambda>(i, mem, address, len). length mem - address)")
     (auto simp: ld_def split: if_splits)

declare display_custom.simps [simp del]

definition display_items :: "byte list \<Rightarrow> (display_item list \<times> int) option" where
  "display_items mem = do {
     (_, valres) \<leftarrow> ivfru_validate mem True;
     lenb \<leftarrow> ld mem (sizeof_ch + 1);
     old \<leftarrow> fru_is_old_format mem;
     let len = (if old then uint lenb else uint lenb * 8);
     ver \<leftarrow> ld mem sizeof_ch;
     lang \<leftarrow> ld mem (sizeof_ch + 2);
     time \<leftarrow> ldn mem (sizeof_ch + 3) 3;
     (fixed, address, rem) \<leftarrow> display_fixed 4 0 mem (sizeof_ch + sizeof_bia) (len - int sizeof_bia);
     (file_id, address, rem) \<leftarrow>
       (if 0 < rem
        then do { flen \<leftarrow> fru_tl_get_length mem address; a \<leftarrow> next_field mem address;
                  Some ([D_File_Id_Len flen], a, rem - (1 + int flen)) }
        else Some ([], address, rem));
     custom \<leftarrow> display_custom 1 mem address rem;
     areas \<leftarrow> ldn mem 0 sizeof_ch;
     Some (display_validation_errors valres @ [D_Bia_Length len, D_Version ver] @
       (if 2 < len then [D_Lang lang] else []) @
       (if 3 < len then [D_Mfg_Date (fst (ipmi_time_to_date (time ! 0) (time ! 1) (time ! 2)))] else []) @
       fixed @ file_id @ custom @ [D_Bia_Valid (valres AND VAL_RES_BIA_MASK = 0)] @
       map D_Area_Exists (filter (\<lambda>i. areas ! i \<noteq> 0) [1, 2, 4, 5]), len) }"

definition ivfru_display :: "('l, 's) plat \<Rightarrow> 'l \<Rightarrow> 's \<Rightarrow> (ivfru_ret \<times> 's \<times> display_item list) option" where
  "ivfru_display P location s = do {
     (ret, s) \<leftarrow> plat_read_from_location P location s;
     if ret \<noteq> IVFRU_RET_SUCCESS then Some (IVFRU_RET_IO_ERROR, s, [])
     else case plat_get_buffer P s of
            None \<Rightarrow> Some (IVFRU_RET_MEM_ERROR, s, [])
          | Some (_, mem) \<Rightarrow> do {
              (items, len) \<leftarrow> display_items mem;
              Some (IVFRU_RET_SUCCESS, snd (plat_set_image_size P len s), items) } }"

section \<open>Editing\<close>

definition ivfru_fix :: "('l, 's) plat \<Rightarrow> 'l \<Rightarrow> 's \<Rightarrow> (ivfru_ret \<times> 's) option" where
  "ivfru_fix P location s = with_buffer P location s (\<lambda>_ mem s. do {
     r \<leftarrow> fix_image mem;
     (case r of
        Inl e \<Rightarrow> Some (e, s)
      | Inr (mem, len) \<Rightarrow> write_back P location mem (int len) s) })"

definition ivfru_xcreate ::
  "('l, 's) plat \<Rightarrow> 'l \<Rightarrow> byte list option \<Rightarrow> byte list option \<Rightarrow> int \<Rightarrow> byte list option \<Rightarrow> int \<Rightarrow>
   byte list option \<Rightarrow> int \<Rightarrow> byte list option \<Rightarrow> int \<Rightarrow> 's \<Rightarrow> (ivfru_ret \<times> 's) option"
where
  "ivfru_xcreate P location mfgdate product product_len sn sn_len pn pn_len mfr mfr_len s =
     (case (mfgdate, product, sn, pn) of
        (Some mfgdate, Some product, Some sn, Some pn) \<Rightarrow> do {
          date \<leftarrow> date2dmy mfgdate;
          (case date of
             Inl _ \<Rightarrow> Some (IVFRU_RET_INVALID_ARGUMENT, s)
           | Inr dmy \<Rightarrow>
               (let (mfr, mfr_len) = (case mfr of None \<Rightarrow> (cstr ''iVeia'', 10) | Some m \<Rightarrow> (m, mfr_len)) in
                case settle_lengths (xcreate_fields product product_len sn sn_len pn pn_len mfr mfr_len) of
                  None \<Rightarrow> Some (IVFRU_RET_INVALID_ARGUMENT, s)
                | Some fs \<Rightarrow> do {
                    (total_size, pad_len) \<leftarrow> xcreate_sizes fs;
                    (ret, s) \<leftarrow> plat_reserve_memory P total_size s;
                    if ret \<noteq> IVFRU_RET_SUCCESS then Some (IVFRU_RET_MEM_ERROR, s) else
                    case plat_get_buffer P s of
                      None \<Rightarrow> Some (IVFRU_RET_MEM_ERROR, s)
                    | Some (_, mem) \<Rightarrow> do {
                        (ret, mem) \<leftarrow> xcreate_image mem dmy fs total_size pad_len;
                        if ret \<noteq> IVFRU_RET_SUCCESS
                        then Some (IVFRU_RET_INVALID_ARGUMENT, plat_store P mem s)
                        else write_back P location mem total_size s } })) }
      | _ \<Rightarrow> Some (IVFRU_RET_INVALID_ARGUMENT, s))"

definition ivfru_create ::
  "('l, 's) plat \<Rightarrow> 'l \<Rightarrow> byte list option \<Rightarrow> byte list option \<Rightarrow> byte list option \<Rightarrow> byte list option \<Rightarrow>
   byte list option \<Rightarrow> 's \<Rightarrow> (ivfru_ret \<times> 's) option"
where
  "ivfru_create P location mfgdate product sn pn mfr s =
     ivfru_xcreate P location mfgdate product 16 sn 10 pn 15 mfr 10 s"

text \<open>After the buffer is resized \<open>ivfru_add\<close> goes on with \<open>address\<close> and \<open>end\<close>, which point into
  the block as it was before: if the block moved, the next access through them is undefined.\<close>

definition ivfru_add :: "('l, 's) plat \<Rightarrow> 'l \<Rightarrow> int \<Rightarrow> byte list \<Rightarrow> int \<Rightarrow> 's \<Rightarrow> (ivfru_ret \<times> 's) option" where
  "ivfru_add P location index data len s = with_buffer P location s (\<lambda>b mem s. do {
     r \<leftarrow> add_prepare mem index data len;
     (case r of
        Inl e \<Rightarrow> Some (e, s)
      | Inr p \<Rightarrow> do {
          (ret, s) \<leftarrow> plat_reserve_memory P (int sizeof_ch + int (ap_bia_len p)) s;
          if ret \<noteq> IVFRU_RET_SUCCESS then Some (IVFRU_RET_MEM_ERROR, s)
          else case plat_get_buffer P s of
                 None \<Rightarrow> Some (IVFRU_RET_MEM_ERROR, s)
               | Some (b', mem) \<Rightarrow>
                   if b' \<noteq> b then None
                   else do {
                     (mem, total_size) \<leftarrow> add_commit mem p;
                     write_back P location mem (int total_size) s } }) })"

definition ivfru_rm :: "('l, 's) plat \<Rightarrow> 'l \<Rightarrow> int \<Rightarrow> 's \<Rightarrow> (ivfru_ret \<times> 's) option" where
  "ivfru_rm P location index s = with_buffer P location s (\<lambda>_ mem s. do {
     r \<leftarrow> rm_image (plat_memcpy_ascending P) mem index;
     (case r of
        Inl e \<Rightarrow> Some (e, s)
      | Inr (mem, total_size) \<Rightarrow> write_back P location mem (int total_size) s) })"

section \<open>The editing commands over a working platform\<close>

lemma image_split:
  "image_of mem ch lenb f pad rest \<Longrightarrow> image_of (ch @ enc_bia lenb f pad) ch lenb f pad []"
  by (simp add: image_of_def)

lemma image_extend:
  "image_of img ch lenb f pad [] \<Longrightarrow> image_of (img @ rest) ch lenb f pad rest"
  by (simp add: image_of_def)

lemma image_size_bound: "image_of mem ch lenb f pad rest \<Longrightarrow>
  length (ch @ enc_bia lenb f pad) = 8 + 8 * unat lenb \<and> length (ch @ enc_bia lenb f pad) \<le> 2048"
  using unat_byte_le [of lenb] by (simp add: image_of_def wf_header_def)

lemma image_length_len: "image_of mem ch lenb f (least_pad f) rest \<Longrightarrow>
  length (ch @ enc_bia lenb f (least_pad f)) = 8 + image_len f"
  using least_pad_length [of lenb f] by (simp add: image_of_def wf_header_def image_len_def)

text \<open>A location, seen through \<open>H\<close>, has the image of a record with a given padding.\<close>

definition image_at :: "(byte list \<Rightarrow> bool) \<Rightarrow> byte list \<Rightarrow> fru \<Rightarrow> nat \<Rightarrow> bool" where
  "image_at H ch f pad \<longleftrightarrow> (\<exists>lenb. image_of (ch @ enc_bia lenb f pad) ch lenb f pad [] \<and>
     H (ch @ enc_bia lenb f pad))"

lemma image_at_mono: "image_at H ch f pad \<Longrightarrow> (\<And>xs. H xs \<Longrightarrow> H' xs) \<Longrightarrow> image_at H' ch f pad"
  by (auto simp: image_at_def)

lemma used_le_image_len:
  "length (enc_body lenb f 0) \<le> image_len (f\<lparr>fru_custom := insert_at n g (fru_custom f)\<rparr>)"
proof -
  let ?f = "f\<lparr>fru_custom := insert_at n g (fru_custom f)\<rparr>"
  have "length (enc_body lenb f 0) \<le> length (enc_body 0 ?f 0)"
    using arg_cong [OF enc_fields_simps(3) [of "take n (fru_custom f)" "drop n (fru_custom f)"], of length]
    by (simp add: length_enc_body insert_at_def)
  then show ?thesis using round8_bounds(1) [of "length (enc_body 0 ?f 0) + 1"] by (simp add: image_len_def)
qed

context fru_platform
begin

lemma write_back_ok:
  assumes "good l s" "plat_get_buffer P s = Some (b, m)" "length (xs @ rest) = length m" "length xs \<le> 2048"
  shows "\<exists>s'. write_back P l (xs @ rest) (int (length xs)) s = Some (IVFRU_RET_SUCCESS, s') \<and>
    good l s' \<and> stored l s' xs"
proof -
  obtain s1 where s1: "plat_set_image_size P (int (length xs)) (plat_store P (xs @ rest) s) = (IVFRU_RET_SUCCESS, s1)"
    using set_size by (metis prod.collapse)
  have "good l s1" "sized s1 (length xs)" "plat_get_buffer P s1 = Some (b, xs @ rest)"
    using s1 good_size [of l "int (length xs)"] good_store assms(1)
      set_size_sized [of "int (length xs)"] set_size_buffer [of "int (length xs)"] get_store [OF assms(2,3)]
    by (metis snd_conv nat_int of_nat_0_le_iff)+
  from write_ok [OF this(1,3,2) assms(4)] show ?thesis using s1 by (auto simp: write_back_def)
qed

lemma with_buffer_ok:
  assumes "good l s" "holds l s xs" "0 < length xs"
  shows "\<exists>s' b rest. with_buffer P l s k = k b (xs @ rest) s' \<and> good l s' \<and>
    plat_get_buffer P s' = Some (b, xs @ rest)"
  using read_ok [OF assms] by (force simp: with_buffer_def)

lemma image_into_buffer:
  assumes g: "good l s" and h: "image_at (holds l s) ch f pad"
  shows "\<exists>lenb s1 b rest. (\<forall>k. with_buffer P l s k = k b ((ch @ enc_bia lenb f pad) @ rest) s1) \<and>
    good l s1 \<and> plat_get_buffer P s1 = Some (b, (ch @ enc_bia lenb f pad) @ rest) \<and>
    image_of ((ch @ enc_bia lenb f pad) @ rest) ch lenb f pad rest"
proof -
  obtain lenb where im: "image_of (ch @ enc_bia lenb f pad) ch lenb f pad []"
    and ho: "holds l s (ch @ enc_bia lenb f pad)" using h by (auto simp: image_at_def)
  obtain s1 b rest where "\<forall>k. with_buffer P l s k = k b ((ch @ enc_bia lenb f pad) @ rest) s1"
    "good l s1" "plat_get_buffer P s1 = Some (b, (ch @ enc_bia lenb f pad) @ rest)"
    using read_ok [OF g ho] by (force simp: with_buffer_def)
  then show ?thesis using image_extend [OF im] by blast
qed

lemma image_written:
  assumes "good l s" "plat_get_buffer P s = Some (b, m)" "length mem = length m"
    and i: "image_of mem ch lenb f (least_pad f) rest"
  shows "\<exists>s'. write_back P l mem (int (8 + image_len f)) s = Some (IVFRU_RET_SUCCESS, s') \<and>
    good l s' \<and> image_at (stored l s') ch f (least_pad f)"
proof -
  have mem: "mem = (ch @ enc_bia lenb f (least_pad f)) @ rest" using i by (simp add: image_of_def)
  have len: "length (ch @ enc_bia lenb f (least_pad f)) = 8 + image_len f"
    "length (ch @ enc_bia lenb f (least_pad f)) \<le> 2048"
    using image_length_len [OF i] image_size_bound [OF i] by auto
  obtain s' where "write_back P l mem (int (8 + image_len f)) s = Some (IVFRU_RET_SUCCESS, s')" "good l s'"
    "stored l s' (ch @ enc_bia lenb f (least_pad f))"
    using write_back_ok [OF assms(1,2), of "ch @ enc_bia lenb f (least_pad f)" rest] len assms(3) mem by metis
  then show ?thesis using image_split [OF i] by (auto simp: image_at_def)
qed

lemma rm_correct:
  assumes g: "good l s" and h: "image_at (holds l s) ch f pad" and m: "plat_memcpy_ascending P"
    and i: "0 \<le> index" "nat index < length (fru_custom f)"
    and f': "f' = f\<lparr>fru_custom := remove_at (nat index) (fru_custom f)\<rparr>"
  shows "\<exists>s'. ivfru_rm P l index s = Some (IVFRU_RET_SUCCESS, s') \<and> good l s' \<and>
    image_at (stored l s') ch f' (least_pad f')"
proof -
  obtain lenb s1 b rest where b: "\<forall>k. with_buffer P l s k = k b ((ch @ enc_bia lenb f pad) @ rest) s1"
    "good l s1" "plat_get_buffer P s1 = Some (b, (ch @ enc_bia lenb f pad) @ rest)"
    "image_of ((ch @ enc_bia lenb f pad) @ rest) ch lenb f pad rest"
    using image_into_buffer [OF g h] by blast
  obtain mem' lenb' rest' where r: "rm_image True ((ch @ enc_bia lenb f pad) @ rest) index = Some (Inr (mem', 8 + image_len f'))"
    "image_of mem' ch lenb' f' (least_pad f') rest'" "length mem' = length ((ch @ enc_bia lenb f pad) @ rest)"
    using rm_image_step [OF b(4), of index] i unfolding f' by auto
  show ?thesis
    using image_written [OF b(2,3) r(3,2)] r(1) m by (auto simp: ivfru_rm_def b(1))
qed

lemma rm_bad_index:
  assumes g: "good l s" and h: "image_at (holds l s) ch f pad"
    and i: "index < 0 \<or> int (length (fru_custom f)) \<le> index"
  shows "\<exists>s'. ivfru_rm P l index s = Some (IVFRU_RET_INVALID_ARGUMENT, s')"
proof -
  obtain lenb s1 b rest where b: "\<forall>k. with_buffer P l s k = k b ((ch @ enc_bia lenb f pad) @ rest) s1"
    "good l s1" "plat_get_buffer P s1 = Some (b, (ch @ enc_bia lenb f pad) @ rest)"
    "image_of ((ch @ enc_bia lenb f pad) @ rest) ch lenb f pad rest"
    using image_into_buffer [OF g h] by blast
  show ?thesis using rm_image_bad_index [OF b(4) i] by (simp add: ivfru_rm_def b(1))
qed

lemma add_correct:
  assumes g: "good l s" and h: "image_at (holds l s) ch f pad"
    and d: "length data \<le> 63" "length data \<noteq> 1"
    and f': "f' = f\<lparr>fru_custom := insert_at (add_pos index (length (fru_custom f))) (new_field data) (fru_custom f)\<rparr>"
    and L: "image_len f' \<le> 2040"
  shows "\<exists>s'. ivfru_add P l index data (int (length data)) s = Some (IVFRU_RET_SUCCESS, s') \<and> good l s' \<and>
    image_at (stored l s') ch f' (least_pad f')"
proof -
  obtain lenb s1 b rest where b: "\<forall>k. with_buffer P l s k = k b ((ch @ enc_bia lenb f pad) @ rest) s1"
    "good l s1" "plat_get_buffer P s1 = Some (b, (ch @ enc_bia lenb f pad) @ rest)"
    "image_of ((ch @ enc_bia lenb f pad) @ rest) ch lenb f pad rest"
    using image_into_buffer [OF g h] by blast
  let ?used = "ch @ enc_body lenb f 0" and ?mem = "(ch @ enc_bia lenb f pad) @ rest"
  have ch: "length ch = 8" using b(4) by (simp add: image_of_def wf_header_def)
  have u: "?mem = ?used @ drop (length ?used) ?mem" "take (8 + length (enc_body lenb f 0)) ?mem = ?used"
    using ch by (simp_all add: enc_bia_def enc_body_pad [of lenb f pad, symmetric])
  have n: "int (8 + image_len f') \<le> 2048" "0 < int (8 + image_len f')" using L by simp_all
  have le: "length ?used \<le> nat (int (8 + image_len f'))"
    using used_le_image_len [of lenb f "add_pos index (length (fru_custom f))" "new_field data"] f' ch by simp
  from b(3) u(1) have "plat_get_buffer P s1 = Some (b, ?used @ drop (length ?used) ?mem)" by simp
  from reserve_keeps [OF b(2) n(2,1) this le] obtain s2 junk where
    r: "plat_reserve_memory P (int (8 + image_len f')) s1 = Some (IVFRU_RET_SUCCESS, s2)" "good l s2"
      "plat_get_buffer P s2 = Some (b, ?used @ junk)" "8 + image_len f' \<le> length (?used @ junk)" by auto
  have m2: "?used @ junk = take (8 + length (enc_body lenb f 0)) ?mem @ junk" by (simp only: u(2))
  obtain p mem' lenb' rest' where p: "add_prepare ?mem index data (int (length data)) = Some (Inr p)"
    "ap_bia_len p = image_len f'" "add_commit (?used @ junk) p = Some (mem', 8 + image_len f')"
    "image_of mem' ch lenb' f' (least_pad f') rest'" "length mem' = length (?used @ junk)"
    using add_image_step [OF b(4) d f' m2 r(4) L] by blast
  have r1: "plat_reserve_memory P (int sizeof_ch + int (ap_bia_len p)) s1 = Some (IVFRU_RET_SUCCESS, s2)"
    using r(1) p(2) by (simp add: sizeof_ch_def)
  show ?thesis
    using image_written [OF r(2,3) p(5,4)] p(1,3) r1 r(3) by (auto simp: ivfru_add_def b(1))
qed

lemma fix_correct:
  assumes g: "good l s" and h: "holds l s (CH_OLD @ enc_bia lenb f pad)" and w: "wf_fru f"
    and L: "unat lenb = length (enc_bia lenb f pad)" "8 dvd unat lenb"
  shows "\<exists>s'. ivfru_fix P l s = Some (IVFRU_RET_SUCCESS, s') \<and> good l s' \<and>
    image_at (stored l s') CH_DEFAULT f pad"
proof -
  let ?xs = "CH_OLD @ enc_bia lenb f pad"
  obtain s1 b rest where b: "\<forall>k. with_buffer P l s k = k b (?xs @ rest) s1" "good l s1"
    "plat_get_buffer P s1 = Some (b, ?xs @ rest)"
    using read_ok [OF g h] by (force simp: with_buffer_def)
  obtain mem' where m: "fix_image (?xs @ rest) = Some (Inr (mem', 8 + unat lenb))"
    "image_of mem' CH_DEFAULT (lenb div 8) f pad rest"
    using fix_image_step [OF w _ L, of "?xs @ rest" rest] by auto
  let ?ys = "CH_DEFAULT @ enc_bia (lenb div 8) f pad"
  have mem': "mem' = ?ys @ rest" using m(2) by (simp add: image_of_def)
  have len: "length ?ys = 8 + unat lenb" "length ?ys \<le> 2048" "length (?ys @ rest) = length (?xs @ rest)"
    using image_size_bound [OF m(2)] L
    by (simp_all add: length_enc_body CH_DEFAULT_def CH_OLD_def)
  obtain s' where "write_back P l (?ys @ rest) (int (8 + unat lenb)) s1 = Some (IVFRU_RET_SUCCESS, s')"
    "good l s'" "stored l s' ?ys"
    using write_back_ok [OF b(2,3) len(3,2)] len(1) by metis
  then show ?thesis
    using m(1) image_split [OF m(2)] by (auto simp: ivfru_fix_def b(1) mem' image_at_def)
qed

lemma xcreate_correct:
  assumes g: "good l s"
    and ok: "list_all (\<lambda>(s, len). legal_field s len) [(mfr, ml), (product, pl), (sn, sl), (pn, nl)]"
    and date: "date2dmy mfgdate = Some (Inr (day, month, year))"
    and t: "date_to_ipmi_time day month year = Some (Inr (t0, t1, t2))"
    and f: "f = created_fru [t0, t1, t2] [(mfr, ml), (product, pl), (sn, sl), (pn, nl)]"
  shows "\<exists>s'. ivfru_xcreate P l (Some mfgdate) (Some product) pl (Some sn) sl (Some pn) nl (Some mfr) ml s
      = Some (IVFRU_RET_SUCCESS, s') \<and> good l s' \<and> image_at (stored l s') CH_DEFAULT f (least_pad f)"
proof -
  let ?ss = "[(mfr, ml), (product, pl), (sn, sl), (pn, nl)]"
  have il: "image_len f \<le> 2040" unfolding f by (rule xcreate_sizes_settled(2) [OF ok]) simp_all
  have n: "0 < int (8 + image_len f)" "int (8 + image_len f) \<le> 2048" using il by simp_all
  obtain s1 b mem where r: "plat_reserve_memory P (int (8 + image_len f)) s = Some (IVFRU_RET_SUCCESS, s1)"
    "good l s1" "plat_get_buffer P s1 = Some (b, mem)" "8 + image_len f \<le> length mem"
    using reserve_ok [OF g n] by auto
  obtain fs mem' lenb where x: "settle_lengths (xcreate_fields product pl sn sl pn nl mfr ml) = Some fs"
    "xcreate_sizes fs = Some (int (8 + image_len f), int (least_pad f))"
    "xcreate_image mem (day, month, year) fs (int (8 + image_len f)) (int (least_pad f)) = Some (IVFRU_RET_SUCCESS, mem')"
    "image_of mem' CH_DEFAULT lenb f (least_pad f) (drop (8 + image_len f) mem)"
    using xcreate_step [OF ok t f r(4)] by blast
  have len: "length mem' = length mem"
    using x(4) r(4) image_length_len [OF x(4)] by (simp add: image_of_def)
  show ?thesis
    using image_written [OF r(2,3) len x(4)] date x(1,2,3) r(1,3) by (auto simp: ivfru_xcreate_def)
qed

end

section \<open>The Linux commands on files\<close>


definition sample_file_lx :: lx where
  "sample_file_lx = sample_lx\<lparr>files := (\<lambda>_. None)(''fru.bin'' := Some sample_image)\<rparr>"

lemma sample_file:
  "lx_good sample_env ''fru.bin'' sample_file_lx"
  "image_at (lx_holds ''fru.bin'' sample_file_lx) CH_DEFAULT sample_fru 7"
proof -
  have "length sample_image = 40" by code_simp
  then show "lx_good sample_env ''fru.bin'' sample_file_lx"
    by (simp add: lx_good_def sample_env_def sample_file_lx_def)
  show "image_at (lx_holds ''fru.bin'' sample_file_lx) CH_DEFAULT sample_fru 7"
    using sample_image_of [of "[]"]
    by (auto simp: image_at_def lx_holds_def sample_file_lx_def sample_image_def intro!: exI [of _ 4])
qed




lemma remove_insert: "n \<le> length xs \<Longrightarrow> remove_at n (insert_at n x xs) = xs"
  by (simp add: remove_at_def insert_at_def)

lemma add_pos_le: "add_pos index n \<le> n"
  by (simp add: add_pos_def)



section \<open>Creation, storage and display\<close>

lemma total_length_image:
  assumes i: "image_of mem ch lenb f pad rest"
  shows "fru_get_total_length mem = Some (8 + uint lenb * 8)" "ldn mem 0 (nat (8 + uint lenb * 8)) = Some (ch @ enc_bia lenb f pad)"
proof -
  have c: "length ch = 8" "ch ! 0 = 1" "ch ! 3 = 1" "8 * unat lenb = length (enc_bia lenb f pad)"
    and m: "mem = ch @ enc_bia lenb f pad @ rest"
    using i by (auto simp: image_of_def wf_header_def)
  have "ld mem 0 = Some 1" "ld mem 3 = Some 1" using c by (simp_all add: m ld_def nth_append)
  moreover have "ld mem 9 = Some lenb"
    using c(1) by (simp add: m ld_def nth_append enc_bia_def) (simp add: enc_body_def)
  ultimately show "fru_get_total_length mem = Some (8 + uint lenb * 8)"
    by (simp add: fru_get_total_length_def sizeof_ch_def)
  have "nat (8 + uint lenb * 8) = length (ch @ enc_bia lenb f pad)"
    using c(1,4) by (simp add: nat_add_distrib nat_mult_distrib)
  then show "ldn mem 0 (nat (8 + uint lenb * 8)) = Some (ch @ enc_bia lenb f pad)"
    by (simp add: m ldn_def)
qed

lemma month_len_le: "1 \<le> m \<Longrightarrow> m \<le> 12 \<Longrightarrow> month_len m y \<le> 31"
  by (drule (1) month_cases) (auto simp: month_len_def days_per_month_def)

lemma create_linux:
  assumes g: "lx_good E path s"
    and d: "valid_date day month year" "year \<le> 9999" "0 < days_since_1996 day (nat month) year"
      "1440 * days_since_1996 day (nat month) year < 2 ^ 24"
    and len: "length product \<le> 16" "length sn \<le> 10" "length pn \<le> 15" "length mfr \<le> 10"
  shows "\<exists>s' t0 t1 t2. ivfru_create (linux_plat E) path (Some (dmy_string day month year)) (Some product)
      (Some sn) (Some pn) (Some mfr) s = Some (IVFRU_RET_SUCCESS, s') \<and>
    ipmi_time_to_date t0 t1 t2 = (day, nat month, year) \<and>
    (let f = created_fru [t0, t1, t2] [(mfr, 10), (product, 16), (sn, 10), (pn, 15)] in
     image_at (lx_stored path s') CH_DEFAULT f (least_pad f))"
proof -
  have "month_len (nat month) year \<le> 31"
    using d(1) by (intro month_len_le) (auto simp: valid_date_def)
  then have b: "0 \<le> day" "day \<le> 99" "0 \<le> month" "month \<le> 99" "0 \<le> year"
    using d(1) by (auto simp: valid_date_def)
  have dmy: "date2dmy (dmy_string day month year) = Some (Inr (day, month, year))"
    using date2dmy_on_dmy [OF b d(2)] d(1) by simp
  obtain t0 t1 t2 where t: "date_to_ipmi_time day month year = Some (Inr (t0, t1, t2))"
    "ipmi_time_to_date t0 t1 t2 = (day, nat month, year)"
    using ipmi_date_inverse [OF d(1,3,4)] by blast
  have ok: "list_all (\<lambda>(s, len). legal_field s len) [(mfr, 10), (product, 16), (sn, 10), (pn, 15)]"
    using len by (simp add: legal_field_def settled_def)
  show ?thesis
    unfolding ivfru_create_def Let_def using lx.xcreate_correct [OF g ok dmy t(1) refl] t(2) by blast
qed



text \<open>
  C5: nothing but a valid image reaches the board.  On any platform, if \<open>ivfru write\<close> reports
  success then the location held a well-formed new-format image, and the bytes handed to the board
  write were exactly that image.
\<close>

theorem ivfru_write_sends_only_images:
  assumes "ivfru_write P board location s = Some (IVFRU_RET_SUCCESS, s')"
  shows "\<exists>s1 b mem ch lenb f pad rest s2. plat_read_from_location P location s = Some (IVFRU_RET_SUCCESS, s1) \<and>
    plat_get_buffer P s1 = Some (b, mem) \<and> image_of mem ch lenb f pad rest \<and>
    plat_write_to_board P board (ch @ enc_bia lenb f pad) s1 = Some (IVFRU_RET_SUCCESS, s2)"
proof -
  obtain s1 b mem res len data s2 where
    r: "plat_read_from_location P location s = Some (IVFRU_RET_SUCCESS, s1)" "plat_get_buffer P s1 = Some (b, mem)"
    and v: "fru_is_old_format mem = Some False" "ivfru_validate mem False = Some (IVFRU_RET_SUCCESS, res)"
    and t: "fru_get_total_length mem = Some len" "ldn mem 0 (nat len) = Some data"
      "plat_write_to_board P board data s1 = Some (IVFRU_RET_SUCCESS, s2)"
    using assms
    by (auto simp: ivfru_write_def with_buffer_def bind_eq_Some_conv split: if_splits option.splits prod.splits)
  obtain ch lenb f pad rest where i: "image_of mem ch lenb f pad rest" by (rule validated_image [OF v])
  have "data = ch @ enc_bia lenb f pad" using total_length_image [OF i] t(1,2) by simp
  then show ?thesis using r i t(3) by blast
qed


definition sample_qspi_env :: lx_env where
  "sample_qspi_env = sample_env\<lparr>lx_dir := (\<lambda>_. Some [(''mtd0'', [])])\<rparr>"

definition sample_qspi_lx :: lx where
  "sample_qspi_lx = sample_lx\<lparr>files := (\<lambda>_. None)(''fru.bin'' := Some sample_image,
     ''/proc/device-tree/iv_ipmi/iv_mb/qspi'' := Some [0x66, 0x72, 0x75, 0],
     ''/sys/class/mtd/mtd0/name'' := Some [0x66, 0x72, 0x75, 10],
     ''/dev/mtd0'' := Some (replicate 64 0xFF))\<rparr>"

lemma sample_board_write:
  assumes "files s = files sample_qspi_lx" "length data \<le> 1000"
  shows "\<exists>s2. ivfru_plat_write_to_board sample_qspi_env IVFRU_BOARD_MB data s = Some (IVFRU_RET_SUCCESS, s2)"
  using assms
  by (simp add: ivfru_plat_write_to_board_def write_to_board_wp_def get_i2c_info_from_dt_def str_in_def
      IPMI_DT_PATH_def BOARD_PREFIX_def dt_cells_def sample_qspi_lx_def get_qspi_info_from_dt_def
      MAX_QSPI_PART_LABEL_LEN_def sample_qspi_env_def sample_env_def c_string_def
      get_mtd_info_from_label_def mtd_name_def MAX_MTD_FILE_PATH_def ivfru_write_qspi_def Let_def)

lemma sample_write_succeeds:
  "\<exists>s'. ivfru_write (linux_plat sample_qspi_env) IVFRU_BOARD_MB ''fru.bin'' sample_qspi_lx = Some (IVFRU_RET_SUCCESS, s')"
proof -
  have l: "length sample_image = 40" by code_simp
  have f: "files sample_qspi_lx ''fru.bin'' = Some sample_image" by (simp add: sample_qspi_lx_def)
  have g: "lx_good sample_qspi_env ''fru.bin'' sample_qspi_lx"
    using l by (simp add: lx_good_def sample_qspi_env_def sample_env_def f)
  obtain s1 b where r: "ivfru_plat_read_from_location sample_qspi_env ''fru.bin'' sample_qspi_lx = Some (IVFRU_RET_SUCCESS, s1)"
    "files s1 = files sample_qspi_lx" "ivfru_plat_get_buffer s1 = Some (b, sample_image)"
    using lx_read_ok [OF g f] l by auto
  have i: "image_of sample_image CH_DEFAULT 4 sample_fru 7 []" using sample_image_of [of "[]"] by simp
  have img: "CH_DEFAULT @ enc_bia 4 sample_fru 7 = sample_image" by (simp add: sample_image_def)
  obtain s2 where "ivfru_plat_write_to_board sample_qspi_env IVFRU_BOARD_MB sample_image s1 = Some (IVFRU_RET_SUCCESS, s2)"
    using sample_board_write [OF r(2)] l by force
  then show ?thesis
    using r image_not_old [OF i] image_validates [OF i] total_length_image [OF i]
    by (simp add: ivfru_write_def with_buffer_def linux_plat_def img ivfru_plat_set_image_size_def)
qed

theorem ivfru_write_sends_only_images_witness:
  "\<exists>s1 b mem ch lenb f pad rest s2.
    plat_read_from_location (linux_plat sample_qspi_env) ''fru.bin'' sample_qspi_lx = Some (IVFRU_RET_SUCCESS, s1) \<and>
    plat_get_buffer (linux_plat sample_qspi_env) s1 = Some (b, mem) \<and> image_of mem ch lenb f pad rest \<and>
    plat_write_to_board (linux_plat sample_qspi_env) IVFRU_BOARD_MB (ch @ enc_bia lenb f pad) s1 = Some (IVFRU_RET_SUCCESS, s2)"
proof -
  obtain s' where "ivfru_write (linux_plat sample_qspi_env) IVFRU_BOARD_MB ''fru.bin'' sample_qspi_lx = Some (IVFRU_RET_SUCCESS, s')"
    using sample_write_succeeds by blast
  then show ?thesis by (rule ivfru_write_sends_only_images)
qed

section \<open>Reading the board\<close>

lemma image_lenb: "image_of mem ch lenb f pad rest \<Longrightarrow> ld mem 9 = Some lenb \<and> 14 \<le> length (ch @ enc_bia lenb f pad)"
  by (auto simp: image_of_def wf_header_def wf_fru_def ld_def nth_append enc_bia_def length_enc_body)
     (simp add: enc_body_def)

context fru_platform
begin

lemma read_into_buffer_ok:
  assumes "good l s" "plat_get_buffer P s = Some (b, mem)" "offset + length data \<le> length mem"
    and "plat_read_from_board P board (int offset) n s = Some (IVFRU_RET_SUCCESS, data)"
  shows "\<exists>s'. read_into_buffer P board offset n mem s =
      Some (IVFRU_RET_SUCCESS, take offset mem @ data @ drop (offset + length data) mem, s') \<and> good l s' \<and>
    plat_get_buffer P s' = Some (b, take offset mem @ data @ drop (offset + length data) mem)"
  using assms get_store [OF assms(2), of "take offset mem @ data @ drop (offset + length data) mem"]
  by (auto simp: read_into_buffer_def stn_def good_store)

lemma read_correct:
  assumes g: "good l s" and i: "image_of img ch lenb f pad []" and l: "lenb \<noteq> 0x40"
    and r0: "plat_read_from_board P board 0 14 s = Some (IVFRU_RET_SUCCESS, take 14 img)"
    and r1: "plat_read_from_board P board 14 (int (length img) - 14) s = Some (IVFRU_RET_SUCCESS, drop 14 img)"
  shows "\<exists>s'. ivfru_read P board l False s = Some (IVFRU_RET_SUCCESS, s') \<and> good l s' \<and> stored l s' img"
proof -
  have img: "img = ch @ enc_bia lenb f pad" using i by (simp add: image_of_def)
  have len: "length img = 8 + 8 * unat lenb" "length img \<le> 2048" "14 \<le> length img" "ld img 9 = Some lenb"
    using image_size_bound [OF i] image_lenb [OF i] by (simp_all add: img)
  have sz: "read_rem_size lenb = int (length img) - 14" "14 + (int (length img) - 14) = int (length img)"
    using l len(1) by (simp_all add: read_rem_size_def sizeof_bia_def)
  obtain s1 b1 m1 where s1: "plat_reserve_memory P 14 s = Some (IVFRU_RET_SUCCESS, s1)" "good l s1"
    "plat_get_buffer P s1 = Some (b1, m1)" "14 \<le> length m1"
    using reserve_ok [OF g, of 14] by auto
  have d1: "dev s1 = dev s" by (rule dev_reserve [OF s1(1)])
  have t14: "length (take 14 img) = 14" using len(3) by simp
  obtain s2 where s2: "read_into_buffer P board 0 14 m1 s1 = Some (IVFRU_RET_SUCCESS, take 14 img @ drop 14 m1, s2)"
    "good l s2" "plat_get_buffer P s2 = Some (b1, take 14 img @ drop 14 m1)"
    using read_into_buffer_ok [OF s1(2,3), of 0 "take 14 img" board 14] r0 dev_read [OF d1, of board 0 14] s1(4) t14 by auto
  have d2: "dev s2 = dev s" using s2(1) d1 dev_store by (auto simp: read_into_buffer_def bind_eq_Some_conv)
  have ld9: "ld (take 14 img @ drop 14 m1) 9 = Some lenb"
    using len(3,4) t14 by (simp add: ld_def nth_append split: if_splits)
  have "0 < int (length img)" "int (length img) \<le> 2048" "length (take 14 img) \<le> nat (int (length img))"
    using len(2,3) by auto
  from reserve_keeps [OF s2(2) this(1,2) s2(3) this(3)] obtain s3 rest3 where
    s3: "plat_reserve_memory P (int (length img)) s2 = Some (IVFRU_RET_SUCCESS, s3)" "good l s3"
      "plat_get_buffer P s3 = Some (b1, take 14 img @ rest3)" "length img \<le> length (take 14 img @ rest3)" by auto
  have d3: "dev s3 = dev s" using dev_reserve [OF s3(1)] d2 by simp
  let ?rest = "drop (length img) (take 14 img @ rest3)"
  have j: "take 14 (take 14 img @ rest3) @ drop 14 img @ drop (14 + length (drop 14 img)) (take 14 img @ rest3)
      = img @ ?rest" using len(3) by simp
  obtain s4 where s4: "read_into_buffer P board 14 (int (length img) - 14) (take 14 img @ rest3) s3 =
      Some (IVFRU_RET_SUCCESS, img @ ?rest, s4)" "good l s4" "plat_get_buffer P s4 = Some (b1, img @ ?rest)"
    using read_into_buffer_ok [OF s3(2,3), of 14 "drop 14 img" board "int (length img) - 14"] r1 dev_read [OF d3, of board 14 "int (length img) - 14"] s3(4) len(3)
    unfolding j by auto
  obtain s5 where s5: "plat_set_image_size P (int (length img)) s4 = (IVFRU_RET_SUCCESS, s5)"
    using set_size by (metis prod.collapse)
  have "good l s5" "sized s5 (length img)" "plat_get_buffer P s5 = Some (b1, img @ ?rest)"
    using s5 good_size [of l "int (length img)" s4] s4(2,3) set_size_sized [of "int (length img)" s4]
      set_size_buffer [of "int (length img)" s4] by auto
  from write_ok [OF this(1,3,2) len(2)] obtain s6 where
    s6: "plat_write_to_location P l s5 = Some (IVFRU_RET_SUCCESS, s6)" "good l s6" "stored l s6 img" by blast
  show ?thesis
    using s1(1,3) s2(1) ld9 s3(1,3) s4(1) s5 s6
    by (simp add: ivfru_read_def sizeof_ch_def sizeof_bia_def Let_def sz)
qed

end

lemma sint_offset:
  assumes "uint (w :: u32) + int k < 2 ^ 31"
  shows "sint (w + of_int (int k)) = uint w + int k"
proof -
  have "unat w + k < 2 ^ 31"
    using assms by (simp flip: of_nat_less_iff [where 'a = int] add: nat_less_iff)
  from sint_small [OF this] show ?thesis by simp
qed

text \<open>
  C6: \<open>ivfru read\<close> on Linux copies the image from an EEPROM to the file.  If the device tree gives
  the bus, address and offset, the EEPROM holds at that offset the image of a record whose length
  byte is not 0x40, and \<open>eeprog\<close> prints the bytes it is asked for, then the command succeeds and the
  file consists of exactly that image.
\<close>

theorem ivfru_read_linux_eeprom:
  assumes g: "lx_good E path s" and i: "image_of img ch lenb f pad []" "lenb \<noteq> 0x40"
    and dt: "get_i2c_info_from_dt E s board = Some (Inr (bus, addr, off))" "uint off < 2 ^ 31 - 14"
    and rom: "eeproms s (sint bus) (sint addr) = pre @ img @ post" "length pre = unat off"
    and eeprog_reads: "lx_popen E" "\<And>rom a n. 0 \<le> a \<Longrightarrow> 0 \<le> n \<Longrightarrow> lx_eeprog_r E rom a n = take (nat n) (drop (nat a) rom)"
  shows "\<exists>s'. ivfru_read (linux_plat E) board path False s = Some (IVFRU_RET_SUCCESS, s') \<and> files s' path = Some img"
proof -
  have len: "14 \<le> length img" using image_lenb [OF i(1)] i(1) by (simp add: image_of_def)
  have rd: "ivfru_plat_read_from_board E board (int k) (int n) s = Some (IVFRU_RET_SUCCESS, take n (drop k img))"
    if "k \<le> 14" "k + n \<le> length img" for k n
  proof -
    have o: "sint (off + of_int (int k)) = int (unat off + k)" using sint_offset [of off k] dt(2) that by simp
    have "lx_eeprog_r E (pre @ img @ post) (int (unat off + k)) (int n) = take n (drop k img)"
      using eeprog_reads(2) [of "int (unat off + k)" "int n"] rom(2) that by (simp add: nat_add_distrib)
    then show ?thesis
      using dt(1) rom(1) eeprog_reads(1) that o
      by (simp add: ivfru_plat_read_from_board_def ivfru_read_i2c_def fread_loop_enough)
  qed
  have r0: "plat_read_from_board (linux_plat E) board 0 14 s = Some (IVFRU_RET_SUCCESS, take 14 img)"
    using rd [of 0 14] len by (simp add: linux_plat_def)
  have r1: "plat_read_from_board (linux_plat E) board 14 (int (length img) - 14) s = Some (IVFRU_RET_SUCCESS, drop 14 img)"
    using rd [of 14 "length img - 14"] len by (simp add: linux_plat_def of_nat_diff)
  show ?thesis using lx.read_correct [OF g i r0 r1] by (auto simp: lx_stored_def)
qed


definition sample_eeprom_lx :: lx where
  "sample_eeprom_lx = sample_i2c_lx\<lparr>eeproms := (\<lambda>_ _. [0xFF, 0xFF] @ sample_image @ [0xFF])\<rparr>"

theorem ivfru_read_linux_eeprom_witness:
  "\<exists>s'. ivfru_read (linux_plat sample_env) IVFRU_BOARD_MB ''out.bin'' False sample_eeprom_lx = Some (IVFRU_RET_SUCCESS, s') \<and>
    files s' ''out.bin'' = Some sample_image"
proof -
  have 1: "lx_good sample_env ''out.bin'' sample_eeprom_lx"
    by (simp add: lx_good_def sample_env_def sample_eeprom_lx_def sample_i2c_lx_def)
  have 2: "get_i2c_info_from_dt sample_env sample_eeprom_lx IVFRU_BOARD_MB = Some (Inr (1, 0x50, 2))"
    by (simp add: get_i2c_info_from_dt_def str_in_def IPMI_DT_PATH_def BOARD_PREFIX_def dt_cells_def
        sample_env_def sample_eeprom_lx_def sample_i2c_lx_def cells_def be32_def upt_rec Let_def)
  have 3: "image_of sample_image CH_DEFAULT 4 sample_fru 7 []" using sample_image_of [of "[]"] by simp
  show ?thesis
    by (rule ivfru_read_linux_eeprom [OF 1 3 _ 2, where pre = "[0xFF, 0xFF]" and post = "[0xFF]"])
       (simp_all add: sample_eeprom_lx_def sample_env_def)
qed

text \<open>
  \<open>ivfru add\<close> goes on with pointers into the old block after resizing the buffer.  Whenever the
  allocator moves the block on that call, the command runs into undefined behaviour, even though
  every call it made succeeded.
\<close>

theorem ivfru_add_moved_block_faults:
  assumes g: "lx_open E path" "lx_fread_ok E path" "\<forall>k n. lx_alloc E k n" "\<forall>k. lx_moves E k"
    and s: "image_buffer s = None" "files s path = Some img" "length img < 2 ^ 31"
    and i: "image_of img ch lenb f pad []" and d: "length data \<le> 63" "length data \<noteq> 1"
  shows "ivfru_add (linux_plat E) path index data (int (length data)) s = None"
proof -
  have len: "0 < length img" using image_lenb [OF i] i by (auto simp: image_of_def)
  note n = sint_small [OF s(3)]
  let ?k = "heap_calls s"
  obtain s1 where r: "ivfru_plat_read_from_location E path s = Some (IVFRU_RET_SUCCESS, s1)"
    "image_buffer s1 = Some img" "buffer_size s1 = int (length img)" "image_block s1 = ?k + 1" "heap_calls s1 = ?k + 1"
    using g s(1,2) n len
    by (simp add: ivfru_plat_read_from_location_def ivfru_plat_reserve_memory_def Let_def
        ivfru_plat_get_buffer_def stn_def lx_store_def)
  obtain p where p: "add_prepare img index data (int (length data)) = Some (Inr p)"
    using add_prepare_enc [OF i d refl refl] by blast
  show ?thesis
    using r p len g(3,4)
    by (simp add: ivfru_add_def with_buffer_def linux_plat_def ivfru_plat_get_buffer_def
        ivfru_plat_reserve_memory_def Let_def sizeof_ch_def)
qed

theorem ivfru_add_moved_block_faults_witness:
  "ivfru_add (linux_plat (sample_env\<lparr>lx_moves := (\<lambda>_. True)\<rparr>)) ''fru.bin'' 0 [0xAA, 0xBB] 2 sample_file_lx = None"
proof -
  have "image_of sample_image CH_DEFAULT 4 sample_fru 7 []" using sample_image_of [of "[]"] by simp
  moreover have "length sample_image = 40" by code_simp
  ultimately show ?thesis
    using ivfru_add_moved_block_faults [of "sample_env\<lparr>lx_moves := (\<lambda>_. True)\<rparr>" "''fru.bin''" sample_file_lx
        sample_image CH_DEFAULT 4 sample_fru 7 "[0xAA, 0xBB]" 0]
    by (simp add: sample_env_def sample_file_lx_def sample_lx_def)
qed

end
