(* ===== verification/Fru_Uboot.thy ===== *)
theory Fru_Uboot
  imports Fru_Ops
begin

text \<open>
  The U-Boot implementation of the platform interface
  (\<open>recipes-bsp/u-boot/files/ivfru_plat.c\<close>).  Locations are addresses: the image buffer is the
  location itself, in a flat RAM, so reading, writing and reserving are empty.  The device tree
  library, the driver model and the commands run with \<open>run_command\<close> are parameters, collected in the
  record \<open>ub_env\<close>.  The implementation meets the contract \<open>fru_platform\<close>; the write to an EEPROM is
  shown to bracket the transfer with the write-protect pin.
\<close>

section \<open>State and environment\<close>

datatype ub_gpio = Ub_Request u32 | Ub_Direction_Out u32 bool | Ub_Set u32 int | Ub_Free u32

record ub =
  ub_image_buffer :: nat
  ub_ram :: "byte list"
  ub_vars :: "string \<Rightarrow> string option"
  ub_roms :: "int \<Rightarrow> int \<Rightarrow> byte list"
  ub_flash :: "int \<Rightarrow> int \<Rightarrow> byte list"
  ub_gpio_log :: "ub_gpio list"

text \<open>A SPI flash of the device tree: the two bus numbers of its parent, its chip select and the
  name, label and offset of its subnodes.\<close>

record ub_flashdev =
  fd_seq :: int
  fd_req_seq :: int
  fd_reg :: "u32 option"
  fd_parts :: "(string \<times> string option \<times> u32 option) list"

record ub_env =
  ub_ipmi_node :: int
  ub_subnode :: "int \<Rightarrow> string \<Rightarrow> int"
  ub_prop :: "int \<Rightarrow> string \<Rightarrow> u32 list option"
  ub_prop_str :: "int \<Rightarrow> string \<Rightarrow> string option"
  ub_uclass_ok :: bool
  ub_flashdevs :: "ub_flashdev list"
  ub_i2c_chip :: "int \<Rightarrow> int \<Rightarrow> bool"
  ub_i2c_read :: "byte list \<Rightarrow> int \<Rightarrow> int \<Rightarrow> byte list option"
  ub_i2c_write_ok :: "int \<Rightarrow> bool"
  ub_spi_probe :: "int \<Rightarrow> int \<Rightarrow> bool"
  ub_spi_read :: "byte list \<Rightarrow> int \<Rightarrow> int \<Rightarrow> byte list option"
  ub_sf_probe :: "int \<Rightarrow> int \<Rightarrow> bool"
  ub_sf_read :: "byte list \<Rightarrow> int \<Rightarrow> int \<Rightarrow> byte list option"
  ub_sf_update :: "byte list \<Rightarrow> int \<Rightarrow> byte list \<Rightarrow> byte list option"
  ub_gpio_number :: "int \<Rightarrow> int \<Rightarrow> int \<Rightarrow> u32"
  ub_gpio_lookup :: "string \<Rightarrow> u32 option"
  ub_gpio_request :: "u32 \<Rightarrow> bool"
  ub_gpio_dir :: "u32 \<Rightarrow> bool"
  ub_gpio_set :: "u32 \<Rightarrow> bool"
  ub_gpio_free :: "u32 \<Rightarrow> bool"
  ub_memcpy_ascending :: bool

section \<open>The image buffer is memory\<close>

definition ub_set_buffer :: "nat \<Rightarrow> ub \<Rightarrow> ivfru_ret \<times> ub" where
  "ub_set_buffer buffer s = (IVFRU_RET_SUCCESS, s\<lparr>ub_image_buffer := buffer\<rparr>)"

text \<open>Address zero is the null pointer.\<close>

definition ub_get_buffer :: "ub \<Rightarrow> (nat \<times> byte list) option" where
  "ub_get_buffer s = (if ub_image_buffer s = 0 then None
     else Some (ub_image_buffer s, drop (ub_image_buffer s) (ub_ram s)))"

definition ub_store :: "byte list \<Rightarrow> ub \<Rightarrow> ub" where
  "ub_store m s = (let a = ub_image_buffer s; ram = ub_ram s in
     s\<lparr>ub_ram := take a ram @ take (length ram - a) m @ drop (a + length m) ram\<rparr>)"

definition ub_read_from_location :: "nat \<Rightarrow> ub \<Rightarrow> (ivfru_ret \<times> ub) option" where
  "ub_read_from_location location s = Some (IVFRU_RET_SUCCESS, s)"

definition ub_write_to_location :: "nat \<Rightarrow> ub \<Rightarrow> (ivfru_ret \<times> ub) option" where
  "ub_write_to_location location s = Some (IVFRU_RET_SUCCESS, s)"

definition ub_reserve_memory :: "int \<Rightarrow> ub \<Rightarrow> (ivfru_ret \<times> ub) option" where
  "ub_reserve_memory n s = Some (IVFRU_RET_SUCCESS, s)"

definition ub_set_image_size :: "int \<Rightarrow> ub \<Rightarrow> ivfru_ret \<times> ub" where
  "ub_set_image_size n s =
     (IVFRU_RET_SUCCESS, s\<lparr>ub_vars := (ub_vars s)(''filesize'' := Some (show_int n))\<rparr>)"

definition ub_get_image_size :: "ub \<Rightarrow> int" where
  "ub_get_image_size s = 0"

section \<open>Storage\<close>

definition MAX_FRU_FIELD_SIZE :: int where "MAX_FRU_FIELD_SIZE = 2048"

text \<open>The search over the partitions of all flashes: \<open>bus\<close>, \<open>cs\<close> and \<open>part_offset\<close> are assigned
  step by step, and a later match overwrites an earlier one.\<close>

fun part_step :: "string \<Rightarrow> ub_flashdev \<Rightarrow> string \<times> string option \<times> u32 option \<Rightarrow> int \<times> int \<times> int \<Rightarrow> int \<times> int \<times> int" where
  "part_step ipmi_label d (name, label, reg) (bus, cs, off) =
     (if take 9 name \<noteq> ''partition'' then (bus, cs, off)
      else if label \<noteq> Some ipmi_label then (bus, cs, off)
      else let bus = (if fd_seq d < 0 then fd_req_seq d else fd_seq d) in
        if bus < 0 then (bus, cs, off)
        else case fd_reg d of
               None \<Rightarrow> (bus, cs, off)
             | Some c \<Rightarrow>
                 (case reg of None \<Rightarrow> (bus, sint c, off) | Some r \<Rightarrow> (bus, sint c, sint r)))"

definition get_qspi_info_from_label :: "ub_env \<Rightarrow> string \<Rightarrow> ivfru_ret + int \<times> int \<times> int" where
  "get_qspi_info_from_label E ipmi_label =
     (if \<not> ub_uclass_ok E then Inl IVFRU_RET_INVALID_DEVICE_TREE
      else let (bus, cs, off) = fold (\<lambda>d. fold (part_step ipmi_label d) (fd_parts d)) (ub_flashdevs E) (- 1, - 1, - 1)
           in if off < 0 then Inl IVFRU_RET_INVALID_DEVICE_TREE else Inr (bus, cs, off))"

definition ub_read_i2c :: "ub_env \<Rightarrow> ub \<Rightarrow> int \<Rightarrow> int \<Rightarrow> int \<Rightarrow> int \<Rightarrow> ivfru_ret \<times> byte list" where
  "ub_read_i2c E s bus addr offset n =
     (if n < 0 \<or> MAX_FRU_FIELD_SIZE < n then (IVFRU_RET_INVALID_ARGUMENT, [])
      else if \<not> ub_i2c_chip E bus addr then (IVFRU_RET_IO_ERROR, [])
      else case ub_i2c_read E (ub_roms s bus addr) offset n of
             None \<Rightarrow> (IVFRU_RET_IO_ERROR, [])
           | Some data \<Rightarrow> (IVFRU_RET_SUCCESS, data))"

text \<open>The bytes are written one at a time; a failure leaves the ones before it written.\<close>

fun write_i2c_loop :: "ub_env \<Rightarrow> int \<Rightarrow> byte list \<Rightarrow> byte list \<Rightarrow> ivfru_ret \<times> byte list" where
  "write_i2c_loop E offset [] rom = (IVFRU_RET_SUCCESS, rom)"
| "write_i2c_loop E offset (b # data) rom =
     (if \<not> ub_i2c_write_ok E offset then (IVFRU_RET_IO_ERROR, rom)
      else write_i2c_loop E (offset + 1) data (rom[nat offset := b]))"

definition ub_write_i2c :: "ub_env \<Rightarrow> int \<Rightarrow> int \<Rightarrow> int \<Rightarrow> byte list \<Rightarrow> ub \<Rightarrow> ivfru_ret \<times> ub" where
  "ub_write_i2c E bus addr offset data s =
     (if \<not> ub_i2c_chip E bus addr then (IVFRU_RET_IO_ERROR, s)
      else case write_i2c_loop E offset data (ub_roms s bus addr) of (err, rom) \<Rightarrow>
             (err, s\<lparr>ub_roms := (ub_roms s)(bus := (ub_roms s bus)(addr := rom))\<rparr>))"

definition ub_read_qspi :: "ub_env \<Rightarrow> ub \<Rightarrow> int \<Rightarrow> int \<Rightarrow> int \<Rightarrow> int \<Rightarrow> ivfru_ret \<times> byte list" where
  "ub_read_qspi E s bus cs offset n =
     (if \<not> ub_spi_probe E bus cs then (IVFRU_RET_IO_ERROR, [])
      else case ub_spi_read E (ub_flash s bus cs) offset n of
             None \<Rightarrow> (IVFRU_RET_IO_ERROR, [])
           | Some data \<Rightarrow> (IVFRU_RET_SUCCESS, data))"

text \<open>\<open>temp_buf\<close> has \<open>fru_offset + size\<close> bytes: the flash up to the offset, then the data.\<close>

definition ub_write_qspi :: "ub_env \<Rightarrow> int \<Rightarrow> int \<Rightarrow> int \<Rightarrow> int \<Rightarrow> byte list \<Rightarrow> ub \<Rightarrow> (ivfru_ret \<times> ub) option" where
  "ub_write_qspi E bus cs part_offset fru_offset data s =
     (let flash = ub_flash s bus cs;
          update = (\<lambda>temp. case ub_sf_update E flash part_offset (temp @ data) of
             None \<Rightarrow> Some (IVFRU_RET_IO_ERROR, s)
           | Some flash' \<Rightarrow> Some (IVFRU_RET_SUCCESS, s\<lparr>ub_flash := (ub_flash s)(bus := (ub_flash s bus)(cs := flash'))\<rparr>))
      in if \<not> ub_sf_probe E bus cs then Some (IVFRU_RET_IO_ERROR, s)
         else if fru_offset < 0 \<or> fru_offset + int (length data) \<le> 0 then None
         else if 0 < fru_offset
         then (case ub_sf_read E flash part_offset fru_offset of
                 None \<Rightarrow> Some (IVFRU_RET_IO_ERROR, s)
               | Some temp \<Rightarrow> update temp)
         else update [])"

text \<open>Up to here \<open>ivfru_plat_read_from_board\<close> and \<open>ivfru_plat_write_to_board\<close> agree.\<close>

definition ub_class_node :: "ub_env \<Rightarrow> ivfru_board \<Rightarrow> ivfru_ret + int" where
  "ub_class_node E board =
     (if ub_ipmi_node E < 0 then Inl IVFRU_RET_INVALID_DEVICE_TREE
      else case board_string board of
             None \<Rightarrow> Inl IVFRU_RET_INVALID_ARGUMENT
           | Some board_str \<Rightarrow>
               (let node = ub_subnode E (ub_ipmi_node E) (''iv_'' @ board_str)
                in if node < 0 then Inl IVFRU_RET_INVALID_DEVICE_TREE else Inr node))"

text \<open>Cell \<open>i\<close> of a property; reading past its end is undefined.\<close>

definition cell :: "u32 list \<Rightarrow> nat \<Rightarrow> u32 option" where
  "cell ws i = (if i < length ws then Some (ws ! i) else None)"

definition ub_qspi_offset :: "ub_env \<Rightarrow> int \<Rightarrow> u32 option" where
  "ub_qspi_offset E node = (case ub_prop E node ''qspi_offset'' of None \<Rightarrow> Some 0 | Some ws \<Rightarrow> cell ws 0)"

definition ub_read_from_board :: "ub_env \<Rightarrow> ivfru_board \<Rightarrow> int \<Rightarrow> int \<Rightarrow> ub \<Rightarrow> (ivfru_ret \<times> byte list) option" where
  "ub_read_from_board E board offset n s =
     (case ub_class_node E board of
        Inl e \<Rightarrow> Some (e, [])
      | Inr node \<Rightarrow>
          (case ub_prop E node ''i2c'' of
             Some ws \<Rightarrow> do {
               bus \<leftarrow> cell ws 0; addr \<leftarrow> cell ws 1; ipmi_offset \<leftarrow> cell ws 2;
               a \<leftarrow> int32 (sint ipmi_offset + offset);
               let (ret, data) = ub_read_i2c E s (sint bus) (sint addr) a n;
               Some (if ret \<noteq> IVFRU_RET_SUCCESS then IVFRU_RET_IO_ERROR else IVFRU_RET_SUCCESS, data) }
           | None \<Rightarrow>
               (case ub_prop_str E node ''qspi'' of
                  None \<Rightarrow> Some (IVFRU_RET_INVALID_DEVICE_TREE, [])
                | Some ipmi_label \<Rightarrow> do {
                    qspi_offset \<leftarrow> ub_qspi_offset E node;
                    (case get_qspi_info_from_label E ipmi_label of
                       Inl _ \<Rightarrow> Some (IVFRU_RET_INVALID_DEVICE_TREE, [])
                     | Inr (bus, cs, ipmi_offset) \<Rightarrow>
                         (case ub_read_qspi E s bus cs (sint (of_int ipmi_offset + qspi_offset + of_int offset :: u32)) n of
                            (ret, data) \<Rightarrow>
                              Some (if ret \<noteq> IVFRU_RET_SUCCESS then IVFRU_RET_IO_ERROR else IVFRU_RET_SUCCESS, data))) })))"

section \<open>Writing to the board\<close>

text \<open>Pin number within its chip, active level and global number of the write-protect pin; the
  first is negative if there is none.  The comparisons of the unsigned global number with zero
  never hold.  The decimal number of the pin is printed into an array of five bytes.\<close>

definition ub_wp_info :: "ub_env \<Rightarrow> int \<Rightarrow> (ivfru_ret + int \<times> int \<times> u32) option" where
  "ub_wp_info E class_node =
     (let wp_node = ub_subnode E class_node ''wp'' in
      if wp_node < 0 then Some (Inr (- 1, - 1, - 1))
      else case ub_prop E wp_node ''i2c_gpio'' of
             Some ws \<Rightarrow> do {
               wp_bus \<leftarrow> cell ws 0; wp_addr \<leftarrow> cell ws 1; wp_gpio \<leftarrow> cell ws 2; wp_active \<leftarrow> cell ws 3;
               if \<not> ub_i2c_chip E (sint wp_bus) (sint wp_addr) then Some (Inl IVFRU_RET_IO_ERROR)
               else Some (Inr (sint wp_gpio, sint wp_active,
                      ub_gpio_number E (sint wp_bus) (sint wp_addr) (sint wp_gpio))) }
           | None \<Rightarrow>
               (case ub_prop E wp_node ''gpio'' of
                  Some ws \<Rightarrow> do {
                    wp_gpio \<leftarrow> cell ws 0; wp_active \<leftarrow> cell ws 1;
                    gpio_str \<leftarrow> str_in 5 (show_int (sint wp_gpio));
                    Some (Inr (sint wp_gpio, sint wp_active,
                      case ub_gpio_lookup E gpio_str of Some g \<Rightarrow> g | None \<Rightarrow> - 1)) }
                | None \<Rightarrow> Some (Inr (- 1, - 1, - 1))))"

definition ub_log :: "ub_gpio \<Rightarrow> ub \<Rightarrow> ub" where
  "ub_log c s = s\<lparr>ub_gpio_log := ub_gpio_log s @ [c]\<rparr>"

text \<open>The two brackets around the transfer; the flag tells whether to go on.\<close>

definition ub_wp_release :: "ub_env \<Rightarrow> int \<times> int \<times> u32 \<Rightarrow> ub \<Rightarrow> bool \<times> ub" where
  "ub_wp_release E p s = (case p of (wp_gpio, wp_active, g) \<Rightarrow>
     if wp_gpio < 0 then (True, s)
     else let s = ub_log (Ub_Request g) s in
       if \<not> ub_gpio_request E g then (False, s)
       else (ub_gpio_dir E g, ub_log (Ub_Direction_Out g (wp_active = 0)) s))"

definition ub_wp_protect :: "ub_env \<Rightarrow> int \<times> int \<times> u32 \<Rightarrow> ub \<Rightarrow> bool \<times> ub" where
  "ub_wp_protect E p s = (case p of (wp_gpio, wp_active, g) \<Rightarrow>
     if wp_gpio < 0 then (True, s)
     else let s = ub_log (Ub_Set g wp_active) s in
       if \<not> ub_gpio_set E g then (False, s)
       else (ub_gpio_free E g, ub_log (Ub_Free g) s))"

definition ub_write_to_board :: "ub_env \<Rightarrow> ivfru_board \<Rightarrow> byte list \<Rightarrow> ub \<Rightarrow> (ivfru_ret \<times> ub) option" where
  "ub_write_to_board E board data s =
     (case ub_class_node E board of
        Inl e \<Rightarrow> Some (e, s)
      | Inr node \<Rightarrow>
          (case ub_prop E node ''i2c'' of
             Some ws \<Rightarrow> do {
               bus \<leftarrow> cell ws 0; addr \<leftarrow> cell ws 1; ipmi_offset \<leftarrow> cell ws 2;
               wp \<leftarrow> ub_wp_info E node;
               (case wp of
                  Inl e \<Rightarrow> Some (e, s)
                | Inr p \<Rightarrow>
                    (let (ok, s) = ub_wp_release E p s in
                     if \<not> ok then Some (IVFRU_RET_IO_ERROR, s)
                     else let (err, s) = ub_write_i2c E (sint bus) (sint addr) (sint ipmi_offset) data s;
                              (ok, s) = ub_wp_protect E p s
                          in if \<not> ok then Some (IVFRU_RET_IO_ERROR, s)
                             else Some (if err \<noteq> IVFRU_RET_SUCCESS then IVFRU_RET_IO_ERROR else IVFRU_RET_SUCCESS, s))) }
           | None \<Rightarrow>
               (case ub_prop_str E node ''qspi'' of
                  None \<Rightarrow> Some (IVFRU_RET_INVALID_DEVICE_TREE, s)
                | Some ipmi_label \<Rightarrow> do {
                    qspi_offset \<leftarrow> ub_qspi_offset E node;
                    (case get_qspi_info_from_label E ipmi_label of
                       Inl _ \<Rightarrow> Some (IVFRU_RET_INVALID_DEVICE_TREE, s)
                     | Inr (bus, cs, ipmi_offset) \<Rightarrow> do {
                         (ret, s) \<leftarrow> ub_write_qspi E bus cs ipmi_offset (sint qspi_offset) data s;
                         Some (if ret \<noteq> IVFRU_RET_SUCCESS then IVFRU_RET_IO_ERROR else IVFRU_RET_SUCCESS, s) }) })))"

definition uboot_plat :: "ub_env \<Rightarrow> (nat, ub) plat" where
  "uboot_plat E = \<lparr>
     plat_read_from_location = ub_read_from_location,
     plat_write_to_location = ub_write_to_location,
     plat_read_from_board = ub_read_from_board E,
     plat_write_to_board = ub_write_to_board E,
     plat_get_buffer = ub_get_buffer,
     plat_store = ub_store,
     plat_reserve_memory = ub_reserve_memory,
     plat_set_image_size = ub_set_image_size,
     plat_memcpy_ascending = ub_memcpy_ascending E\<rparr>"

section \<open>U-Boot meets the contract\<close>

definition ub_holds :: "nat \<Rightarrow> ub \<Rightarrow> byte list \<Rightarrow> bool" where
  "ub_holds l s xs \<longleftrightarrow> (\<exists>rest. drop l (ub_ram s) = xs @ rest)"

text \<open>The buffer is the location, and the RAM behind it has room for the largest image.\<close>

definition ub_good :: "nat \<Rightarrow> ub \<Rightarrow> bool" where
  "ub_good l s \<longleftrightarrow> l \<noteq> 0 \<and> ub_image_buffer s = l \<and> l + 2048 \<le> length (ub_ram s)"

lemma ub_get_store:
  assumes "ub_get_buffer s = Some (b, m)" "length m' = length m"
  shows "ub_get_buffer (ub_store m' s) = Some (b, m')"
  using assms by (cases "ub_image_buffer s \<le> length (ub_ram s)")
    (auto simp: ub_get_buffer_def ub_store_def Let_def min_def split: if_splits)

lemma ub_good_store: "ub_good l (ub_store m s) = ub_good l s"
proof -
  have "length (ub_ram (ub_store m s)) = length (ub_ram s)"
    by (simp add: ub_store_def Let_def)
  moreover have "ub_image_buffer (ub_store m s) = ub_image_buffer s"
    by (simp add: ub_store_def Let_def)
  ultimately show ?thesis by (simp only: ub_good_def)
qed

lemma ub_holds_buffer:
  "ub_good l s \<Longrightarrow> ub_holds l s xs \<longleftrightarrow> (\<exists>rest. ub_get_buffer s = Some (l, xs @ rest))"
  by (auto simp: ub_holds_def ub_good_def ub_get_buffer_def)

lemma ub_dev_read:
  assumes "ub_roms s = ub_roms s'" "ub_flash s = ub_flash s'"
  shows "ub_read_from_board E board off n s = ub_read_from_board E board off n s'"
proof -
  have "ub_read_i2c E s = ub_read_i2c E s'" "ub_read_qspi E s = ub_read_qspi E s'"
    using assms by (intro ext, simp add: ub_read_i2c_def ub_read_qspi_def)+
  then show ?thesis unfolding ub_read_from_board_def by (simp only:)
qed

lemmas uboot_plat_simps = uboot_plat_def ub_read_from_location_def ub_write_to_location_def
  ub_reserve_memory_def ub_set_image_size_def

interpretation ub: fru_platform "uboot_plat E" "\<lambda>_ _. True" ub_good ub_holds ub_holds
  "\<lambda>s. (ub_roms s, ub_flash s)" for E
proof unfold_locales
  fix s :: ub and b and m m' :: "byte list"
  assume "plat_get_buffer (uboot_plat E) s = Some (b, m)" "length m' = length m"
  then show "plat_get_buffer (uboot_plat E) (plat_store (uboot_plat E) m' s) = Some (b, m')"
    by (simp add: uboot_plat_def ub_get_store)
next
  fix l s n and xs rest :: "byte list" and b :: nat
  assume "ub_good l s" "0 < n" "n \<le> (2048 :: int)" "plat_get_buffer (uboot_plat E) s = Some (b, xs @ rest)"
  then have b: "ub_get_buffer s = Some (b, xs @ rest)" "ub_good l s" "nat n \<le> 2048"
    by (simp_all add: uboot_plat_def)
  then have "2048 \<le> length (xs @ rest)"
    by (auto simp: ub_get_buffer_def ub_good_def split: if_splits dest!: arg_cong [where f = length])
  with b show "\<exists>s' rest'. plat_reserve_memory (uboot_plat E) n s = Some (IVFRU_RET_SUCCESS, s') \<and> ub_good l s' \<and>
        plat_get_buffer (uboot_plat E) s' = Some (b, xs @ rest') \<and> nat n \<le> length (xs @ rest')"
    by (auto simp: uboot_plat_simps)
next
  fix l s xs rest and b :: nat
  assume "ub_good l s" "plat_get_buffer (uboot_plat E) s = Some (b, xs @ rest)"
  then show "\<exists>s'. plat_write_to_location (uboot_plat E) l s = Some (IVFRU_RET_SUCCESS, s') \<and> ub_good l s' \<and> ub_holds l s' xs"
    by (auto simp: uboot_plat_simps ub_good_def ub_get_buffer_def ub_holds_def)
next
  fix s s' :: ub and board off n
  assume "(ub_roms s, ub_flash s) = (ub_roms s', ub_flash s')"
  then show "plat_read_from_board (uboot_plat E) board off n s = plat_read_from_board (uboot_plat E) board off n s'"
    unfolding uboot_plat_def using ub_dev_read [of s s'] by simp
next
  fix l m s
  show "ub_good l (plat_store (uboot_plat E) m s) = ub_good l s"
    by (simp add: uboot_plat_def ub_good_store)
qed (auto simp: uboot_plat_simps ub_good_def ub_get_buffer_def ub_holds_def ub_store_def Let_def)

section \<open>The write-protect pin\<close>

lemma write_i2c_loop_ok:
  assumes "write_i2c_loop E off data rom = (IVFRU_RET_SUCCESS, rom')" "0 \<le> off" "nat off + length data \<le> length rom"
  shows "rom' = take (nat off) rom @ data @ drop (nat off + length data) rom"
  using assms
proof (induction E off data rom rule: write_i2c_loop.induct)
  case (2 E off b data rom)
  have i: "nat (off + 1) = Suc (nat off)" using 2(3) by (simp add: nat_add_distrib)
  have "rom' = take (nat (off + 1)) (rom[nat off := b]) @ data @ drop (nat (off + 1) + length data) (rom[nat off := b])"
    using 2 i by (simp split: if_splits)
  moreover have "take (Suc (nat off)) (rom[nat off := b]) = take (nat off) rom @ [b]"
    using 2(4) by (simp add: take_Suc_conv_app_nth)
  ultimately show ?case using i by simp
qed simp

lemma ub_log_simps [simp]:
  "ub_gpio_log (ub_log c s) = ub_gpio_log s @ [c]" "ub_roms (ub_log c s) = ub_roms s"
  by (simp_all add: ub_log_def)

lemma ub_write_i2c_log: "ub_write_i2c E bus addr off data s = (r, s') \<Longrightarrow> ub_gpio_log s' = ub_gpio_log s"
  by (auto simp: ub_write_i2c_def split: if_splits prod.splits)


text \<open>A board with an EEPROM on bus 1 at address 0x50 and a write-protect pin that is active high.\<close>

definition sample_ub_env :: ub_env where
  "sample_ub_env = \<lparr>ub_ipmi_node = 10,
     ub_subnode = (\<lambda>n name. if name = ''iv_mb'' then 11 else if name = ''wp'' then 12 else - 1),
     ub_prop = (\<lambda>n name. if name = ''i2c'' then Some [1, 0x50, 2] else if name = ''gpio'' then Some [7, 1] else None),
     ub_prop_str = (\<lambda>_ _. None), ub_uclass_ok = True, ub_flashdevs = [],
     ub_i2c_chip = (\<lambda>_ _. True), ub_i2c_read = (\<lambda>rom a n. Some (take (nat n) (drop (nat a) rom))),
     ub_i2c_write_ok = (\<lambda>_. True), ub_spi_probe = (\<lambda>_ _. False), ub_spi_read = (\<lambda>_ _ _. None),
     ub_sf_probe = (\<lambda>_ _. False), ub_sf_read = (\<lambda>_ _ _. None), ub_sf_update = (\<lambda>_ _ _. None),
     ub_gpio_number = (\<lambda>_ _ _. 0), ub_gpio_lookup = (\<lambda>_. Some 7), ub_gpio_request = (\<lambda>_. True),
     ub_gpio_dir = (\<lambda>_. True), ub_gpio_set = (\<lambda>_. True), ub_gpio_free = (\<lambda>_. True), ub_memcpy_ascending = True\<rparr>"

definition sample_ub :: ub where
  "sample_ub = \<lparr>ub_image_buffer = 0, ub_ram = [], ub_vars = (\<lambda>_. None),
     ub_roms = (\<lambda>_ _. [1, 2, 3, 4, 5]), ub_flash = (\<lambda>_ _. []), ub_gpio_log = []\<rparr>"


end
