(* ===== verification/Fru_Cli.thy ===== *)
theory Fru_Cli
  imports Fru_Uboot
begin

text \<open>
  The two front ends of the FRU tool: \<open>recipes-bsp/ivfru/files/ivfru.c\<close> (Linux) and
  \<open>recipes-bsp/u-boot/files/ivfru.c\<close> (U-Boot).  Their handlers are the same but for the meaning of a
  location and the number parser, so each is written once over the record \<open>cli\<close> and then instantiated.
  A handler takes the argument vector with the subcommand at position 0 and yields the return code,
  the platform state and what \<open>display\<close> printed; usage messages are not recorded.
\<close>

section \<open>Handlers\<close>

datatype cmd_ret = CMD_RET_SUCCESS | CMD_RET_FAILURE | CMD_RET_USAGE

type_synonym 's cli_res = "(cmd_ret \<times> 's \<times> display_item list) option"

text \<open>\<open>cli_location\<close> is \<open>None\<close> for a location that is rejected, and otherwise yields it with the
  state after \<open>ivfru_plat_set_buffer\<close> where that is called.  The number parsers yield the value and
  the rest of the string at \<open>*end\<close>, \<open>None\<close> if nothing was converted.\<close>

record ('l, 's) cli =
  cli_plat :: "('l, 's) plat"
  cli_location :: "string \<Rightarrow> 's \<Rightarrow> ('l \<times> 's) option"
  cli_strtol :: "string \<Rightarrow> (int \<times> string) option"
  cli_strtoul :: "string \<Rightarrow> (int \<times> string) option"

definition usage :: "'s \<Rightarrow> 's cli_res" where
  "usage s = Some (CMD_RET_USAGE, s, [])"

definition at_location :: "('l, 's) cli \<Rightarrow> string \<Rightarrow> 's \<Rightarrow> ('l \<Rightarrow> 's \<Rightarrow> 's cli_res) \<Rightarrow> 's cli_res" where
  "at_location C arg s k = (case cli_location C arg s of None \<Rightarrow> usage s | Some (l, s) \<Rightarrow> k l s)"

text \<open>\<open>strtol(arg, &end, 10)\<close> with the test that all of \<open>arg\<close> was converted.\<close>

definition int_arg :: "('l, 's) cli \<Rightarrow> string \<Rightarrow> int option" where
  "int_arg C arg = (case cli_strtol C arg of
     Some (v, r) \<Rightarrow> if r = [] then Some (to_int32 v) else None
   | None \<Rightarrow> if arg = [] then Some 0 else None)"

text \<open>Return codes: \<open>read\<close> and \<open>write\<close> fail on every error, the editing commands report an invalid
  argument as a usage error.\<close>

definition failing :: "(ivfru_ret \<times> 's) option \<Rightarrow> 's cli_res" where
  "failing r = map_option (\<lambda>(err, s).
     (if err = IVFRU_RET_SUCCESS then CMD_RET_SUCCESS else CMD_RET_FAILURE, s, [])) r"

definition usage_or_failing :: "(ivfru_ret \<times> 's) option \<Rightarrow> 's cli_res" where
  "usage_or_failing r = map_option (\<lambda>(err, s).
     (if err = IVFRU_RET_SUCCESS then CMD_RET_SUCCESS
      else if err = IVFRU_RET_INVALID_ARGUMENT then CMD_RET_USAGE else CMD_RET_FAILURE, s, [])) r"

definition do_ivfru_read :: "('l, 's) cli \<Rightarrow> string list \<Rightarrow> 's \<Rightarrow> 's cli_res" where
  "do_ivfru_read C argv s =
     (if length argv < 3 then usage s
      else let board = ivfru_str2board (cstr (argv ! 1)) in
        if board = MAX_IVFRU_BOARD then usage s
        else at_location C (argv ! 2) s (\<lambda>location s.
          failing (ivfru_read (cli_plat C) board location False s)))"

definition do_ivfru_write :: "('l, 's) cli \<Rightarrow> string list \<Rightarrow> 's \<Rightarrow> 's cli_res" where
  "do_ivfru_write C argv s =
     (if length argv < 3 then usage s
      else let board = ivfru_str2board (cstr (argv ! 1)) in
        if board = MAX_IVFRU_BOARD then usage s
        else at_location C (argv ! 2) s (\<lambda>location s.
          failing (ivfru_write (cli_plat C) board location s)))"

text \<open>The results of \<open>ivfru_display\<close> and \<open>ivfru_fix\<close> are dropped.\<close>

definition do_ivfru_display :: "('l, 's) cli \<Rightarrow> string list \<Rightarrow> 's \<Rightarrow> 's cli_res" where
  "do_ivfru_display C argv s =
     (if length argv < 2 then usage s
      else at_location C (argv ! 1) s (\<lambda>location s.
        map_option (\<lambda>(_, s, out). (CMD_RET_SUCCESS, s, out)) (ivfru_display (cli_plat C) location s)))"

definition do_ivfru_fix :: "('l, 's) cli \<Rightarrow> string list \<Rightarrow> 's \<Rightarrow> 's cli_res" where
  "do_ivfru_fix C argv s =
     (if length argv < 2 then usage s
      else at_location C (argv ! 1) s (\<lambda>location s.
        map_option (\<lambda>(_, s). (CMD_RET_SUCCESS, s, [])) (ivfru_fix (cli_plat C) location s)))"

definition do_ivfru_create :: "('l, 's) cli \<Rightarrow> string list \<Rightarrow> 's \<Rightarrow> 's cli_res" where
  "do_ivfru_create C argv s =
     (if length argv < 6 then usage s
      else at_location C (argv ! 1) s (\<lambda>location s.
        let mfr = (if 6 < length argv then Some (cstr (argv ! 6)) else None) in
        usage_or_failing (ivfru_create (cli_plat C) location (Some (cstr (argv ! 2))) (Some (cstr (argv ! 3)))
          (Some (cstr (argv ! 4))) (Some (cstr (argv ! 5))) mfr s)))"

definition do_ivfru_xcreate :: "('l, 's) cli \<Rightarrow> string list \<Rightarrow> 's \<Rightarrow> 's cli_res" where
  "do_ivfru_xcreate C argv s =
     (if length argv < 9 \<or> length argv = 10 then usage s
      else at_location C (argv ! 1) s (\<lambda>location s.
        case int_arg C (argv ! 4) of None \<Rightarrow> usage s | Some product_len \<Rightarrow>
        case int_arg C (argv ! 6) of None \<Rightarrow> usage s | Some sn_len \<Rightarrow>
        case int_arg C (argv ! 8) of None \<Rightarrow> usage s | Some pn_len \<Rightarrow>
        case (if 9 < length argv then map_option (Pair (Some (cstr (argv ! 9)))) (int_arg C (argv ! 10))
              else Some (None, 0)) of None \<Rightarrow> usage s | Some (mfr, mfr_len) \<Rightarrow>
        usage_or_failing (ivfru_xcreate (cli_plat C) location (Some (cstr (argv ! 2))) (Some (cstr (argv ! 3)))
          product_len (Some (cstr (argv ! 5))) sn_len (Some (cstr (argv ! 7))) pn_len mfr mfr_len s)))"

text \<open>Two characters at a time; an odd last one is never looked at.\<close>

fun hex_data :: "('l, 's) cli \<Rightarrow> string \<Rightarrow> byte list option" where
  "hex_data C (a # b # t) =
     (case cli_strtoul C [a, b] of
        Some (v, r) \<Rightarrow> if r = [] then map_option (Cons (of_int v)) (hex_data C t) else None
      | None \<Rightarrow> None)"
| "hex_data C _ = Some []"

text \<open>The array \<open>data\<close> has half as many elements as the argument has characters; none is undefined.\<close>

definition do_ivfru_add :: "('l, 's) cli \<Rightarrow> string list \<Rightarrow> 's \<Rightarrow> 's cli_res" where
  "do_ivfru_add C argv s =
     (if length argv < 4 then usage s
      else at_location C (argv ! 1) s (\<lambda>location s.
        case int_arg C (argv ! 2) of None \<Rightarrow> usage s | Some index \<Rightarrow>
        let len = length (argv ! 3) div 2 in
        if len = 0 then None
        else case hex_data C (argv ! 3) of None \<Rightarrow> usage s | Some data \<Rightarrow>
        usage_or_failing (ivfru_add (cli_plat C) location index data (int len) s)))"

definition do_ivfru_rm :: "('l, 's) cli \<Rightarrow> string list \<Rightarrow> 's \<Rightarrow> 's cli_res" where
  "do_ivfru_rm C argv s =
     (if length argv < 3 then usage s
      else at_location C (argv ! 1) s (\<lambda>location s.
        case int_arg C (argv ! 2) of None \<Rightarrow> usage s | Some index \<Rightarrow>
        usage_or_failing (ivfru_rm (cli_plat C) location index s)))"

section \<open>The Linux program\<close>

text \<open>The location is the path.\<close>

definition lx_cli :: "lx_env \<Rightarrow> (string, lx) cli" where
  "lx_cli E = \<lparr>cli_plat = linux_plat E, cli_location = (\<lambda>path s. Some (path, s)),
     cli_strtol = strtol 10, cli_strtoul = strtoul 16\<rparr>"

definition command_args :: "lx_env \<Rightarrow> (string \<times> (string list \<Rightarrow> lx \<Rightarrow> lx cli_res) \<times> nat \<times> nat) list" where
  "command_args E =
     [(''read'', do_ivfru_read (lx_cli E), 3, 3),
      (''write'', do_ivfru_write (lx_cli E), 3, 3),
      (''display'', do_ivfru_display (lx_cli E), 2, 2),
      (''fix'', do_ivfru_fix (lx_cli E), 2, 2),
      (''create'', do_ivfru_create (lx_cli E), 6, 7),
      (''xcreate'', do_ivfru_xcreate (lx_cli E), 9, 11),
      (''add'', do_ivfru_add (lx_cli E), 4, 4),
      (''rm'', do_ivfru_rm (lx_cli E), 3, 3)]"

definition ivfru_main :: "lx_env \<Rightarrow> string list \<Rightarrow> lx \<Rightarrow> lx cli_res" where
  "ivfru_main E argv s =
     (if length argv < 2 then usage s
      else let argv = tl argv in
        case find (\<lambda>(subcommand, _). subcommand = argv ! 0) (command_args E) of
          None \<Rightarrow> usage s
        | Some (_, do_function, min_args, max_args) \<Rightarrow>
            if length argv < min_args \<or> max_args < length argv then usage s
            else do_function argv s)"

section \<open>The U-Boot command\<close>

text \<open>The number parsers and the search for a subcommand (an index into the table) are U-Boot's.\<close>

record ub_lib =
  simple_strtol :: "string \<Rightarrow> (int \<times> string) option"
  simple_strtoul :: "string \<Rightarrow> (int \<times> string) option"
  find_cmd_tbl :: "string \<Rightarrow> string list \<Rightarrow> nat option"

text \<open>The location is an address, which becomes the image buffer.  Nothing converted leaves \<open>*end\<close>
  at the start, which is also the end of an empty argument.\<close>

definition ub_location :: "ub_lib \<Rightarrow> string \<Rightarrow> ub \<Rightarrow> (nat \<times> ub) option" where
  "ub_location U arg s = (case simple_strtoul U arg of
     Some (v, r) \<Rightarrow> if r = [] then Some (nat v, snd (ub_set_buffer (nat v) s)) else None
   | None \<Rightarrow> if arg = [] then Some (0, snd (ub_set_buffer 0 s)) else None)"

definition ub_cli :: "ub_env \<Rightarrow> ub_lib \<Rightarrow> (nat, ub) cli" where
  "ub_cli E U = \<lparr>cli_plat = uboot_plat E, cli_location = ub_location U,
     cli_strtol = simple_strtol U, cli_strtoul = simple_strtoul U\<rparr>"

definition ub_do_ivfru_read :: "ub_env \<Rightarrow> ub_lib \<Rightarrow> string list \<Rightarrow> ub \<Rightarrow> ub cli_res" where
  "ub_do_ivfru_read E U = do_ivfru_read (ub_cli E U)"

definition ub_do_ivfru_write :: "ub_env \<Rightarrow> ub_lib \<Rightarrow> string list \<Rightarrow> ub \<Rightarrow> ub cli_res" where
  "ub_do_ivfru_write E U = do_ivfru_write (ub_cli E U)"

definition ub_do_ivfru_display :: "ub_env \<Rightarrow> ub_lib \<Rightarrow> string list \<Rightarrow> ub \<Rightarrow> ub cli_res" where
  "ub_do_ivfru_display E U = do_ivfru_display (ub_cli E U)"

definition ub_do_ivfru_fix :: "ub_env \<Rightarrow> ub_lib \<Rightarrow> string list \<Rightarrow> ub \<Rightarrow> ub cli_res" where
  "ub_do_ivfru_fix E U = do_ivfru_fix (ub_cli E U)"

definition ub_do_ivfru_create :: "ub_env \<Rightarrow> ub_lib \<Rightarrow> string list \<Rightarrow> ub \<Rightarrow> ub cli_res" where
  "ub_do_ivfru_create E U = do_ivfru_create (ub_cli E U)"

definition ub_do_ivfru_xcreate :: "ub_env \<Rightarrow> ub_lib \<Rightarrow> string list \<Rightarrow> ub \<Rightarrow> ub cli_res" where
  "ub_do_ivfru_xcreate E U = do_ivfru_xcreate (ub_cli E U)"

definition ub_do_ivfru_add :: "ub_env \<Rightarrow> ub_lib \<Rightarrow> string list \<Rightarrow> ub \<Rightarrow> ub cli_res" where
  "ub_do_ivfru_add E U = do_ivfru_add (ub_cli E U)"

definition ub_do_ivfru_rm :: "ub_env \<Rightarrow> ub_lib \<Rightarrow> string list \<Rightarrow> ub \<Rightarrow> ub cli_res" where
  "ub_do_ivfru_rm E U = do_ivfru_rm (ub_cli E U)"

definition cmd_ivfru_sub :: "ub_env \<Rightarrow> ub_lib \<Rightarrow> (string \<times> (string list \<Rightarrow> ub \<Rightarrow> ub cli_res)) list" where
  "cmd_ivfru_sub E U =
     [(''read'', ub_do_ivfru_read E U), (''write'', ub_do_ivfru_write E U),
      (''display'', ub_do_ivfru_display E U), (''fix'', ub_do_ivfru_fix E U),
      (''create'', ub_do_ivfru_create E U), (''xcreate'', ub_do_ivfru_xcreate E U),
      (''add'', ub_do_ivfru_add E U), (''rm'', ub_do_ivfru_rm E U)]"

definition do_ivfru :: "ub_env \<Rightarrow> ub_lib \<Rightarrow> string list \<Rightarrow> ub \<Rightarrow> ub cli_res" where
  "do_ivfru E U argv s =
     (let argv = tl argv; t = cmd_ivfru_sub E U in
      if argv = [] then usage s
      else case find_cmd_tbl U (argv ! 0) (map fst t) of
             None \<Rightarrow> usage s
           | Some i \<Rightarrow> (snd (t ! i)) argv s)"

section \<open>Number arguments\<close>

lemma strtol_show_int:
  assumes "\<bar>i\<bar> < 2 ^ 63"
  shows "strtol 10 (show_int i) = Some (i, [])"
proof -
  let ?ds = "nat_digits 10 (nat \<bar>i\<bar>)"
  have d: "?ds \<noteq> []" "set ?ds \<subseteq> digit_char ` {..<10}"
    "foldl (\<lambda>n c. 10 * n + digit_val c) 0 ?ds = nat \<bar>i\<bar>"
    using nat_digits_value [of 10 "nat \<bar>i\<bar>"] by auto
  have "digit_char ` {..<10} \<subseteq> digit_char ` {..<16 :: nat}" by (intro image_mono) auto
  with d(2) have d16: "set ?ds \<subseteq> digit_char ` {..<16}" by (rule subset_trans)
  have "digit_val c < 10" if c: "c \<in> digit_char ` {..<10}" for c
    using c digit_val_char by auto
  with d(2) have dv: "\<forall>c \<in> set ?ds. digit_val c < 10" by blast
  have hp: "hex_prefix 10 ?ds = ?ds" by (simp add: hex_prefix_def split: list.split)
  have sp: "\<not> is_space (CHR ''-'')" by code_simp
  have "strto 10 (show_int i) = Some (i, [])"
    using d dv hp hd_plain [OF d16 d(1)] sp
    by (cases "i < 0") (simp_all add: strto_def show_int_def sign_split_minus Let_def takeWhile_digits)
  then show ?thesis using assms by (simp add: strtol_def)
qed

text \<open>Two hexadecimal digits of a byte.\<close>

definition hex_of :: "byte \<Rightarrow> string" where
  "hex_of b = [digit_char (unat b div 16), digit_char (unat b mod 16)]"

lemma strtoul_hex_of: "strtoul 16 (hex_of b) = Some (uint b, [])"
proof -
  have lt: "unat b div 16 < 16" "unat b mod 16 < 16"
    using unat_byte_le [of b] by (auto simp: less_eq_Suc_le)
  have p: "dropWhile is_space (hex_of b) = hex_of b" "sign_split (hex_of b) = (False, hex_of b)"
    by (rule hd_plain; use lt in \<open>simp add: hex_of_def\<close>)+
  have dv: "\<forall>c \<in> set (hex_of b). digit_val c < 16" using lt digit_val_char by (auto simp: hex_of_def)
  have "16 * (unat b div 16) + unat b mod 16 = unat b" by simp
  then have v: "foldl (\<lambda>n c. 16 * n + digit_val c) 0 (hex_of b) = unat b"
    using lt digit_val_char by (simp add: hex_of_def)
  have "hex_of b \<noteq> []" "hex_prefix 16 (hex_of b) = hex_of b" by (simp_all add: hex_of_def hex_prefix_def)
  then have "strto 16 (hex_of b) = Some (uint b, [])"
    using p v dv by (simp add: strto_def Let_def takeWhile_digits)
  moreover have "uint b < 2 ^ 64" using unsigned_less [of b, where 'a = int] by simp
  ultimately show ?thesis by (simp add: strtoul_def)
qed

lemma hex_data_of:
  assumes "\<And>b. cli_strtoul C (hex_of b) = Some (uint b, [])"
  shows "hex_data C (concat (map hex_of data)) = Some data"
proof (induction data)
  case (Cons b data)
  then show ?case using assms [of b] by (simp add: hex_of_def)
qed simp

lemma length_hex: "length (concat (map hex_of data)) = 2 * length data"
  by (induction data) (simp_all add: hex_of_def)

text \<open>The front end of \<open>add\<close> and \<open>rm\<close> on arguments in canonical form.\<close>

lemma do_ivfru_add_args:
  assumes "cli_location C loc s = Some (l, s1)"
    and "cli_strtol C (show_int index) = Some (index, [])" "\<And>b. cli_strtoul C (hex_of b) = Some (uint b, [])"
    and "- (2 ^ 31) \<le> index" "index < 2 ^ 31" "data \<noteq> []"
  shows "do_ivfru_add C [cmd, loc, show_int index, concat (map hex_of data)] s =
    usage_or_failing (ivfru_add (cli_plat C) l index data (int (length data)) s1)"
  using assms hex_data_of [of C data]
  by (simp add: do_ivfru_add_def at_location_def int_arg_def to_int32_id Let_def length_hex)

lemma do_ivfru_rm_args:
  assumes "cli_location C loc s = Some (l, s1)" "cli_strtol C (show_int index) = Some (index, [])"
    and "- (2 ^ 31) \<le> index" "index < 2 ^ 31"
  shows "do_ivfru_rm C [cmd, loc, show_int index] s = usage_or_failing (ivfru_rm (cli_plat C) l index s1)"
  using assms by (simp add: do_ivfru_rm_def at_location_def int_arg_def to_int32_id)

lemma command_args_find:
  "find (\<lambda>(subcommand, _). subcommand = ''add'') (command_args E) = Some (''add'', do_ivfru_add (lx_cli E), 4, 4)"
  "find (\<lambda>(subcommand, _). subcommand = ''rm'') (command_args E) = Some (''rm'', do_ivfru_rm (lx_cli E), 3, 3)"
  by (simp_all add: command_args_def)

section \<open>The commands end to end\<close>




section \<open>Usage errors\<close>

text \<open>What a usage error must not touch: files, EEPROMs and pins.\<close>

definition same_devices :: "lx \<Rightarrow> lx \<Rightarrow> bool" where
  "same_devices s s' \<longleftrightarrow> files s' = files s \<and> eeproms s' = eeproms s \<and> gpio_cmds s' = gpio_cmds s"

lemma reserve_same: "ivfru_plat_reserve_memory E n s = Some (r, s') \<Longrightarrow> same_devices s s'"
  by (auto simp: ivfru_plat_reserve_memory_def Let_def same_devices_def split: option.splits if_splits)

lemma read_location_same: "ivfru_plat_read_from_location E path s = Some (r, s') \<Longrightarrow> same_devices s s'"
  by (auto simp: ivfru_plat_read_from_location_def same_devices_def lx_store_def elim!: option_bindE
      split: option.split_asm if_split_asm prod.split_asm dest!: reserve_same)

lemma write_back_not_invalid: "write_back P l mem n s \<noteq> Some (IVFRU_RET_INVALID_ARGUMENT, s')"
  by (auto simp: write_back_def bind_eq_Some_conv split: prod.splits if_splits)

lemma with_buffer_same:
  assumes "with_buffer (linux_plat E) path s k = Some (IVFRU_RET_INVALID_ARGUMENT, s')"
    and "\<And>b mem s1. k b mem s1 = Some (IVFRU_RET_INVALID_ARGUMENT, s') \<Longrightarrow> same_devices s1 s'"
  shows "same_devices s s'"
  using assms read_location_same [of E path s]
  by (fastforce simp: with_buffer_def linux_plat_def same_devices_def elim!: option_bindE
      split: option.split_asm if_split_asm prod.split_asm)

lemma sum_bind_invalid:
  assumes "do { r \<leftarrow> m; (case r of Inl e \<Rightarrow> Some (e, s1) | Inr p \<Rightarrow> g p) } = Some (IVFRU_RET_INVALID_ARGUMENT, s')"
    and "\<And>p. g p \<noteq> Some (IVFRU_RET_INVALID_ARGUMENT, s')"
  shows "same_devices s1 s'"
proof -
  obtain r where "m = Some r" using assms(1) by (cases m) simp_all
  then show ?thesis using assms by (cases r) (simp_all add: same_devices_def)
qed

lemma rm_invalid_same:
  assumes "ivfru_rm (linux_plat E) path index s = Some (IVFRU_RET_INVALID_ARGUMENT, s')"
  shows "same_devices s s'"
  using assms unfolding ivfru_rm_def
  by (rule with_buffer_same) (erule sum_bind_invalid, auto simp: write_back_not_invalid split: prod.splits)

lemma add_invalid_same:
  assumes "ivfru_add (linux_plat E) path index data len s = Some (IVFRU_RET_INVALID_ARGUMENT, s')"
  shows "same_devices s s'"
  using assms unfolding ivfru_add_def
  by (rule with_buffer_same) (erule sum_bind_invalid,
      auto simp: write_back_not_invalid bind_eq_Some_conv split: prod.splits option.splits if_splits)

lemma xcreate_invalid_same:
  assumes "ivfru_xcreate (linux_plat E) path d a al b bl c cl m ml s = Some (IVFRU_RET_INVALID_ARGUMENT, s')"
  shows "same_devices s s'"
  using assms
  by (auto simp: ivfru_xcreate_def write_back_not_invalid linux_plat_def lx_store_def same_devices_def
      elim!: option_bindE split: option.split_asm sum.split_asm if_split_asm prod.split_asm dest!: reserve_same)

text \<open>
  C16: a usage error is harmless.  Whenever the Linux program exits with the usage status, be it for a
  malformed command line or because a command found its arguments invalid after reading the image,
  no file, no EEPROM and no pin has changed.
\<close>

theorem usage_leaves_devices_alone:
  assumes "ivfru_main E argv s = Some (CMD_RET_USAGE, s', out)"
  shows "files s' = files s \<and> eeproms s' = eeproms s \<and> gpio_cmds s' = gpio_cmds s"
proof -
  have "same_devices s s" by (simp add: same_devices_def)
  then have "same_devices s s'"
    using assms
    by (auto simp: ivfru_main_def usage_def command_args_def do_ivfru_read_def do_ivfru_write_def
        do_ivfru_display_def do_ivfru_fix_def do_ivfru_create_def do_ivfru_xcreate_def do_ivfru_add_def do_ivfru_rm_def
        at_location_def lx_cli_def failing_def usage_or_failing_def Let_def ivfru_create_def
        split: if_splits option.splits prod.splits
        dest!: rm_invalid_same add_invalid_same xcreate_invalid_same)
  then show ?thesis by (simp add: same_devices_def)
qed

theorem usage_leaves_devices_alone_witness:
  "\<exists>s'. ivfru_main sample_env [''ivfru'', ''rm'', ''fru.bin'', show_int 7] sample_file_lx = Some (CMD_RET_USAGE, s', []) \<and>
    files s' = files sample_file_lx \<and> eeproms s' = eeproms sample_file_lx \<and> gpio_cmds s' = gpio_cmds sample_file_lx"
proof -
  have "do_ivfru_rm (lx_cli sample_env) [''rm'', ''fru.bin'', show_int 7] sample_file_lx =
      usage_or_failing (ivfru_rm (linux_plat sample_env) ''fru.bin'' 7 sample_file_lx)"
    by (subst do_ivfru_rm_args) (auto simp: lx_cli_def strtol_show_int)
  then obtain s' where m: "ivfru_main sample_env [''ivfru'', ''rm'', ''fru.bin'', show_int 7] sample_file_lx
      = Some (CMD_RET_USAGE, s', [])"
    using lx.rm_bad_index [OF sample_file, of 7]
    by (auto simp: ivfru_main_def command_args_find usage_or_failing_def sample_fru_def)
  then show ?thesis using usage_leaves_devices_alone [OF m] by blast
qed

section \<open>The U-Boot command end to end\<close>

lemma ub_location_ok:
  assumes "simple_strtoul U loc = Some (int a, [])"
  shows "cli_location (ub_cli E U) loc s = Some (a, s\<lparr>ub_image_buffer := a\<rparr>)"
  using assms by (simp add: ub_cli_def ub_location_def ub_set_buffer_def)

lemma ub_good_at: "a \<noteq> 0 \<Longrightarrow> a + 2048 \<le> length (ub_ram s) \<Longrightarrow> ub_good a (s\<lparr>ub_image_buffer := a\<rparr>)"
  by (simp add: ub_good_def)

lemma image_at_ub_buffer:
  "image_at (ub_holds a (s\<lparr>ub_image_buffer := b\<rparr>)) ch f pad = image_at (ub_holds a s) ch f pad"
  by (simp add: image_at_def ub_holds_def)

text \<open>What the handlers rely on of U-Boot's library: the number parsers accept canonical numbers and
  a full subcommand name is found at its index.\<close>

definition ub_lib_ok :: "ub_lib \<Rightarrow> bool" where
  "ub_lib_ok U \<longleftrightarrow> (\<forall>i. - (2 ^ 31) \<le> i \<longrightarrow> i < 2 ^ 31 \<longrightarrow> simple_strtol U (show_int i) = Some (i, [])) \<and>
     (\<forall>b. simple_strtoul U (hex_of b) = Some (uint b, [])) \<and>
     (\<forall>names i. i < length names \<longrightarrow> distinct names \<longrightarrow> find_cmd_tbl U (names ! i) names = Some i)"

lemma find_sub:
  assumes "ub_lib_ok U" "i < 8"
  shows "find_cmd_tbl U (map fst (cmd_ivfru_sub E U) ! i) (map fst (cmd_ivfru_sub E U)) = Some i"
proof -
  have "distinct (map fst (cmd_ivfru_sub E U))" "length (map fst (cmd_ivfru_sub E U)) = 8"
    by (simp_all add: cmd_ivfru_sub_def)
  then show ?thesis using assms by (metis ub_lib_ok_def)
qed


definition sample_ub_lib :: ub_lib where
  "sample_ub_lib = \<lparr>simple_strtol = strtol 10, simple_strtoul = strtoul 16,
     find_cmd_tbl = (\<lambda>name names. map_of (zip names [0..<length names]) name)\<rparr>"

lemma sample_ub_lib_ok: "ub_lib_ok sample_ub_lib"
proof -
  have "\<bar>i\<bar> < 2 ^ 63" if "- (2 ^ 31) \<le> i" "i < 2 ^ 31" for i :: int using that by simp
  then show ?thesis
    by (auto simp: ub_lib_ok_def sample_ub_lib_def strtol_show_int strtoul_hex_of map_of_zip_nth)
qed

definition sample_ub_image :: ub where
  "sample_ub_image = sample_ub\<lparr>ub_ram := replicate 16 0 @ sample_image @ replicate 2048 0\<rparr>"


end
