(* ===== verification/Zap_Pool.thy ===== *)
theory Zap_Pool
  imports Prelude
begin

text \<open>
  The buffer pool of the ZAP driver (\<open>recipes-kernel/iv-zap/src/pool.c\<close>, \<open>pool.h\<close>): a region of
  physical memory cut into packets, each described by an entry that is on exactly one of three lists.
  Free packets are taken for filling, filled ones enter the FIFO, dequeued ones are in use until
  they are freed.

  \<open>unsigned long\<close> and pointers are 64-bit words.  The array \<open>pentries\<close> is a list, \<open>None\<close> the null
  pointer, and the linked lists hold indices into it, head first; an entry is unlinked from
  whatever list it is on.  \<open>None\<close> as a result is undefined behaviour or a call that does not return,
  in particular taking the spin lock while it is held.  Waking a queue is counted.
\<close>

section \<open>State\<close>

datatype cur_list = Freelist | Fifolist | Usedlist

record pool_entry =
  pe_pbuf :: u64
  pe_flags :: u64
  pe_len :: u64
  pe_ooblen :: u64
  pe_cur_list :: cur_list

record pool =
  pool_size :: u64
  buf_paddr :: u64
  packet_size :: u64
  aligned_packet_size :: u64
  num_packets :: u64
  pentries :: "pool_entry list option"
  ppackets :: u64
  pool_lock :: bool
  freeq :: nat
  fifoq :: nat
  freelist :: "nat list"
  fifolist :: "nat list"
  usedlist :: "nat list"

text \<open>\<open>sizeof(struct pool_entry)\<close> on a 64-bit kernel: five words and a list head of two.\<close>

definition sizeof_pool_entry :: u64 where "sizeof_pool_entry = 56"

definition PAGE_ALIGN :: "u64 \<Rightarrow> u64" where
  "PAGE_ALIGN x = (x + 4095) AND NOT 4095"

definition pool_buf_available :: "pool \<Rightarrow> bool" where
  "pool_buf_available p \<longleftrightarrow> freelist p \<noteq> []"

definition pool_fifo_buf_available :: "pool \<Rightarrow> bool" where
  "pool_fifo_buf_available p \<longleftrightarrow> fifolist p \<noteq> []"

section \<open>Kernel primitives\<close>

definition spin_lock :: "pool \<Rightarrow> pool option" where
  "spin_lock p = (if pool_lock p then None else Some (p\<lparr>pool_lock := True\<rparr>))"

definition spin_unlock :: "pool \<Rightarrow> pool" where
  "spin_unlock p = p\<lparr>pool_lock := False\<rparr>"

definition entry :: "pool \<Rightarrow> nat \<Rightarrow> pool_entry option" where
  "entry p i = (case pentries p of None \<Rightarrow> None | Some es \<Rightarrow> if i < length es then Some (es ! i) else None)"

definition set_entry :: "nat \<Rightarrow> pool_entry \<Rightarrow> pool \<Rightarrow> pool" where
  "set_entry i e p = p\<lparr>pentries := map_option (\<lambda>es. es[i := e]) (pentries p)\<rparr>"

text \<open>\<open>list_del\<close>, and \<open>list_move\<close> to the head or tail of a list.\<close>

definition list_del :: "nat \<Rightarrow> pool \<Rightarrow> pool" where
  "list_del i p = p\<lparr>freelist := removeAll i (freelist p), fifolist := removeAll i (fifolist p),
     usedlist := removeAll i (usedlist p)\<rparr>"

definition list_move_used :: "nat \<Rightarrow> pool \<Rightarrow> pool" where
  "list_move_used i p = (let p = list_del i p in p\<lparr>usedlist := i # usedlist p\<rparr>)"

definition list_move_tail_free :: "nat \<Rightarrow> pool \<Rightarrow> pool" where
  "list_move_tail_free i p = (let p = list_del i p in p\<lparr>freelist := freelist p @ [i]\<rparr>)"

definition list_move_tail_fifo :: "nat \<Rightarrow> pool \<Rightarrow> pool" where
  "list_move_tail_fifo i p = (let p = list_del i p in p\<lparr>fifolist := fifolist p @ [i]\<rparr>)"

section \<open>Private functions\<close>

definition pentry2pbuf :: "pool_entry \<Rightarrow> u64" where
  "pentry2pbuf e = pe_pbuf e"

text \<open>The index of the entry for an address; the offset is cut to 32 bits before the division.\<close>

definition pbuf2pentry :: "pool \<Rightarrow> u64 \<Rightarrow> nat option" where
  "pbuf2pentry p pbuf =
     (if aligned_packet_size p = 0 then None
      else Some (unat (ucast (ucast (pbuf - ppackets p) :: u32) div aligned_packet_size p)))"

definition getbuf_raw :: "pool \<Rightarrow> (u64 \<times> u64 \<times> pool) option" where
  "getbuf_raw p = (case freelist p of
     [] \<Rightarrow> None
   | i # _ \<Rightarrow> do {
       e \<leftarrow> entry p i;
       let p = set_entry i (e\<lparr>pe_cur_list := Usedlist\<rparr>) p;
       Some (pentry2pbuf e, pe_len e, list_move_used i p) })"

definition freebuf_raw :: "pool \<Rightarrow> u64 \<Rightarrow> pool option" where
  "freebuf_raw p pbuf = do {
     i \<leftarrow> pbuf2pentry p pbuf;
     e \<leftarrow> entry p i;
     let p = set_entry i (e\<lparr>pe_cur_list := Freelist, pe_len := packet_size p\<rparr>) p;
     Some (list_move_tail_free i p) }"

definition enqbuf_raw :: "pool \<Rightarrow> u64 \<Rightarrow> u64 \<Rightarrow> u64 \<Rightarrow> u64 \<Rightarrow> pool option" where
  "enqbuf_raw p pbuf len ooblen flags = do {
     i \<leftarrow> pbuf2pentry p pbuf;
     e \<leftarrow> entry p i;
     let p = set_entry i (e\<lparr>pe_cur_list := Fifolist, pe_len := len, pe_ooblen := ooblen, pe_flags := flags\<rparr>) p;
     Some (list_move_tail_fifo i p) }"

text \<open>A dequeued buffer: address, length, out-of-band length and flags.\<close>

type_synonym deq = "u64 \<times> u64 \<times> u64 \<times> u64"

definition deqbuf_raw :: "pool \<Rightarrow> (deq \<times> pool) option" where
  "deqbuf_raw p = (case fifolist p of
     [] \<Rightarrow> None
   | i # _ \<Rightarrow> do {
       e \<leftarrow> entry p i;
       let p = set_entry i (e\<lparr>pe_cur_list := Usedlist\<rparr>) p;
       Some ((pentry2pbuf e, pe_len e, pe_ooblen e, pe_flags e), list_move_used i p) })"

text \<open>The index may equal \<open>num_packets\<close> when the entry is read.\<close>

definition is_valid_pbuf :: "pool \<Rightarrow> u64 \<Rightarrow> bool option" where
  "is_valid_pbuf p pbuf =
     (if pbuf < ppackets p then Some False
      else if buf_paddr p + pool_size p < pbuf then Some False
      else do {
        i \<leftarrow> pbuf2pentry p pbuf;
        if unat (num_packets p) < i then Some False
        else do { e \<leftarrow> entry p i; Some (pe_pbuf e = pbuf) } })"

section \<open>Public functions\<close>

definition pool_create :: "pool \<Rightarrow> u64 \<Rightarrow> u64 \<Rightarrow> int \<times> pool" where
  "pool_create p paddr sz = (0, p\<lparr>pool_size := sz, buf_paddr := paddr, freeq := 0, fifoq := 0,
     freelist := [], fifolist := [], usedlist := [], pool_lock := False\<rparr>)"

definition pool_destroy :: "pool \<Rightarrow> pool" where
  "pool_destroy p = p\<lparr>pentries := None, buf_paddr := 0\<rparr>"

definition pool_total_size :: "pool \<Rightarrow> u64" where
  "pool_total_size p = pool_size p"

definition pool_packets_offset :: "pool \<Rightarrow> u64" where
  "pool_packets_offset p = 0"

definition pool_offset2pbuf :: "pool \<Rightarrow> u64 \<Rightarrow> u64" where
  "pool_offset2pbuf p offset = ppackets p + offset"

definition pool_pbuf2offset :: "pool \<Rightarrow> u64 \<Rightarrow> u64" where
  "pool_pbuf2offset p pbuf = pbuf - ppackets p"

text \<open>The sizes computed by \<open>pool_resize\<close>.\<close>

definition resize_geometry :: "u64 \<Rightarrow> u64 \<Rightarrow> pool \<Rightarrow> pool option" where
  "resize_geometry psize max_packets p =
     (let aligned = (psize + 3) AND NOT 3;
          alloc_per_packet = sizeof_pool_entry + aligned
      in if alloc_per_packet = 0 then None
         else Some (p\<lparr>packet_size := psize, aligned_packet_size := aligned,
                num_packets := min (pool_size p div alloc_per_packet) max_packets, ppackets := buf_paddr p\<rparr>))"

definition fresh_entry :: "pool \<Rightarrow> nat \<Rightarrow> pool_entry" where
  "fresh_entry p i = \<lparr>pe_pbuf = ppackets p + of_nat i * aligned_packet_size p, pe_flags = 0,
     pe_len = packet_size p, pe_ooblen = 0, pe_cur_list = Freelist\<rparr>"

text \<open>\<open>alloc n\<close> tells whether \<open>kzalloc\<close> grants \<open>n\<close> bytes.  Each entry is added at the head of the
  free list; the loop counter is an \<open>int\<close>.  The early return keeps the lock.\<close>

definition pool_resize :: "(u64 \<Rightarrow> bool) \<Rightarrow> pool \<Rightarrow> u64 \<Rightarrow> u64 \<Rightarrow> u64 \<Rightarrow> (int \<times> pool) option" where
  "pool_resize alloc p psize max_packets force =
     (if pool_size p - PAGE_ALIGN sizeof_pool_entry < psize then Some (- ENOMEM, p)
      else do {
        p \<leftarrow> spin_lock p;
        p \<leftarrow> resize_geometry psize max_packets p;
        if \<not> alloc (num_packets p * sizeof_pool_entry) then Some (- ENOMEM, p\<lparr>pentries := None\<rparr>)
        else let n = unat (num_packets p) in
          if 2 ^ 31 \<le> n then None
          else Some (0, spin_unlock (p\<lparr>pentries := Some (map (fresh_entry p) [0..<n]),
                 freelist := rev [0..<n], fifolist := [], usedlist := []\<rparr>)) })"

definition pool_busy :: "pool \<Rightarrow> (int \<times> pool) option" where
  "pool_busy p = do {
     p \<leftarrow> spin_lock p;
     let busy = (usedlist p \<noteq> []);
     Some (if busy then - EBUSY else 0, spin_unlock p) }"

definition pool_bufinuse :: "pool \<Rightarrow> u64 \<Rightarrow> bool option" where
  "pool_bufinuse p pbuf = do { i \<leftarrow> pbuf2pentry p pbuf; e \<leftarrow> entry p i; Some (pe_cur_list e = Usedlist) }"

definition pool_getbuf_try :: "pool \<Rightarrow> (int \<times> (u64 \<times> u64) option \<times> pool) option" where
  "pool_getbuf_try p = do {
     p \<leftarrow> spin_lock p;
     if freelist p \<noteq> []
     then do { (pbuf, len, p) \<leftarrow> getbuf_raw p; Some (1, Some (pbuf, len), spin_unlock p) }
     else Some (0, None, spin_unlock p) }"

text \<open>How a wait on a queue ends: by a signal, by the timeout, or woken, with the pool as the other
  contexts have left it by the time the lock is about to be taken again.  A waiting function takes
  the sequence of outcomes; when it is exhausted, the function is still waiting.\<close>

datatype wait = Interrupted | Timed_Out | Woken pool

fun pool_getbuf_timeout :: "wait list \<Rightarrow> pool \<Rightarrow> (int \<times> (u64 \<times> u64) option \<times> pool) option" where
  "pool_getbuf_timeout ws p = do {
     p \<leftarrow> spin_lock p;
     if freelist p = []
     then (case ws of
             [] \<Rightarrow> None
           | Interrupted # _ \<Rightarrow> Some (- ERESTARTSYS, None, spin_unlock p)
           | Timed_Out # _ \<Rightarrow> Some (- EAGAIN, None, spin_unlock p)
           | Woken p # ws \<Rightarrow> pool_getbuf_timeout ws p)
     else do { (pbuf, len, p) \<leftarrow> getbuf_raw p; Some (0, Some (pbuf, len), spin_unlock p) } }"

declare pool_getbuf_timeout.simps [simp del]

text \<open>Without a timeout the wait cannot time out.\<close>

definition pool_getbuf :: "wait list \<Rightarrow> pool \<Rightarrow> (int \<times> (u64 \<times> u64) option \<times> pool) option" where
  "pool_getbuf ws p = pool_getbuf_timeout (filter (\<lambda>w. w \<noteq> Timed_Out) ws) p"

definition pool_freebuf :: "pool \<Rightarrow> u64 \<Rightarrow> (int \<times> pool) option" where
  "pool_freebuf p pbuf = do {
     p \<leftarrow> spin_lock p;
     valid \<leftarrow> is_valid_pbuf p pbuf;
     ok \<leftarrow> (if valid then pool_bufinuse p pbuf else Some False);
     if \<not> ok then Some (- EINVAL, spin_unlock p)
     else do {
       p \<leftarrow> freebuf_raw p pbuf;
       let p = spin_unlock p;
       Some (0, p\<lparr>freeq := freeq p + 1\<rparr>) } }"

definition pool_enqbuf :: "pool \<Rightarrow> u64 \<Rightarrow> u64 \<Rightarrow> u64 \<Rightarrow> u64 \<Rightarrow> (int \<times> pool) option" where
  "pool_enqbuf p pbuf len ooblen flags = do {
     p \<leftarrow> spin_lock p;
     valid \<leftarrow> is_valid_pbuf p pbuf;
     ok \<leftarrow> (if valid then pool_bufinuse p pbuf else Some False);
     if \<not> ok then Some (- EINVAL, spin_unlock p)
     else do {
       p \<leftarrow> enqbuf_raw p pbuf len ooblen flags;
       let p = spin_unlock p;
       Some (0, p\<lparr>fifoq := fifoq p + 1\<rparr>) } }"

definition pool_deqbuf_try :: "pool \<Rightarrow> (int \<times> deq option \<times> pool) option" where
  "pool_deqbuf_try p = do {
     p \<leftarrow> spin_lock p;
     if fifolist p \<noteq> []
     then do { (d, p) \<leftarrow> deqbuf_raw p; Some (1, Some d, spin_unlock p) }
     else Some (0, None, spin_unlock p) }"

fun pool_deqbuf_timeout :: "wait list \<Rightarrow> pool \<Rightarrow> (int \<times> deq option \<times> pool) option" where
  "pool_deqbuf_timeout ws p = do {
     p \<leftarrow> spin_lock p;
     if fifolist p = []
     then (case ws of
             [] \<Rightarrow> None
           | Interrupted # _ \<Rightarrow> Some (- ERESTARTSYS, None, spin_unlock p)
           | Timed_Out # _ \<Rightarrow> Some (- EAGAIN, None, spin_unlock p)
           | Woken p # ws \<Rightarrow> pool_deqbuf_timeout ws p)
     else do { (d, p) \<leftarrow> deqbuf_raw p; Some (0, Some d, spin_unlock p) } }"

declare pool_deqbuf_timeout.simps [simp del]

definition pool_deqbuf :: "wait list \<Rightarrow> pool \<Rightarrow> (int \<times> deq option \<times> pool) option" where
  "pool_deqbuf ws p = pool_deqbuf_timeout (filter (\<lambda>w. w \<noteq> Timed_Out) ws) p"

definition pool_freebufs_ready :: "pool \<Rightarrow> (bool \<times> pool) option" where
  "pool_freebufs_ready p = do { p \<leftarrow> spin_lock p; let ready = (freelist p \<noteq> []); Some (ready, spin_unlock p) }"

definition pool_fifobufs_ready :: "pool \<Rightarrow> (bool \<times> pool) option" where
  "pool_fifobufs_ready p = do { p \<leftarrow> spin_lock p; let ready = (fifolist p \<noteq> []); Some (ready, spin_unlock p) }"

definition pool_flush :: "(u64 \<Rightarrow> bool) \<Rightarrow> pool \<Rightarrow> (int \<times> pool) option" where
  "pool_flush alloc p = pool_resize alloc p (packet_size p) (num_packets p) 1"

definition pool_paddr :: "pool \<Rightarrow> u64" where
  "pool_paddr p = buf_paddr p"

text \<open>The lines printed for the entries of a list (address, flags, length, marked bad), if asked for,
  and the three counts.\<close>

definition dump_list :: "pool \<Rightarrow> cur_list \<Rightarrow> nat list \<Rightarrow> (cur_list \<times> u64 \<times> u64 \<times> u64 \<times> bool) list option" where
  "dump_list p l is = those (map (\<lambda>i. map_option (\<lambda>e.
     (l, pe_pbuf e, pe_flags e, pe_len e, pe_cur_list e \<noteq> l)) (entry p i)) is)"

definition pool_dump :: "pool \<Rightarrow> u64 \<Rightarrow>
  ((cur_list \<times> u64 \<times> u64 \<times> u64 \<times> bool) list \<times> (nat \<times> nat \<times> nat) \<times> pool) option"
where
  "pool_dump p flags = do {
     p \<leftarrow> spin_lock p;
     a \<leftarrow> dump_list p Freelist (freelist p);
     b \<leftarrow> dump_list p Fifolist (fifolist p);
     c \<leftarrow> dump_list p Usedlist (usedlist p);
     Some (if flags = 0 then a @ b @ c else [], (length a, length b, length c), spin_unlock p) }"

section \<open>Geometry\<close>

text \<open>The address of packet \<open>i\<close>, and what makes the address arithmetic exact: no region beyond the
  address space, and a size whose offsets survive the cut to 32 bits.\<close>

definition packet :: "pool \<Rightarrow> nat \<Rightarrow> u64" where
  "packet p i = ppackets p + of_nat i * aligned_packet_size p"

definition pool_geom :: "pool \<Rightarrow> bool" where
  "pool_geom p \<longleftrightarrow> aligned_packet_size p \<noteq> 0 \<and> packet_size p \<le> aligned_packet_size p \<and> ppackets p = buf_paddr p \<and>
     unat (pool_size p) < 2 ^ 32 \<and> unat (buf_paddr p) + unat (pool_size p) < 2 ^ 64 \<and>
     unat (num_packets p) * unat (aligned_packet_size p) \<le> unat (pool_size p) \<and> unat (num_packets p) < 2 ^ 31"

lemma packet_value:
  assumes "pool_geom p" "i \<le> unat (num_packets p)"
  shows "unat (packet p i) = unat (buf_paddr p) + i * unat (aligned_packet_size p)"
    "i * unat (aligned_packet_size p) \<le> unat (pool_size p)"
proof -
  let ?a = "aligned_packet_size p"
  have "i * unat ?a \<le> unat (num_packets p) * unat ?a" using assms(2) by simp
  then show b: "i * unat ?a \<le> unat (pool_size p)" using assms(1) unfolding pool_geom_def by linarith
  have "packet p i = buf_paddr p + of_nat (i * unat ?a)" using assms(1) by (simp add: packet_def pool_geom_def)
  then show "unat (packet p i) = unat (buf_paddr p) + i * unat ?a"
    using unat_plus_small [of "buf_paddr p" "i * unat ?a"] b assms(1) by (simp add: pool_geom_def)
qed

text \<open>Within the bounds test the index is the exact quotient.\<close>

lemma pbuf2pentry_exact:
  assumes g: "pool_geom p" and b: "ppackets p \<le> pbuf" "pbuf \<le> buf_paddr p + pool_size p"
  shows "pbuf2pentry p pbuf = Some ((unat pbuf - unat (buf_paddr p)) div unat (aligned_packet_size p))"
proof -
  have pp: "ppackets p = buf_paddr p" using g by (simp add: pool_geom_def)
  have "unat (buf_paddr p + pool_size p) = unat (buf_paddr p) + unat (pool_size p)"
    using g unat_plus_small [of "buf_paddr p" "unat (pool_size p)"] by (simp add: pool_geom_def)
  then have d: "unat pbuf - unat (buf_paddr p) < 2 ^ 32"
    using g b(2) unfolding pool_geom_def word_le_nat_alt by linarith
  have "unat (pbuf - ppackets p) = unat pbuf - unat (buf_paddr p)"
    using b(1) pp by (simp add: unat_sub)
  then have "unat (ucast (ucast (pbuf - ppackets p) :: u32) :: u64) = unat pbuf - unat (buf_paddr p)"
    using d by (simp add: unsigned_ucast_eq unsigned_take_bit_eq take_bit_nat_eq_self)
  then show ?thesis using g by (simp add: pbuf2pentry_def pool_geom_def unat_div)
qed

lemma packet_bounds:
  assumes "pool_geom p" "i \<le> unat (num_packets p)"
  shows "ppackets p \<le> packet p i" "packet p i \<le> buf_paddr p + pool_size p"
proof -
  have "unat (buf_paddr p + pool_size p) = unat (buf_paddr p) + unat (pool_size p)"
    using assms unat_plus_small [of "buf_paddr p" "unat (pool_size p)"] by (simp add: pool_geom_def)
  then show "ppackets p \<le> packet p i" "packet p i \<le> buf_paddr p + pool_size p"
    using packet_value [OF assms] assms(1) by (simp_all add: word_le_nat_alt pool_geom_def)
qed

lemma pbuf2pentry_packet:
  assumes "pool_geom p" "i \<le> unat (num_packets p)"
  shows "pbuf2pentry p (packet p i) = Some i"
proof -
  have "0 < unat (aligned_packet_size p)" using assms(1) by (simp add: pool_geom_def unat_gt_0)
  then show ?thesis
    using pbuf2pentry_exact [OF assms(1) packet_bounds [OF assms]] packet_value(1) [OF assms] by simp
qed

lemma packet_inj:
  assumes "pool_geom p" "i \<le> unat (num_packets p)" "j \<le> unat (num_packets p)" "packet p i = packet p j"
  shows "i = j"
  using pbuf2pentry_packet [OF assms(1,2)] pbuf2pentry_packet [OF assms(1,3)] unfolding assms(4) by simp

section \<open>The invariant\<close>

text \<open>The lock is free, every entry is on exactly one list and knows which, and free entries have
  the full packet length.\<close>

definition on_list :: "pool_entry list \<Rightarrow> cur_list \<Rightarrow> nat list \<Rightarrow> bool" where
  "on_list es l is \<longleftrightarrow> (\<forall>i \<in> set is. pe_cur_list (es ! i) = l)"

definition pool_inv :: "pool \<Rightarrow> bool" where
  "pool_inv p \<longleftrightarrow> \<not> pool_lock p \<and> pool_geom p \<and> (case pentries p of None \<Rightarrow> False | Some es \<Rightarrow>
     length es = unat (num_packets p) \<and>
     distinct (freelist p @ fifolist p @ usedlist p) \<and>
     set (freelist p @ fifolist p @ usedlist p) = {..<length es} \<and>
     (\<forall>i < length es. pe_pbuf (es ! i) = packet p i) \<and>
     on_list es Freelist (freelist p) \<and> on_list es Fifolist (fifolist p) \<and> on_list es Usedlist (usedlist p) \<and>
     (\<forall>i \<in> set (freelist p). pe_len (es ! i) = packet_size p))"

lemma pool_invE:
  assumes "pool_inv p"
  obtains es where "pentries p = Some es" "length es = unat (num_packets p)"
  using assms by (auto simp: pool_inv_def split: option.splits)

text \<open>What clients see: the free and used buffers by address, and the FIFO contents.\<close>

definition free_bufs :: "pool \<Rightarrow> u64 set" where
  "free_bufs p = packet p ` set (freelist p)"

definition used_bufs :: "pool \<Rightarrow> u64 set" where
  "used_bufs p = packet p ` set (usedlist p)"

definition fifo_view :: "pool \<Rightarrow> pool_entry list \<Rightarrow> nat list \<Rightarrow> deq list" where
  "fifo_view p es is = map (\<lambda>i. (packet p i, pe_len (es ! i), pe_ooblen (es ! i), pe_flags (es ! i))) is"

definition fifo_bufs :: "pool \<Rightarrow> deq list" where
  "fifo_bufs p = (case pentries p of None \<Rightarrow> [] | Some es \<Rightarrow> fifo_view p es (fifolist p))"

lemma fifo_view_append [simp]:
  "fifo_view p es (is @ [i]) = fifo_view p es is @ [(packet p i, pe_len (es ! i), pe_ooblen (es ! i), pe_flags (es ! i))]"
  by (simp add: fifo_view_def)

lemma fifo_view_update:
  assumes "i \<notin> set is \<or> (pe_len e = pe_len (es ! i) \<and> pe_ooblen e = pe_ooblen (es ! i) \<and> pe_flags e = pe_flags (es ! i))"
    and "packet p' = packet p"
  shows "fifo_view p' (es[i := e]) is = fifo_view p es is"
  using assms by (auto simp: fifo_view_def nth_list_update_if)

lemma lock_unlock [simp]: "\<not> pool_lock p \<Longrightarrow> spin_unlock (p\<lparr>pool_lock := True\<rparr>) = p"
  by (simp add: spin_unlock_def)

lemma inv_index:
  assumes "pool_inv p" "i \<in> set (freelist p @ fifolist p @ usedlist p)"
  shows "i < unat (num_packets p)"
  using assms by (auto simp: pool_inv_def split: option.splits)

section \<open>The operations on a pool in good order\<close>

definition geometry :: "pool \<Rightarrow> u64 \<times> u64 \<times> u64 \<times> u64 \<times> u64 \<times> u64" where
  "geometry p = (pool_size p, buf_paddr p, packet_size p, aligned_packet_size p, num_packets p, ppackets p)"

lemma geometry_packet: "geometry p' = geometry p \<Longrightarrow> packet p' = packet p"
  by (rule ext) (simp add: geometry_def packet_def)

lemma inv_update:
  assumes "pool_inv p" "pentries p = Some es" "geometry p' = geometry p" "\<not> pool_lock p'"
    and "pentries p' = Some (es[i := e])" "pe_pbuf e = packet p i"
    and "distinct (freelist p' @ fifolist p' @ usedlist p')"
    and "set (freelist p' @ fifolist p' @ usedlist p') = {..<length es}"
    and "on_list (es[i := e]) Freelist (freelist p')" "on_list (es[i := e]) Fifolist (fifolist p')"
    and "on_list (es[i := e]) Usedlist (usedlist p')"
    and "\<forall>j \<in> set (freelist p'). pe_len (es[i := e] ! j) = packet_size p"
  shows "pool_inv p'"
proof -
  have "pool_geom p'" using assms(1,3) by (auto simp: pool_inv_def pool_geom_def geometry_def)
  then show ?thesis
    using assms geometry_packet [OF assms(3)]
    by (auto simp: pool_inv_def geometry_def nth_list_update_if)
qed

lemma inv_lists:
  assumes "pool_inv p" "pentries p = Some es"
  shows "length es = unat (num_packets p)" "distinct (freelist p @ fifolist p @ usedlist p)"
    "set (freelist p @ fifolist p @ usedlist p) = {..<length es}" "\<forall>i < length es. pe_pbuf (es ! i) = packet p i"
    "on_list es Freelist (freelist p)" "on_list es Fifolist (fifolist p)" "on_list es Usedlist (usedlist p)"
    "\<forall>i \<in> set (freelist p). pe_len (es ! i) = packet_size p" "\<not> pool_lock p" "pool_geom p"
  using assms by (auto simp: pool_inv_def)

lemma on_list_update: "on_list es l is \<Longrightarrow> i \<notin> set is \<Longrightarrow> on_list (es[i := e]) l is"
  by (auto simp: on_list_def nth_list_update_if)

lemma on_list_removeAll: "on_list es l is \<Longrightarrow> on_list (es[i := e]) l (removeAll i is)"
  by (auto simp: on_list_def nth_list_update_if)

text \<open>The common part of enqueueing and freeing: an entry in use goes to the tail of another list.\<close>

lemma release_inv:
  assumes inv: "pool_inv p" and es: "pentries p = Some es" and i: "i \<in> set (usedlist p)"
    and p': "geometry p' = geometry p" "\<not> pool_lock p'" "pentries p' = Some (es[i := e])" "pe_pbuf e = packet p i"
      "usedlist p' = removeAll i (usedlist p)"
    and l: "pe_cur_list e = Fifolist \<and> freelist p' = freelist p \<and> fifolist p' = fifolist p @ [i] \<or>
      pe_cur_list e = Freelist \<and> pe_len e = packet_size p \<and> freelist p' = freelist p @ [i] \<and> fifolist p' = fifolist p"
  shows "pool_inv p'"
proof -
  note L = inv_lists [OF inv es]
  have n: "i < length es" "i \<notin> set (freelist p)" "i \<notin> set (fifolist p)" using L(2,3) i by auto
  have e: "es[i := e] ! i = e" using n(1) by simp
  have u: "on_list (es[i := e]) Usedlist (usedlist p')" using L(7) p'(5) by (simp add: on_list_removeAll)
  have o: "on_list (es[i := e]) Freelist (freelist p)" "on_list (es[i := e]) Fifolist (fifolist p)"
    using L(5,6) n by (simp_all add: on_list_update)
  have len: "\<forall>j \<in> set (freelist p'). pe_len (es[i := e] ! j) = packet_size p"
    using l L(8) n e by (elim disjE) (auto simp: nth_list_update_if)
  have o': "on_list (es[i := e]) Freelist (freelist p')" "on_list (es[i := e]) Fifolist (fifolist p')"
    using o l e by (elim disjE; simp add: on_list_def)+
  have d: "distinct (freelist p' @ fifolist p' @ usedlist p')"
    using L(2) n l p'(5) by (elim disjE) (auto simp: distinct_removeAll)
  have "set (freelist p' @ fifolist p' @ usedlist p') = set (freelist p @ fifolist p @ usedlist p)"
    using i l p'(5) by (elim disjE) auto
  then have s: "set (freelist p' @ fifolist p' @ usedlist p') = {..<length es}" unfolding L(3) .
  show ?thesis by (rule inv_update [OF inv es p'(1-4) d s o' u len])
qed

text \<open>Taking an entry from the head of the free list or the FIFO.\<close>

lemma take_inv:
  assumes inv: "pool_inv p" and es: "pentries p = Some es"
    and p': "geometry p' = geometry p" "\<not> pool_lock p'" "pentries p' = Some (es[i := e])"
      "e = (es ! i)\<lparr>pe_cur_list := Usedlist\<rparr>" "usedlist p' = i # usedlist p"
    and l: "freelist p = i # freelist p' \<and> fifolist p' = fifolist p \<or>
      fifolist p = i # fifolist p' \<and> freelist p' = freelist p"
  shows "pool_inv p'"
proof -
  note L = inv_lists [OF inv es]
  have "i \<in> set (freelist p @ fifolist p @ usedlist p)" using l by (elim disjE) simp_all
  then have n: "i < length es" unfolding L(3) by simp
  have out: "i \<notin> set (freelist p')" "i \<notin> set (fifolist p')" "i \<notin> set (usedlist p)"
    using L(2) l by (elim disjE; simp)+
  have e: "es[i := e] ! i = e" "pe_pbuf e = packet p i" using n L(4) p'(4) by simp_all
  have "on_list es Freelist (freelist p')" "on_list es Fifolist (fifolist p')"
    using L(5,6) l by (auto simp: on_list_def)
  then have o: "on_list (es[i := e]) Freelist (freelist p')" "on_list (es[i := e]) Fifolist (fifolist p')"
    using out by (simp_all add: on_list_update)
  have u: "on_list (es[i := e]) Usedlist (usedlist p')"
    using on_list_update [OF L(7) out(3)] e p'(4,5) by (auto simp: on_list_def)
  have len: "\<forall>j \<in> set (freelist p'). pe_len (es[i := e] ! j) = packet_size p"
    using l L(8) out by (elim disjE) (auto simp: nth_list_update_if)
  have d: "distinct (freelist p' @ fifolist p' @ usedlist p')"
    using L(2) l p'(5) by (elim disjE) auto
  have "set (freelist p' @ fifolist p' @ usedlist p') = set (freelist p @ fifolist p @ usedlist p)"
    using l p'(5) by (elim disjE) auto
  then have s: "set (freelist p' @ fifolist p' @ usedlist p') = {..<length es}" unfolding L(3) .
  show ?thesis by (rule inv_update [OF inv es p'(1-3) e(2) d s o u len])
qed

text \<open>The address test, within the bounds and without.\<close>

lemma valid_packet:
  assumes "pool_inv p" "i < unat (num_packets p)"
  shows "is_valid_pbuf (p\<lparr>pool_lock := True\<rparr>) (packet p i) = Some True"
proof -
  obtain es where es: "pentries p = Some es" "length es = unat (num_packets p)" by (rule pool_invE [OF assms(1)])
  note L = inv_lists [OF assms(1) es(1)]
  let ?q = "p\<lparr>pool_lock := True\<rparr>"
  have q: "pool_geom ?q" "packet ?q i = packet p i" using L(10) by (simp_all add: pool_geom_def packet_def)
  show ?thesis
    using pbuf2pentry_packet [OF q(1), of i] packet_bounds [OF q(1), of i] q(2) assms(2) es L(4)
    by (auto simp: is_valid_pbuf_def entry_def)
qed

lemma valid_pbuf_is_packet:
  assumes "pool_inv p" "is_valid_pbuf (p\<lparr>pool_lock := True\<rparr>) pbuf = Some True"
  shows "\<exists>i < unat (num_packets p). pbuf = packet p i"
proof -
  obtain es where es: "pentries p = Some es" "length es = unat (num_packets p)" by (rule pool_invE [OF assms(1)])
  then show ?thesis
    using assms(2) inv_lists(4) [OF assms(1) es(1)]
    by (auto simp: is_valid_pbuf_def entry_def elim!: option_bindE split: if_split_asm)
qed

lemma bufinuse_packet:
  assumes "pool_inv p" "i < unat (num_packets p)"
  shows "pool_bufinuse (p\<lparr>pool_lock := True\<rparr>) (packet p i) = Some (i \<in> set (usedlist p))"
proof -
  obtain es where es: "pentries p = Some es" "length es = unat (num_packets p)" by (rule pool_invE [OF assms(1)])
  note L = inv_lists [OF assms(1) es(1)]
  let ?q = "p\<lparr>pool_lock := True\<rparr>"
  have q: "pool_geom ?q" "packet ?q i = packet p i" using L(10) by (simp_all add: pool_geom_def packet_def)
  have "i \<in> set (freelist p) \<or> i \<in> set (fifolist p) \<or> i \<in> set (usedlist p)" using L(3) assms(2) es(2) by auto
  then have "pe_cur_list (es ! i) = Usedlist \<longleftrightarrow> i \<in> set (usedlist p)"
    using L(5-7) by (auto simp: on_list_def)
  then show ?thesis
    using pbuf2pentry_packet [OF q(1), of i] q(2) assms(2) es by (simp add: pool_bufinuse_def entry_def)
qed

lemma used_removeAll:
  assumes "pool_inv p" "i \<in> set (usedlist p)"
  shows "removeAll i (freelist p) = freelist p" "removeAll i (fifolist p) = fifolist p"
proof -
  obtain es where "pentries p = Some es" by (rule pool_invE [OF assms(1)])
  then have "distinct (freelist p @ fifolist p @ usedlist p)" by (rule inv_lists(2) [OF assms(1)])
  then have "i \<notin> set (freelist p)" "i \<notin> set (fifolist p)" using assms(2) by auto
  then show "removeAll i (freelist p) = freelist p" "removeAll i (fifolist p) = fifolist p" by simp_all
qed

lemma used_image:
  assumes "pool_inv p" "set is \<subseteq> {..<unat (num_packets p)}" "i < unat (num_packets p)"
  shows "packet p ` set (removeAll i is) = packet p ` set is - {packet p i}"
proof -
  obtain es where "pentries p = Some es" by (rule pool_invE [OF assms(1)])
  then have g: "pool_geom p" by (rule inv_lists(10) [OF assms(1)])
  have "packet p j = packet p i \<Longrightarrow> j = i" if "j \<in> set is" for j
    using packet_inj [OF g] that assms(2,3) by (metis lessThan_iff less_imp_le subsetD)
  then show ?thesis by auto
qed

lemma inv_subsets:
  assumes "pool_inv p"
  shows "set (freelist p) \<subseteq> {..<unat (num_packets p)}" "set (fifolist p) \<subseteq> {..<unat (num_packets p)}"
    "set (usedlist p) \<subseteq> {..<unat (num_packets p)}"
  using inv_index [OF assms] by auto

lemma enqbuf_used:
  assumes inv: "pool_inv p" and i: "i \<in> set (usedlist p)"
  shows "\<exists>p'. pool_enqbuf p (packet p i) len ooblen flags = Some (0, p') \<and> pool_inv p' \<and> geometry p' = geometry p \<and>
    freelist p' = freelist p \<and> usedlist p' = removeAll i (usedlist p) \<and>
    fifo_bufs p' = fifo_bufs p @ [(packet p i, len, ooblen, flags)]"
proof -
  obtain es where es: "pentries p = Some es" "length es = unat (num_packets p)" by (rule pool_invE [OF inv])
  note L = inv_lists [OF inv es(1)]
  have n: "i < unat (num_packets p)" using inv_subsets(3) [OF inv] i by auto
  have nf: "i \<notin> set (fifolist p)" using L(2) i by auto
  let ?q = "p\<lparr>pool_lock := True\<rparr>"
  let ?e = "(es ! i)\<lparr>pe_cur_list := Fifolist, pe_len := len, pe_ooblen := ooblen, pe_flags := flags\<rparr>"
  let ?p = "p\<lparr>pentries := Some (es[i := ?e]), fifolist := fifolist p @ [i], usedlist := removeAll i (usedlist p),
    fifoq := fifoq p + 1\<rparr>"
  have "pool_geom ?q" "packet ?q i = packet p i" using L(10) by (simp_all add: pool_geom_def packet_def)
  then have "pbuf2pentry ?q (packet p i) = Some i" using pbuf2pentry_packet [of ?q i] n by simp
  then have "pool_enqbuf p (packet p i) len ooblen flags = Some (0, ?p)"
    using valid_packet [OF inv n] bufinuse_packet [OF inv n] i es n L(9) used_removeAll [OF inv i]
    by (simp add: pool_enqbuf_def spin_lock_def enqbuf_raw_def entry_def set_entry_def list_move_tail_fifo_def
        list_del_def Let_def spin_unlock_def)
  moreover have "pool_inv ?p"
    by (rule release_inv [OF inv es(1) i, of _ ?e]) (use L(4,9) n es(2) in \<open>simp_all add: geometry_def\<close>)
  moreover have "fifo_view ?p (es[i := ?e]) (fifolist p) = fifo_view p es (fifolist p)"
    by (intro fifo_view_update geometry_packet) (use nf in \<open>simp_all add: geometry_def\<close>)
  ultimately show ?thesis using es n by (intro exI [of _ ?p]) (simp add: geometry_def fifo_bufs_def packet_def)
qed

lemma freebuf_used:
  assumes inv: "pool_inv p" and i: "i \<in> set (usedlist p)"
  shows "\<exists>p'. pool_freebuf p (packet p i) = Some (0, p') \<and> pool_inv p' \<and> geometry p' = geometry p \<and>
    freelist p' = freelist p @ [i] \<and> usedlist p' = removeAll i (usedlist p) \<and> fifo_bufs p' = fifo_bufs p"
proof -
  obtain es where es: "pentries p = Some es" "length es = unat (num_packets p)" by (rule pool_invE [OF inv])
  note L = inv_lists [OF inv es(1)]
  have n: "i < unat (num_packets p)" using inv_subsets(3) [OF inv] i by auto
  have nf: "i \<notin> set (fifolist p)" using L(2) i by auto
  let ?q = "p\<lparr>pool_lock := True\<rparr>"
  let ?e = "(es ! i)\<lparr>pe_cur_list := Freelist, pe_len := packet_size p\<rparr>"
  let ?p = "p\<lparr>pentries := Some (es[i := ?e]), freelist := freelist p @ [i], usedlist := removeAll i (usedlist p),
    freeq := freeq p + 1\<rparr>"
  have "pool_geom ?q" "packet ?q i = packet p i" using L(10) by (simp_all add: pool_geom_def packet_def)
  then have "pbuf2pentry ?q (packet p i) = Some i" using pbuf2pentry_packet [of ?q i] n by simp
  then have "pool_freebuf p (packet p i) = Some (0, ?p)"
    using valid_packet [OF inv n] bufinuse_packet [OF inv n] i es n L(9) used_removeAll [OF inv i]
    by (simp add: pool_freebuf_def spin_lock_def freebuf_raw_def entry_def set_entry_def list_move_tail_free_def
        list_del_def Let_def spin_unlock_def)
  moreover have "pool_inv ?p"
    by (rule release_inv [OF inv es(1) i, of _ ?e]) (use L(4,9) n es(2) in \<open>simp_all add: geometry_def\<close>)
  moreover have "fifo_view ?p (es[i := ?e]) (fifolist p) = fifo_view p es (fifolist p)"
    by (intro fifo_view_update geometry_packet) (use nf in \<open>simp_all add: geometry_def\<close>)
  ultimately show ?thesis using es n by (intro exI [of _ ?p]) (simp add: geometry_def fifo_bufs_def)
qed

text \<open>A buffer that is not in use is refused and nothing changes.\<close>

lemma release_refused:
  assumes inv: "pool_inv p" and i: "i < unat (num_packets p)" "i \<notin> set (usedlist p)"
  shows "pool_freebuf p (packet p i) = Some (- EINVAL, p)"
    "pool_enqbuf p (packet p i) len ooblen flags = Some (- EINVAL, p)"
proof -
  have l: "\<not> pool_lock p" using inv by (simp add: pool_inv_def)
  show "pool_freebuf p (packet p i) = Some (- EINVAL, p)"
    "pool_enqbuf p (packet p i) len ooblen flags = Some (- EINVAL, p)"
    using valid_packet [OF inv i(1)] bufinuse_packet [OF inv i(1)] i(2) l
    by (simp_all add: pool_freebuf_def pool_enqbuf_def spin_lock_def)
qed

lemma head_removeAll:
  assumes "distinct (i # xs @ ys @ zs)"
  shows "removeAll i xs = xs" "removeAll i ys = ys" "removeAll i zs = zs"
  using assms by simp_all

lemma getbuf_some:
  assumes inv: "pool_inv p" and f: "freelist p = i # is"
  shows "\<exists>p'. getbuf_raw (p\<lparr>pool_lock := True\<rparr>) = Some (packet p i, packet_size p, p'\<lparr>pool_lock := True\<rparr>) \<and>
    pool_inv p' \<and> geometry p' = geometry p \<and> freelist p' = is \<and> usedlist p' = i # usedlist p \<and> fifo_bufs p' = fifo_bufs p"
proof -
  obtain es where es: "pentries p = Some es" "length es = unat (num_packets p)" by (rule pool_invE [OF inv])
  note L = inv_lists [OF inv es(1)]
  have n: "i < unat (num_packets p)" using inv_subsets(1) [OF inv] f by auto
  have d: "distinct (i # is @ fifolist p @ usedlist p)" using L(2) f by simp
  let ?e = "(es ! i)\<lparr>pe_cur_list := Usedlist\<rparr>"
  let ?p = "p\<lparr>pentries := Some (es[i := ?e]), freelist := is, usedlist := i # usedlist p\<rparr>"
  have "getbuf_raw (p\<lparr>pool_lock := True\<rparr>) = Some (packet p i, packet_size p, ?p\<lparr>pool_lock := True\<rparr>)"
    using es n f L(4,8) head_removeAll [OF d]
    by (simp add: getbuf_raw_def entry_def set_entry_def list_move_used_def list_del_def Let_def pentry2pbuf_def)
  moreover have "pool_inv ?p"
    by (rule take_inv [OF inv es(1), of _ i ?e]) (use f L(9) in \<open>simp_all add: geometry_def\<close>)
  moreover have "fifo_view ?p (es[i := ?e]) (fifolist p) = fifo_view p es (fifolist p)"
    by (intro fifo_view_update geometry_packet) (simp_all add: geometry_def)
  ultimately show ?thesis using es n by (intro exI [of _ ?p]) (simp add: geometry_def fifo_bufs_def)
qed

lemma deqbuf_some:
  assumes inv: "pool_inv p" and f: "fifolist p = i # is" and x: "fifo_bufs p = d # ds"
  shows "\<exists>p'. deqbuf_raw (p\<lparr>pool_lock := True\<rparr>) = Some (d, p'\<lparr>pool_lock := True\<rparr>) \<and> fst d = packet p i \<and>
    pool_inv p' \<and> geometry p' = geometry p \<and> freelist p' = freelist p \<and> usedlist p' = i # usedlist p \<and> fifo_bufs p' = ds"
proof -
  obtain es where es: "pentries p = Some es" "length es = unat (num_packets p)" by (rule pool_invE [OF inv])
  note L = inv_lists [OF inv es(1)]
  have n: "i < unat (num_packets p)" using inv_subsets(2) [OF inv] f by auto
  have d: "distinct (i # is @ freelist p @ usedlist p)" using L(2) f by auto
  let ?e = "(es ! i)\<lparr>pe_cur_list := Usedlist\<rparr>"
  let ?p = "p\<lparr>pentries := Some (es[i := ?e]), fifolist := is, usedlist := i # usedlist p\<rparr>"
  have x': "d = (packet p i, pe_len (es ! i), pe_ooblen (es ! i), pe_flags (es ! i))"
    "ds = fifo_view p es is"
    using x es f by (simp_all add: fifo_bufs_def fifo_view_def)
  have "deqbuf_raw (p\<lparr>pool_lock := True\<rparr>) = Some (d, ?p\<lparr>pool_lock := True\<rparr>)"
    using es n f L(4) x' head_removeAll [OF d]
    by (simp add: deqbuf_raw_def entry_def set_entry_def list_move_used_def list_del_def Let_def pentry2pbuf_def)
  moreover have "pool_inv ?p"
    by (rule take_inv [OF inv es(1), of _ i ?e]) (use f L(9) in \<open>simp_all add: geometry_def\<close>)
  moreover have "fifo_view ?p (es[i := ?e]) is = ds"
    unfolding x' by (intro fifo_view_update geometry_packet) (simp_all add: geometry_def)
  ultimately show ?thesis using x' by (intro exI [of _ ?p]) (simp add: geometry_def fifo_bufs_def)
qed

section \<open>The interface of a buffer pool\<close>

text \<open>
  What the DMA code and the device node rely on: the buffers are split into free ones, used ones and
  a FIFO; taking and returning moves a buffer between them; each operation keeps the invariant.
\<close>

locale buffer_pool =
  fixes inv :: "'p \<Rightarrow> bool"
    and free :: "'p \<Rightarrow> 'b set"
    and used :: "'p \<Rightarrow> 'b set"
    and fifo :: "'p \<Rightarrow> ('b \<times> 'd) list"
    and get :: "'p \<Rightarrow> (int \<times> ('b \<times> 'l) option \<times> 'p) option"
    and put :: "'p \<Rightarrow> 'b \<Rightarrow> (int \<times> 'p) option"
    and enq :: "'p \<Rightarrow> 'b \<Rightarrow> 'd \<Rightarrow> (int \<times> 'p) option"
    and deq :: "'p \<Rightarrow> (int \<times> ('b \<times> 'd) option \<times> 'p) option"
  assumes get_none: "inv p \<Longrightarrow> free p = {} \<Longrightarrow> get p = Some (0, None, p)"
    and get_some: "inv p \<Longrightarrow> free p \<noteq> {} \<Longrightarrow> \<exists>b l p'. get p = Some (1, Some (b, l), p') \<and> inv p' \<and> b \<in> free p \<and>
      free p' = free p - {b} \<and> used p' = insert b (used p) \<and> fifo p' = fifo p"
    and put_used: "inv p \<Longrightarrow> b \<in> used p \<Longrightarrow> \<exists>p'. put p b = Some (0, p') \<and> inv p' \<and>
      free p' = insert b (free p) \<and> used p' = used p - {b} \<and> fifo p' = fifo p"
    and enq_used: "inv p \<Longrightarrow> b \<in> used p \<Longrightarrow> \<exists>p'. enq p b d = Some (0, p') \<and> inv p' \<and>
      free p' = free p \<and> used p' = used p - {b} \<and> fifo p' = fifo p @ [(b, d)]"
    and deq_none: "inv p \<Longrightarrow> fifo p = [] \<Longrightarrow> deq p = Some (0, None, p)"
    and deq_some: "inv p \<Longrightarrow> fifo p = x # xs \<Longrightarrow> \<exists>p'. deq p = Some (1, Some x, p') \<and> inv p' \<and>
      free p' = free p \<and> used p' = insert (fst x) (used p) \<and> fifo p' = xs"
    and apart: "inv p \<Longrightarrow> free p \<inter> used p = {} \<and> fst ` set (fifo p) \<inter> (free p \<union> used p) = {}"

fun enq_all :: "('p \<Rightarrow> 'b \<Rightarrow> 'd \<Rightarrow> (int \<times> 'p) option) \<Rightarrow> ('b \<times> 'd) list \<Rightarrow> 'p \<Rightarrow> 'p option" where
  "enq_all enq [] p = Some p"
| "enq_all enq ((b, d) # xs) p = do { (r, p) \<leftarrow> enq p b d; if r = 0 then enq_all enq xs p else None }"

fun deq_all :: "('p \<Rightarrow> (int \<times> 'x option \<times> 'p) option) \<Rightarrow> nat \<Rightarrow> 'p \<Rightarrow> ('x list \<times> 'p) option" where
  "deq_all deq 0 p = Some ([], p)"
| "deq_all deq (Suc n) p = do {
     (r, x, p) \<leftarrow> deq p;
     x \<leftarrow> x;
     (xs, p) \<leftarrow> deq_all deq n p;
     Some (x # xs, p) }"

context buffer_pool
begin

lemma enq_all_ok:
  assumes "inv p" "distinct (map fst xs)" "fst ` set xs \<subseteq> used p"
  shows "\<exists>p'. enq_all enq xs p = Some p' \<and> inv p' \<and> free p' = free p \<and> used p' = used p - fst ` set xs \<and> fifo p' = fifo p @ xs"
  using assms
proof (induction xs arbitrary: p)
  case (Cons x xs)
  obtain b d where x: "x = (b, d)" by force
  obtain p1 where p1: "enq p b d = Some (0, p1)" "inv p1" "free p1 = free p" "used p1 = used p - {b}" "fifo p1 = fifo p @ [x]"
    using enq_used [OF Cons.prems(1), of b d] Cons.prems(3) x by auto
  have "fst ` set xs \<subseteq> used p1" using p1(4) Cons.prems(2,3) x by auto
  with Cons.IH [OF p1(2)] Cons.prems(2) obtain p2 where
    "enq_all enq xs p1 = Some p2" "inv p2" "free p2 = free p1" "used p2 = used p1 - fst ` set xs" "fifo p2 = fifo p1 @ xs" by auto
  then show ?case using p1 x by auto
qed simp

lemma deq_all_ok:
  assumes "inv p" "fifo p = xs @ ys"
  shows "\<exists>p'. deq_all deq (length xs) p = Some (xs, p') \<and> inv p' \<and> free p' = free p \<and> used p' = used p \<union> fst ` set xs \<and> fifo p' = ys"
  using assms
proof (induction xs arbitrary: p)
  case (Cons x xs)
  then obtain p1 where p1: "deq p = Some (1, Some x, p1)" "inv p1" "free p1 = free p" "used p1 = insert (fst x) (used p)" "fifo p1 = xs @ ys"
    using deq_some [of p x "xs @ ys"] by auto
  with Cons.IH [OF p1(2,5)] show ?case by auto
qed simp

lemma fifo_order:
  assumes "inv p" "fifo p = []" "distinct (map fst xs)" "fst ` set xs \<subseteq> used p"
  shows "\<exists>p1 p2. enq_all enq xs p = Some p1 \<and> deq_all deq (length xs) p1 = Some (xs, p2) \<and> inv p2 \<and>
    free p2 = free p \<and> used p2 = used p \<and> fifo p2 = []"
proof -
  obtain p1 where p1: "enq_all enq xs p = Some p1" "inv p1" "free p1 = free p" "used p1 = used p - fst ` set xs" "fifo p1 = xs @ []"
    using enq_all_ok [OF assms(1,3,4)] assms(2) by auto
  have "used p1 \<union> fst ` set xs = used p" unfolding p1(4) using assms(4) by blast
  with deq_all_ok [OF p1(2,5)] p1(1,3) show ?thesis by simp
qed

text \<open>The life of a buffer: taken, filled and queued, dequeued, returned.\<close>

lemma life_cycle:
  assumes "inv p" "free p \<noteq> {}" "fifo p = []"
  shows "\<exists>b l p1 p2 p3 p4. get p = Some (1, Some (b, l), p1) \<and> enq p1 b d = Some (0, p2) \<and>
    deq p2 = Some (1, Some (b, d), p3) \<and> put p3 b = Some (0, p4) \<and> inv p4 \<and>
    free p4 = free p \<and> used p4 = used p \<and> fifo p4 = []"
proof -
  obtain b l p1 where p1: "get p = Some (1, Some (b, l), p1)" "inv p1" "b \<in> free p" "free p1 = free p - {b}"
    "used p1 = insert b (used p)" "fifo p1 = []"
    using get_some [OF assms(1,2)] assms(3) by auto
  have nb: "b \<notin> used p" using apart [OF assms(1)] p1(3) by auto
  obtain p2 where p2: "enq p1 b d = Some (0, p2)" "inv p2" "free p2 = free p - {b}" "used p2 = used p" "fifo p2 = [(b, d)]"
    using enq_used [OF p1(2), of b d] p1 nb by auto
  obtain p3 where p3: "deq p2 = Some (1, Some (b, d), p3)" "inv p3" "free p3 = free p - {b}" "used p3 = insert b (used p)" "fifo p3 = []"
    using deq_some [OF p2(2,5)] p2 by auto
  obtain p4 where "put p3 b = Some (0, p4)" "inv p4" "free p4 = free p" "used p4 = used p" "fifo p4 = []"
    using put_used [OF p3(2), of b] p3(3-5) insert_absorb [OF p1(3)] nb by auto
  then show ?thesis using p1(1) p2(1) p3(1) by blast
qed

end

section \<open>The driver's pool meets the interface\<close>

lemma used_bufs_eq: "geometry p' = geometry p \<Longrightarrow> used_bufs p' = packet p ` set (usedlist p')"
  unfolding used_bufs_def by (drule geometry_packet) simp

lemma free_bufs_eq: "geometry p' = geometry p \<Longrightarrow> free_bufs p' = packet p ` set (freelist p')"
  unfolding free_bufs_def by (drule geometry_packet) simp

lemma getbuf_try_some:
  assumes inv: "pool_inv p" and f: "free_bufs p \<noteq> {}"
  shows "\<exists>b p'. pool_getbuf_try p = Some (1, Some (b, packet_size p), p') \<and> pool_inv p' \<and> geometry p' = geometry p \<and>
    b \<in> free_bufs p \<and> free_bufs p' = free_bufs p - {b} \<and> used_bufs p' = insert b (used_bufs p) \<and> fifo_bufs p' = fifo_bufs p"
proof -
  obtain i "is" where i: "freelist p = i # is" using f by (cases "freelist p") (auto simp: free_bufs_def)
  obtain p' where p': "getbuf_raw (p\<lparr>pool_lock := True\<rparr>) = Some (packet p i, packet_size p, p'\<lparr>pool_lock := True\<rparr>)"
    "pool_inv p'" "geometry p' = geometry p" "freelist p' = is" "usedlist p' = i # usedlist p" "fifo_bufs p' = fifo_bufs p"
    using getbuf_some [OF inv i] by blast
  have l: "\<not> pool_lock p" "\<not> pool_lock p'" using inv p'(2) by (simp_all add: pool_inv_def)
  have "distinct (i # is)" using inv i by (auto simp: pool_inv_def split: option.splits)
  then have "removeAll i (freelist p) = is" by (simp add: i)
  then have "free_bufs p' = packet p ` set (removeAll i (freelist p))" using free_bufs_eq [OF p'(3)] p'(4) by simp
  also have "\<dots> = free_bufs p - {packet p i}"
    unfolding free_bufs_def using inv_subsets(1) [OF inv] i by (intro used_image [OF inv]) auto
  finally have fr: "free_bufs p' = free_bufs p - {packet p i}" .
  have us: "used_bufs p' = insert (packet p i) (used_bufs p)" "packet p i \<in> free_bufs p"
    using used_bufs_eq [OF p'(3)] p'(5) i by (simp_all add: used_bufs_def free_bufs_def)
  have "pool_getbuf_try p = Some (1, Some (packet p i, packet_size p), p')"
    using p'(1) l i by (simp add: pool_getbuf_try_def spin_lock_def)
  then show ?thesis using p'(2,3,6) fr us by blast
qed

lemma deqbuf_try_some:
  assumes inv: "pool_inv p" and f: "fifo_bufs p = d # ds"
  shows "\<exists>p'. pool_deqbuf_try p = Some (1, Some d, p') \<and> pool_inv p' \<and> geometry p' = geometry p \<and>
    free_bufs p' = free_bufs p \<and> used_bufs p' = insert (fst d) (used_bufs p) \<and> fifo_bufs p' = ds"
proof -
  obtain i "is" where i: "fifolist p = i # is"
    using f by (cases "fifolist p") (auto simp: fifo_bufs_def fifo_view_def split: option.splits)
  obtain p' where p': "deqbuf_raw (p\<lparr>pool_lock := True\<rparr>) = Some (d, p'\<lparr>pool_lock := True\<rparr>)" "fst d = packet p i"
    "pool_inv p'" "geometry p' = geometry p" "freelist p' = freelist p" "usedlist p' = i # usedlist p" "fifo_bufs p' = ds"
    using deqbuf_some [OF inv i f] by blast
  have "\<not> pool_lock p" "\<not> pool_lock p'" using inv p'(3) by (simp_all add: pool_inv_def)
  then show ?thesis
    using p' i used_bufs_eq [OF p'(4)] free_bufs_eq [OF p'(4)]
    by (simp add: pool_deqbuf_try_def spin_lock_def used_bufs_def free_bufs_def)
qed

lemma enqbuf_used_bufs:
  assumes inv: "pool_inv p" and b: "b \<in> used_bufs p"
  shows "\<exists>p'. pool_enqbuf p b len ooblen flags = Some (0, p') \<and> pool_inv p' \<and> geometry p' = geometry p \<and>
    free_bufs p' = free_bufs p \<and> used_bufs p' = used_bufs p - {b} \<and> fifo_bufs p' = fifo_bufs p @ [(b, len, ooblen, flags)]"
proof -
  obtain i where i: "i \<in> set (usedlist p)" "b = packet p i" using b by (auto simp: used_bufs_def)
  then have n: "i < unat (num_packets p)" using inv_subsets(3) [OF inv] by auto
  show ?thesis
    using enqbuf_used [OF inv i(1), of len ooblen flags] used_image [OF inv inv_subsets(3) [OF inv] n] i(2)
    by (metis used_bufs_eq free_bufs_eq used_bufs_def free_bufs_def)
qed

lemma freebuf_used_bufs:
  assumes inv: "pool_inv p" and b: "b \<in> used_bufs p"
  shows "\<exists>p'. pool_freebuf p b = Some (0, p') \<and> pool_inv p' \<and> geometry p' = geometry p \<and>
    free_bufs p' = insert b (free_bufs p) \<and> used_bufs p' = used_bufs p - {b} \<and> fifo_bufs p' = fifo_bufs p"
proof -
  obtain i where i: "i \<in> set (usedlist p)" "b = packet p i" using b by (auto simp: used_bufs_def)
  then have n: "i < unat (num_packets p)" using inv_subsets(3) [OF inv] by auto
  obtain p' where p': "pool_freebuf p b = Some (0, p')" "pool_inv p'" "geometry p' = geometry p"
    "freelist p' = freelist p @ [i]" "usedlist p' = removeAll i (usedlist p)" "fifo_bufs p' = fifo_bufs p"
    using freebuf_used [OF inv i(1)] i(2) by blast
  show ?thesis
    using p' used_image [OF inv inv_subsets(3) [OF inv] n] i(2) used_bufs_eq [OF p'(3)] free_bufs_eq [OF p'(3)]
    by (simp add: used_bufs_def free_bufs_def)
qed

lemma bufs_apart:
  assumes "pool_inv p"
  shows "free_bufs p \<inter> used_bufs p = {} \<and> fst ` set (fifo_bufs p) \<inter> (free_bufs p \<union> used_bufs p) = {}"
proof -
  obtain es where es: "pentries p = Some es" by (rule pool_invE [OF assms])
  note L = inv_lists [OF assms es]
  have ff: "fst ` set (fifo_bufs p) = packet p ` set (fifolist p)" using es by (simp add: fifo_bufs_def fifo_view_def image_image)
  have inj: "inj_on (packet p) {..<unat (num_packets p)}"
    using packet_inj [OF L(10)] by (intro inj_onI) simp
  have "set (freelist p) \<inter> set (usedlist p) = {}" "set (fifolist p) \<inter> set (freelist p) = {}" "set (fifolist p) \<inter> set (usedlist p) = {}"
    using L(2) by auto
  with inj inv_subsets [OF assms] show ?thesis
    unfolding ff free_bufs_def used_bufs_def Int_Un_distrib
    by (simp flip: inj_on_image_Int [OF inj])
qed

interpretation zp: buffer_pool pool_inv free_bufs used_bufs fifo_bufs pool_getbuf_try pool_freebuf
  "\<lambda>p b (len, ooblen, flags). pool_enqbuf p b len ooblen flags" pool_deqbuf_try
proof unfold_locales
  fix p assume "pool_inv p" "free_bufs p = {}"
  then show "pool_getbuf_try p = Some (0, None, p)"
    by (simp add: free_bufs_def pool_getbuf_try_def spin_lock_def pool_inv_def)
next
  fix p assume "pool_inv p" "fifo_bufs p = []"
  then show "pool_deqbuf_try p = Some (0, None, p)"
    by (auto simp: fifo_bufs_def fifo_view_def pool_deqbuf_try_def spin_lock_def pool_inv_def split: option.splits)
next
  fix p assume "pool_inv p" "free_bufs p \<noteq> {}"
  from getbuf_try_some [OF this] show "\<exists>b l p'. pool_getbuf_try p = Some (1, Some (b, l), p') \<and> pool_inv p' \<and> b \<in> free_bufs p \<and>
      free_bufs p' = free_bufs p - {b} \<and> used_bufs p' = insert b (used_bufs p) \<and> fifo_bufs p' = fifo_bufs p" by blast
next
  fix p b assume "pool_inv p" "b \<in> used_bufs p"
  from freebuf_used_bufs [OF this] show "\<exists>p'. pool_freebuf p b = Some (0, p') \<and> pool_inv p' \<and>
      free_bufs p' = insert b (free_bufs p) \<and> used_bufs p' = used_bufs p - {b} \<and> fifo_bufs p' = fifo_bufs p" by blast
next
  fix p b and d :: "u64 \<times> u64 \<times> u64"
  assume a: "pool_inv p" "b \<in> used_bufs p"
  obtain len ooblen flags where d: "d = (len, ooblen, flags)" by (cases d)
  from enqbuf_used_bufs [OF a, of len ooblen flags]
  show "\<exists>p'. (case d of (len, ooblen, flags) \<Rightarrow> pool_enqbuf p b len ooblen flags) = Some (0, p') \<and> pool_inv p' \<and>
      free_bufs p' = free_bufs p \<and> used_bufs p' = used_bufs p - {b} \<and> fifo_bufs p' = fifo_bufs p @ [(b, d)]"
    unfolding d by auto
next
  fix p x xs assume "pool_inv p" "fifo_bufs p = x # xs"
  from deqbuf_try_some [OF this] show "\<exists>p'. pool_deqbuf_try p = Some (1, Some x, p') \<and> pool_inv p' \<and>
      free_bufs p' = free_bufs p \<and> used_bufs p' = insert (fst x) (used_bufs p) \<and> fifo_bufs p' = xs" by blast
qed (rule bufs_apart)

section \<open>Setting up the pool\<close>

lemma and_not_3: "(x :: u64) AND NOT 3 = push_bit 2 (drop_bit 2 x)"
proof -
  have "x AND NOT (mask 2) = push_bit 2 (drop_bit 2 x)"
  proof (rule bit_eqI)
    fix n
    have "2 \<le> n \<Longrightarrow> Suc (Suc (n - 2)) = n" by simp
    then show "bit (x AND NOT (mask 2)) n = bit (push_bit 2 (drop_bit 2 x)) n" by (auto simp: bit_simps not_less)
  qed
  moreover have "mask 2 = (3 :: u64)" by (simp add: mask_eq_exp_minus_1)
  ultimately show ?thesis by (simp only:)
qed

lemma align4_value:
  assumes "unat (x :: u64) + 3 < 2 ^ 64"
  shows "unat ((x + 3) AND NOT 3) = (unat x + 3) div 4 * 4"
proof -
  have u: "unat (x + 3) = unat x + 3" using unat_plus_small [of x 3] assms by simp
  have "(unat x + 3) div 4 * 4 \<le> unat x + 3" by simp
  then have lt: "(unat x + 3) div 4 * 4 < 2 ^ 64" using assms by linarith
  have "unat ((x + 3) AND NOT 3) = take_bit 64 (push_bit 2 (drop_bit 2 (unat (x + 3))))"
    unfolding and_not_3 using assms by (simp add: unsigned_push_bit_eq unsigned_drop_bit_eq u take_bit_nat_eq_self)
  also have "push_bit 2 (drop_bit 2 (unat (x + 3))) = (unat x + 3) div 4 * 4"
    unfolding u by (simp add: push_bit_eq_mult drop_bit_eq_div)
  finally show ?thesis using lt by (simp add: take_bit_nat_eq_self)
qed

lemma align4_bounds: "n \<le> (n + 3) div 4 * 4" "(n + 3) div 4 * 4 \<le> n + 3" for n :: nat
  by linarith+

text \<open>What \<open>pool_create\<close> is given in practice: a region of at least a page and less than 4 GB that
  does not wrap around.\<close>

definition pool_region :: "pool \<Rightarrow> bool" where
  "pool_region p \<longleftrightarrow> \<not> pool_lock p \<and> 4096 \<le> unat (pool_size p) \<and> unat (pool_size p) < 2 ^ 32 \<and>
     unat (buf_paddr p) + unat (pool_size p) < 2 ^ 64"

lemma page_align_entry: "PAGE_ALIGN sizeof_pool_entry = 4096"
  by (simp add: PAGE_ALIGN_def sizeof_pool_entry_def)

lemma resize_ok:
  assumes r: "pool_region p" and s: "0 < unat psize" "unat psize + 4096 \<le> unat (pool_size p)"
    and a: "\<And>n. alloc n"
  shows "\<exists>p'. pool_resize alloc p psize max_packets force = Some (0, p') \<and> pool_inv p' \<and>
    pool_size p' = pool_size p \<and> buf_paddr p' = buf_paddr p \<and> packet_size p' = psize \<and>
    unat (num_packets p') = min (unat (pool_size p) div (56 + (unat psize + 3) div 4 * 4)) (unat max_packets) \<and>
    freelist p' = rev [0..<unat (num_packets p')] \<and> fifolist p' = [] \<and> usedlist p' = []"
proof -
  let ?al = "(psize + 3) AND NOT 3" and ?n4 = "(unat psize + 3) div 4 * 4"
  have R: "\<not> pool_lock p" "unat (pool_size p) < 2 ^ 32" "unat (buf_paddr p) + unat (pool_size p) < 2 ^ 64" "4096 \<le> unat (pool_size p)"
    using r by (simp_all add: pool_region_def)
  have b: "unat psize < 2 ^ 32" using s(2) R(2) by linarith
  have al: "unat ?al = ?n4" using b by (intro align4_value) simp
  have al': "unat psize \<le> ?n4" "?n4 \<le> unat psize + 3" by (rule align4_bounds)+
  have "unat (?al + of_nat 56) = unat ?al + 56" by (rule unat_plus_small) (use al al' b in simp)
  then have ap: "unat (sizeof_pool_entry + ?al) = 56 + ?n4" using al by (simp add: sizeof_pool_entry_def add.commute)
  then have ap0: "sizeof_pool_entry + ?al \<noteq> 0" by auto
  have "unat (pool_size p - 4096) = unat (pool_size p) - 4096"
    using R(4) by (simp add: unat_sub word_le_nat_alt)
  then have fits: "\<not> pool_size p - PAGE_ALIGN sizeof_pool_entry < psize"
    using s(2) by (simp add: page_align_entry word_less_nat_alt)
  let ?num = "min (pool_size p div (sizeof_pool_entry + ?al)) max_packets"
  have num: "unat ?num = min (unat (pool_size p) div (56 + ?n4)) (unat max_packets)"
    using ap by (simp add: min_def word_le_nat_alt unat_div)
  have mul: "unat ?num * (56 + ?n4) \<le> unat (pool_size p)"
    by (rule le_trans [OF mult_le_mono1 div_times_less_eq_dividend]) (simp only: num min.cobounded1)
  have "unat ?num * 56 \<le> unat ?num * (56 + ?n4)" by (rule mult_le_mono2) simp
  then have "unat ?num * 56 < 2 ^ 32" using mul R(2) by (meson le_less_trans le_trans)
  moreover have "n * 56 < 2 ^ 32 \<Longrightarrow> n < 2 ^ 31" for n :: nat by simp
  ultimately have n31: "unat ?num < 2 ^ 31" by blast
  have "unat ?num * ?n4 \<le> unat ?num * (56 + ?n4)" by (rule mult_le_mono2) simp
  then have fit: "unat ?num * ?n4 \<le> unat (pool_size p)" using mul by (rule le_trans)
  let ?p = "p\<lparr>packet_size := psize, aligned_packet_size := ?al, num_packets := ?num, ppackets := buf_paddr p\<rparr>"
  let ?q = "?p\<lparr>pentries := Some (map (fresh_entry ?p) [0..<unat ?num]), freelist := rev [0..<unat ?num], fifolist := [], usedlist := []\<rparr>"
  have "pool_resize alloc p psize max_packets force = Some (0, ?q)"
    using fits R(1) ap0 a n31
    by (simp add: pool_resize_def spin_lock_def resize_geometry_def Let_def spin_unlock_def fresh_entry_def)
  moreover have "pool_geom ?q"
  proof -
    have "?al \<noteq> 0" using al al'(1) s(1) by auto
    moreover have "psize \<le> ?al" using al al'(1) by (simp add: word_le_nat_alt)
    ultimately show ?thesis using R n31 fit al by (simp add: pool_geom_def)
  qed
  ultimately show ?thesis
    using R(1) num
    by (intro exI [of _ ?q]) (auto simp: pool_inv_def on_list_def fresh_entry_def packet_def)
qed

section \<open>Reachable pools\<close>

text \<open>Any interleaving of the operations by the interrupt handler and the callers: each runs under
  the lock, so the pool moves in whole operations.\<close>

inductive pool_step :: "pool \<Rightarrow> pool \<Rightarrow> bool" where
  step_get: "pool_getbuf_try p = Some (r, x, p') \<Longrightarrow> pool_step p p'"
| step_free: "pool_freebuf p b = Some (r, p') \<Longrightarrow> pool_step p p'"
| step_enq: "pool_enqbuf p b len ooblen flags = Some (r, p') \<Longrightarrow> pool_step p p'"
| step_deq: "pool_deqbuf_try p = Some (r, x, p') \<Longrightarrow> pool_step p p'"
| step_busy: "pool_busy p = Some (r, p') \<Longrightarrow> pool_step p p'"
| step_ready: "pool_freebufs_ready p = Some (c, p') \<or> pool_fifobufs_ready p = Some (c, p') \<Longrightarrow> pool_step p p'"

lemma release_outcome:
  assumes inv: "pool_inv p" and r: "pool_freebuf p b = Some (r, p') \<or> pool_enqbuf p b len ooblen flags = Some (r, p')"
  shows "pool_inv p' \<and> geometry p' = geometry p"
proof (cases "b \<in> used_bufs p")
  case True
  then show ?thesis using r freebuf_used_bufs [OF inv True] enqbuf_used_bufs [OF inv True, of len ooblen flags] by auto
next
  case False
  have "p' = p"
  proof (cases "is_valid_pbuf (p\<lparr>pool_lock := True\<rparr>) b = Some True")
    case True
    then obtain i where i: "i < unat (num_packets p)" "b = packet p i" using valid_pbuf_is_packet [OF inv] by blast
    with False have "i \<notin> set (usedlist p)" by (auto simp: used_bufs_def)
    then show ?thesis using r release_refused [OF inv i(1)] i(2) by auto
  next
    case False
    have "\<not> pool_lock p" using inv by (simp add: pool_inv_def)
    then show ?thesis
      using False r by (auto simp: pool_freebuf_def pool_enqbuf_def spin_lock_def elim!: option_bindE split: if_split_asm)
  qed
  then show ?thesis using inv by simp
qed

lemma step_keeps:
  assumes "pool_step p p'" "pool_inv p"
  shows "pool_inv p' \<and> geometry p' = geometry p"
  using assms
proof cases
  case (step_get r x)
  show ?thesis
    using getbuf_try_some [OF assms(2)] zp.get_none [OF assms(2)] step_get by (cases "free_bufs p = {}") (auto simp: assms(2))
next
  case (step_deq r x)
  show ?thesis
    using deqbuf_try_some [OF assms(2)] zp.deq_none [OF assms(2)] step_deq by (cases "fifo_bufs p") (auto simp: assms(2))
next
  case (step_free b r)
  then show ?thesis using release_outcome [OF assms(2)] by blast
next
  case (step_enq b len ooblen flags r)
  then show ?thesis using release_outcome [OF assms(2)] by blast
next
  case (step_busy r)
  then have "p' = p" using assms(2) by (auto simp: pool_busy_def spin_lock_def pool_inv_def)
  then show ?thesis using assms(2) by simp
next
  case (step_ready c)
  then have "p' = p" using assms(2)
    by (auto simp: pool_freebufs_ready_def pool_fifobufs_ready_def spin_lock_def pool_inv_def)
  then show ?thesis using assms(2) by simp
qed

lemma steps_keep:
  assumes "pool_step\<^sup>*\<^sup>* p p'" "pool_inv p"
  shows "pool_inv p' \<and> geometry p' = geometry p"
  using assms by (induction rule: rtranclp_induct) (auto dest: step_keeps)

text \<open>The bytes of the packet at an address.\<close>

definition packet_range :: "pool \<Rightarrow> u64 \<Rightarrow> nat set" where
  "packet_range p b = {unat b ..< unat b + unat (packet_size p)}"

lemma packet_range_inside:
  assumes g: "pool_geom p" and i: "i < unat (num_packets p)"
  shows "packet_range p (packet p i) \<subseteq>
    {unat (buf_paddr p) + i * unat (aligned_packet_size p) ..< unat (buf_paddr p) + Suc i * unat (aligned_packet_size p)}"
    "Suc i * unat (aligned_packet_size p) \<le> unat (pool_size p)"
proof -
  have "unat (packet_size p) \<le> unat (aligned_packet_size p)" using g by (simp add: pool_geom_def word_le_nat_alt)
  then show "packet_range p (packet p i) \<subseteq>
      {unat (buf_paddr p) + i * unat (aligned_packet_size p) ..< unat (buf_paddr p) + Suc i * unat (aligned_packet_size p)}"
    using packet_value(1) [OF g, of i] i by (auto simp: packet_range_def)
  show "Suc i * unat (aligned_packet_size p) \<le> unat (pool_size p)"
    by (rule packet_value(2) [OF g]) (use i in simp)
qed

lemma packet_ranges_disjoint:
  assumes g: "pool_geom p" and i: "i < unat (num_packets p)" and j: "j < unat (num_packets p)" and ne: "i < j"
  shows "packet_range p (packet p i) \<inter> packet_range p (packet p j) = {}"
proof -
  have "Suc i * unat (aligned_packet_size p) \<le> j * unat (aligned_packet_size p)" using ne by (intro mult_le_mono1) simp
  then show ?thesis using packet_range_inside(1) [OF g i] packet_range_inside(1) [OF g j] by fastforce
qed

section \<open>Properties\<close>

text \<open>A pool of 8 KB at 0x10000000.\<close>

definition sample_region :: pool where
  "sample_region = \<lparr>pool_size = 8192, buf_paddr = 0x10000000, packet_size = 0, aligned_packet_size = 0,
     num_packets = 0, pentries = None, ppackets = 0, pool_lock = False, freeq = 0, fifoq = 0,
     freelist = [], fifolist = [], usedlist = []\<rparr>"

text \<open>The same with two packets of 10 bytes, both in use.\<close>

definition sample_pool :: pool where
  "sample_pool = sample_region\<lparr>packet_size := 10, aligned_packet_size := 12, num_packets := 2,
     pentries := Some [\<lparr>pe_pbuf = 0x10000000, pe_flags = 0, pe_len = 10, pe_ooblen = 0, pe_cur_list = Usedlist\<rparr>,
       \<lparr>pe_pbuf = 0x1000000C, pe_flags = 0, pe_len = 10, pe_ooblen = 0, pe_cur_list = Usedlist\<rparr>],
     ppackets := 0x10000000, usedlist := [0, 1]\<rparr>"

lemma sample_pool_inv: "pool_inv sample_pool"
proof -
  have g: "pool_geom sample_pool" by (simp add: pool_geom_def sample_pool_def sample_region_def)
  obtain es where es: "pentries sample_pool = Some es" "es = the (pentries sample_pool)" by (simp add: sample_pool_def)
  have l: "freelist sample_pool = []" "fifolist sample_pool = []" "usedlist sample_pool = [0, 1]" "\<not> pool_lock sample_pool"
    "length es = 2" "unat (num_packets sample_pool) = 2"
    by (simp_all add: es(2) sample_pool_def sample_region_def)
  have e: "\<forall>i < 2. pe_pbuf (es ! i) = packet sample_pool i" "on_list es Usedlist [0, 1]"
    unfolding es(2) by (simp_all add: on_list_def packet_def sample_pool_def sample_region_def less_2_cases_iff)
  have s: "set [0, 1] = {..<2 :: nat}" by (auto simp: less_2_cases_iff)
  show ?thesis unfolding pool_inv_def es(1) using g e s l by (simp add: less_2_cases_iff) (simp add: on_list_def)
qed

lemma sample_pool_bufs:
  "used_bufs sample_pool = {0x10000000, 0x1000000C}" "fifo_bufs sample_pool = []" "free_bufs sample_pool = {}"
  by (simp_all add: used_bufs_def free_bufs_def fifo_bufs_def fifo_view_def sample_pool_def sample_region_def packet_def)

text \<open>
  C19: the pool delivers in order.  Any distinct buffers in use, enqueued one after the other with
  their lengths and flags, are dequeued in the same order with the same lengths and flags, and are
  then in use again.
\<close>

theorem pool_fifo_order:
  assumes "pool_inv p" "fifo_bufs p = []" "distinct (map fst xs)" "fst ` set xs \<subseteq> used_bufs p"
  shows "\<exists>p1 p2. enq_all (\<lambda>p b (len, ooblen, flags). pool_enqbuf p b len ooblen flags) xs p = Some p1 \<and>
    deq_all pool_deqbuf_try (length xs) p1 = Some (xs, p2) \<and> pool_inv p2 \<and>
    free_bufs p2 = free_bufs p \<and> used_bufs p2 = used_bufs p \<and> fifo_bufs p2 = []"
  by (rule zp.fifo_order [OF assms])

theorem pool_fifo_order_witness:
  "\<exists>p1 p2. enq_all (\<lambda>p b (len, ooblen, flags). pool_enqbuf p b len ooblen flags)
      [(0x1000000C, 5, 0, 1), (0x10000000, 7, 2, 0)] sample_pool = Some p1 \<and>
    deq_all pool_deqbuf_try (Suc (Suc 0)) p1 = Some ([(0x1000000C, 5, 0, 1), (0x10000000, 7, 2, 0)], p2)"
  using pool_fifo_order [OF sample_pool_inv sample_pool_bufs(2), of "[(0x1000000C, 5, 0, 1), (0x10000000, 7, 2, 0)]"]
  by (simp add: sample_pool_bufs del: enq_all.simps deq_all.simps) blast

text \<open>
  C20: \<open>pool_resize\<close> sets the pool up.  For a region of at least a page and below 4 GB, and a packet
  size that leaves a page of it, the result is a pool in good order with all packets free: as many
  as fit with their entries, at most \<open>max_packets\<close>.
\<close>

theorem pool_resize_establishes:
  assumes "pool_region p" "0 < unat psize" "unat psize + 4096 \<le> unat (pool_size p)" "\<And>n. alloc n"
  shows "\<exists>p'. pool_resize alloc p psize max_packets force = Some (0, p') \<and> pool_inv p' \<and> packet_size p' = psize \<and>
    unat (num_packets p') = min (unat (pool_size p) div (56 + (unat psize + 3) div 4 * 4)) (unat max_packets) \<and>
    free_bufs p' = packet p' ` {..<unat (num_packets p')} \<and> used_bufs p' = {} \<and> fifo_bufs p' = []"
proof -
  obtain p' where p': "pool_resize alloc p psize max_packets force = Some (0, p')" "pool_inv p'" "packet_size p' = psize"
    "unat (num_packets p') = min (unat (pool_size p) div (56 + (unat psize + 3) div 4 * 4)) (unat max_packets)"
    "freelist p' = rev [0..<unat (num_packets p')]" "fifolist p' = []" "usedlist p' = []"
    using resize_ok [OF assms(1-3), of alloc] assms(4) by blast
  have "set (freelist p') = {..<unat (num_packets p')}" unfolding p'(5) by auto
  then have "free_bufs p' = packet p' ` {..<unat (num_packets p')}" by (simp add: free_bufs_def)
  moreover have "used_bufs p' = {}" "fifo_bufs p' = []"
    using p'(6,7) by (simp_all add: used_bufs_def fifo_bufs_def fifo_view_def split: option.splits)
  ultimately show ?thesis using p'(1-4) by blast
qed

lemma sample_region_ok: "pool_region sample_region"
  by (simp add: pool_region_def sample_region_def)

theorem pool_resize_establishes_witness:
  "\<exists>p'. pool_resize (\<lambda>_. True) sample_region 2000 8 0 = Some (0, p') \<and> pool_inv p' \<and> unat (num_packets p') = 3 \<and>
    free_bufs p' = packet p' ` {..<3}"
proof -
  have "pool_size sample_region = 8192" by (simp add: sample_region_def)
  then show ?thesis
    using pool_resize_establishes [OF sample_region_ok, of 2000 "\<lambda>_. True" 8 0] by auto
qed

text \<open>
  C18: buffers never overlap.  In every state reachable from a pool in good order by any sequence of
  get, free, enqueue and dequeue calls, with any arguments, the pool is in good order; each packet
  lies within the region, and two different packets share no byte.
\<close>

theorem pool_reachable_safe:
  assumes "pool_inv p0" "pool_step\<^sup>*\<^sup>* p0 p"
    and "i < unat (num_packets p0)" "j < unat (num_packets p0)" "i \<noteq> j"
  shows "pool_inv p \<and> packet_range p (packet p i) \<inter> packet_range p (packet p j) = {} \<and>
    packet_range p (packet p i) \<subseteq> {unat (buf_paddr p0) ..< unat (buf_paddr p0) + unat (pool_size p0)}"
proof -
  have p: "pool_inv p" "geometry p = geometry p0" using steps_keep [OF assms(2,1)] by auto
  then have g: "pool_geom p" by (simp add: pool_inv_def)
  have n: "num_packets p = num_packets p0" "buf_paddr p = buf_paddr p0" "pool_size p = pool_size p0"
    using p(2) by (simp_all add: geometry_def)
  have "packet_range p (packet p i) \<inter> packet_range p (packet p j) = {}"
    using packet_ranges_disjoint [OF g, of i j] packet_ranges_disjoint [OF g, of j i] assms(3-5) n by (cases "i < j") auto
  moreover have "packet_range p (packet p i) \<subseteq> {unat (buf_paddr p0) ..< unat (buf_paddr p0) + unat (pool_size p0)}"
    using packet_range_inside [OF g, of i] assms(3) n by fastforce
  ultimately show ?thesis using p(1) by blast
qed

theorem pool_reachable_safe_witness:
  "\<exists>p. pool_freebuf sample_pool 0x1000000C = Some (0, p) \<and> pool_inv p \<and>
    packet_range p (packet p 0) \<inter> packet_range p (packet p 1) = {}"
proof -
  obtain p where p: "pool_freebuf sample_pool 0x1000000C = Some (0, p)"
    using freebuf_used_bufs [OF sample_pool_inv, of "0x1000000C"] by (auto simp: sample_pool_bufs)
  then have "pool_step\<^sup>*\<^sup>* sample_pool p" by (blast intro: pool_step.step_free)
  then show ?thesis
    using pool_reachable_safe [OF sample_pool_inv, of p 0 1] p by (simp add: sample_pool_def)
qed

text \<open>The addresses just behind the last packet but still inside the region: their index is
  \<open>num_packets\<close>, which the bounds test of \<open>is_valid_pbuf\<close> lets through.\<close>

definition behind_last :: "pool \<Rightarrow> u64 \<Rightarrow> bool" where
  "behind_last p b \<longleftrightarrow> ppackets p \<le> b \<and> b \<le> buf_paddr p + pool_size p \<and>
     (unat b - unat (buf_paddr p)) div unat (aligned_packet_size p) = unat (num_packets p)"

lemma is_valid_pbuf_outcome:
  assumes inv: "pool_inv p"
  shows "is_valid_pbuf (p\<lparr>pool_lock := True\<rparr>) b =
    (if behind_last p b then None else Some (b \<in> packet p ` {..<unat (num_packets p)}))"
proof -
  let ?q = "p\<lparr>pool_lock := True\<rparr>" and ?i = "(unat b - unat (buf_paddr p)) div unat (aligned_packet_size p)"
  obtain es where es: "pentries p = Some es" "length es = unat (num_packets p)" by (rule pool_invE [OF inv])
  note L = inv_lists [OF inv es(1)]
  have g: "pool_geom ?q" using L(10) by (simp add: pool_geom_def)
  have out: "b \<notin> packet p ` {..<unat (num_packets p)}" if "b < ppackets p \<or> buf_paddr p + pool_size p < b"
    using packet_bounds [OF L(10)] that by (metis imageE lessThan_iff less_imp_le not_le)
  have ix: "pbuf2pentry ?q b = Some ?i" if "\<not> (b < ppackets p \<or> buf_paddr p + pool_size p < b)"
    using pbuf2pentry_exact [OF g, of b] that by (simp add: not_less)
  have pk: "?i = j" if "b = packet p j" "j < unat (num_packets p)" for j
  proof -
    have "0 < unat (aligned_packet_size p)" using L(10) by (simp add: pool_geom_def unat_gt_0)
    then show ?thesis using packet_value(1) [OF L(10), of j] that by simp
  qed
  show ?thesis
  proof (cases "b < ppackets p \<or> buf_paddr p + pool_size p < b")
    case True
    then show ?thesis using out by (auto simp: is_valid_pbuf_def behind_last_def)
  next
    case False
    then have v: "is_valid_pbuf ?q b = (if unat (num_packets p) < ?i then Some False
        else do { e \<leftarrow> entry ?q ?i; Some (pe_pbuf e = b) })"
      using ix by (simp add: is_valid_pbuf_def)
    consider "unat (num_packets p) < ?i" | "?i = unat (num_packets p)" | "?i < unat (num_packets p)" by linarith
    then show ?thesis
    proof cases
      case 1
      then show ?thesis unfolding v using pk by (auto simp: behind_last_def)
    next
      case 2
      then show ?thesis unfolding v using False es by (simp add: behind_last_def entry_def not_less)
    next
      case 3
      have "entry ?q ?i = Some (es ! ?i)" "pe_pbuf (es ! ?i) = packet p ?i" using es 3 L(4) by (simp_all add: entry_def)
      then have "is_valid_pbuf ?q b = Some (packet p ?i = b)" unfolding v using 3 by simp
      moreover have "packet p ?i = b \<longleftrightarrow> b \<in> packet p ` {..<unat (num_packets p)}" proof
        assume "packet p ?i = b"
        then show "b \<in> packet p ` {..<unat (num_packets p)}" using 3 by (intro image_eqI [of _ _ ?i]) simp_all
      next
        assume "b \<in> packet p ` {..<unat (num_packets p)}"
        then obtain j where "j < unat (num_packets p)" "b = packet p j" by auto
        then show "packet p ?i = b" using pk by simp
      qed
      ultimately show ?thesis using 3 by (simp add: behind_last_def)
    qed
  qed
qed

lemma release_outside:
  assumes "pool_inv p" "b \<notin> used_bufs p"
  shows "pool_freebuf p b = (if behind_last p b then None else Some (- EINVAL, p)) \<and>
    pool_enqbuf p b len ooblen flags = (if behind_last p b then None else Some (- EINVAL, p))"
proof -
  have l: "\<not> pool_lock p" using assms(1) by (simp add: pool_inv_def)
  show ?thesis
  proof (cases "\<not> behind_last p b \<and> b \<in> packet p ` {..<unat (num_packets p)}")
    case True
    then obtain i where i: "i < unat (num_packets p)" "b = packet p i" by auto
    then have "i \<notin> set (usedlist p)" using assms(2) by (auto simp: used_bufs_def)
    then show ?thesis using release_refused [OF assms(1) i(1)] i(2) True by simp
  next
    case False
    then show ?thesis
      using is_valid_pbuf_outcome [OF assms(1), of b] l by (auto simp: pool_freebuf_def pool_enqbuf_def spin_lock_def)
  qed
qed

text \<open>
  C21: returning a buffer, for every address.  An address that is no buffer in use is refused with
  \<open>-EINVAL\<close> and the pool unchanged, so a double free or a foreign pointer is harmless; the exception
  are the addresses behind the last packet, for which the code reads beyond the array of entries.
\<close>

theorem pool_release_refused:
  assumes "pool_inv p" "b \<notin> used_bufs p"
  shows "pool_freebuf p b = (if behind_last p b then None else Some (- EINVAL, p)) \<and>
    pool_enqbuf p b len ooblen flags = (if behind_last p b then None else Some (- EINVAL, p))"
  by (rule release_outside [OF assms])

theorem pool_release_refused_witness:
  "pool_freebuf sample_pool 0x10000004 = Some (- EINVAL, sample_pool) \<and> pool_freebuf sample_pool 0x10000018 = None"
proof -
  have "\<not> behind_last sample_pool 0x10000004" "behind_last sample_pool 0x10000018"
    by (simp_all add: behind_last_def sample_pool_def sample_region_def)
  then show ?thesis
    using pool_release_refused [OF sample_pool_inv, of "0x10000004" 0 0 0]
      pool_release_refused [OF sample_pool_inv, of "0x10000018" 0 0 0]
    by (simp add: sample_pool_bufs)
qed

text \<open>
  A failed resize disables the pool.  When \<open>kzalloc\<close> fails, \<open>pool_resize\<close> returns \<open>-ENOMEM\<close> with the
  spin lock held and without entries, and no later operation on the pool returns.
\<close>

theorem pool_resize_nomem_deadlocks:
  assumes "pool_region p" "0 < unat psize" "unat psize + 4096 \<le> unat (pool_size p)" "\<And>n. \<not> alloc n"
  shows "\<exists>p'. pool_resize alloc p psize max_packets force = Some (- ENOMEM, p') \<and> pentries p' = None \<and>
    pool_getbuf_try p' = None \<and> pool_getbuf ws p' = None \<and> pool_freebuf p' b = None \<and>
    pool_enqbuf p' b len ooblen flags = None \<and> pool_deqbuf_try p' = None \<and> pool_deqbuf ws p' = None \<and>
    pool_busy p' = None"
proof -
  let ?al = "(psize + 3) AND NOT 3"
  have R: "\<not> pool_lock p" "unat (pool_size p) < 2 ^ 32" "4096 \<le> unat (pool_size p)"
    using assms(1) by (simp_all add: pool_region_def)
  have b: "unat psize < 2 ^ 32" using assms(3) R(2) by linarith
  have al: "unat ?al = (unat psize + 3) div 4 * 4" using b by (intro align4_value) simp
  then have "unat ?al \<le> unat psize + 3" using align4_bounds(2) [of "unat psize"] by simp
  then have "unat (?al + of_nat 56) = unat ?al + 56" using b by (intro unat_plus_small) simp
  then have "sizeof_pool_entry + ?al \<noteq> 0" by (auto simp: sizeof_pool_entry_def add.commute)
  moreover have "unat (pool_size p - 4096) = unat (pool_size p) - 4096"
    using R(3) by (simp add: unat_sub word_le_nat_alt)
  then have "\<not> pool_size p - PAGE_ALIGN sizeof_pool_entry < psize"
    using assms(3) by (simp add: page_align_entry word_less_nat_alt)
  ultimately obtain p' where "pool_resize alloc p psize max_packets force = Some (- ENOMEM, p')" "pool_lock p'" "pentries p' = None"
    using R(1) assms(4) by (simp add: pool_resize_def spin_lock_def resize_geometry_def Let_def)
  then show ?thesis
    by (simp add: pool_getbuf_try_def pool_getbuf_def pool_getbuf_timeout.simps pool_freebuf_def pool_enqbuf_def
        pool_deqbuf_try_def pool_deqbuf_def pool_deqbuf_timeout.simps pool_busy_def spin_lock_def)
qed

theorem pool_resize_nomem_deadlocks_witness:
  "\<exists>p'. pool_resize (\<lambda>_. False) sample_region 2000 8 0 = Some (- ENOMEM, p') \<and> pool_getbuf_try p' = None"
proof -
  have "pool_size sample_region = 8192" by (simp add: sample_region_def)
  then show ?thesis
    using pool_resize_nomem_deadlocks [OF sample_region_ok, of 2000 "\<lambda>_. False" 8 0 "[]" 0 0 0 0] by auto
qed

text \<open>
  C22: a blocking get returns.  If every wait is ended by a wake-up with the pool in good order, and
  at one of them a packet is free when the lock is taken, then \<open>pool_getbuf\<close> returns 0 with a
  packet that is then in use, however often the waiter lost the race before.
\<close>

theorem pool_getbuf_returns:
  assumes "pool_inv p" "\<forall>w \<in> set ws. \<exists>q. w = Woken q \<and> pool_inv q"
    and "free_bufs p \<noteq> {} \<or> (\<exists>q. Woken q \<in> set ws \<and> free_bufs q \<noteq> {})"
  shows "\<exists>b len p'. pool_getbuf ws p = Some (0, Some (b, len), p') \<and> pool_inv p' \<and> b \<in> used_bufs p' \<and> len = packet_size p'"
proof -
  have "filter (\<lambda>w. w \<noteq> Timed_Out) ws = ws" using assms(2) by (auto simp: filter_id_conv)
  moreover have "\<exists>b len p'. pool_getbuf_timeout ws p = Some (0, Some (b, len), p') \<and> pool_inv p' \<and> b \<in> used_bufs p' \<and> len = packet_size p'"
    using assms
  proof (induction ws arbitrary: p)
    case (Cons w ws)
    obtain q where q: "w = Woken q" "pool_inv q" using Cons.prems(2) by auto
    have l: "\<not> pool_lock p" using Cons.prems(1) by (simp add: pool_inv_def)
    show ?case
    proof (cases "freelist p = []")
      case True
      then have "free_bufs p = {}" by (simp add: free_bufs_def)
      then have "\<exists>b len p'. pool_getbuf_timeout ws q = Some (0, Some (b, len), p') \<and> pool_inv p' \<and> b \<in> used_bufs p' \<and> len = packet_size p'"
        using Cons.prems q by (intro Cons.IH) auto
      then show ?thesis using True l q by (simp add: pool_getbuf_timeout.simps [of "Woken q # ws"] spin_lock_def)
    next
      case False
      then have "free_bufs p \<noteq> {}" by (simp add: free_bufs_def)
      from getbuf_try_some [OF Cons.prems(1) this] False l show ?thesis
        by (auto simp: pool_getbuf_timeout.simps [of "w # ws"] pool_getbuf_try_def spin_lock_def geometry_def elim!: option_bindE)
    qed
  next
    case Nil
    have l: "\<not> pool_lock p" using Nil.prems(1) by (simp add: pool_inv_def)
    have f: "free_bufs p \<noteq> {}" "freelist p \<noteq> []" using Nil.prems by (auto simp: free_bufs_def)
    from getbuf_try_some [OF Nil.prems(1) f(1)] f(2) l show ?case
      by (auto simp: pool_getbuf_timeout.simps [of "[]"] pool_getbuf_try_def spin_lock_def geometry_def elim!: option_bindE)
  qed
  ultimately show ?thesis by (simp add: pool_getbuf_def)
qed

theorem pool_getbuf_returns_witness:
  "\<exists>q b len p'. pool_freebuf sample_pool 0x1000000C = Some (0, q) \<and>
    pool_getbuf [Woken sample_pool, Woken q] sample_pool = Some (0, Some (b, len), p') \<and> b \<in> used_bufs p'"
proof -
  obtain q where q: "pool_freebuf sample_pool 0x1000000C = Some (0, q)" "pool_inv q" "free_bufs q \<noteq> {}"
    using freebuf_used_bufs [OF sample_pool_inv, of "0x1000000C"] by (auto simp: sample_pool_bufs)
  then show ?thesis
    using pool_getbuf_returns [OF sample_pool_inv, of "[Woken sample_pool, Woken q]"] sample_pool_inv by fastforce
qed

end
