(* ===== verification/Zap_Dma.thy ===== *)
theory Zap_Dma
  imports Zap_Pool
begin

text \<open>
  The DMA side of the ZAP driver: \<open>recipes-kernel/iv-zap/src/dma_zynq.c\<close> (registers, interrupt handler,
  receive task, start and stop of the engine) and \<open>dma.c\<close> (the same under a semaphore), on the device
  record of \<open>_zap.h\<close>.

  The FPGA is a parameter: a read of a register yields a value and may change the state of the
  hardware, a write changes it.  \<open>lock2\<close> only encloses single register accesses, each of which is one
  step here.  A signal during \<open>down_interruptible\<close>, the success of an allocation and how a wait on the
  pool ends are arguments.  \<open>None\<close> is a call that does not return: an access outside an array, a lock
  taken twice, \<open>BUG_ON\<close>, or a semaphore that was never initialised.
\<close>

section \<open>State\<close>

record zap_fpga_parameters =
  num_interfaces :: int
  rx_dat_fifo_size :: u64
  rx_oob_fifo_size :: u64
  tx_dat_fifo_size :: u64
  tx_oob_fifo_size :: u64
  fpga_board_code :: int
  fpga_version_major :: int
  fpga_version_minor :: int
  fpga_version_release :: byte

text \<open>The two \<open>in_use\<close> semaphores are their counts.\<close>

record zap_if =
  in_use_rx :: nat
  in_use_tx :: nat
  fakey :: u32
  rx_pool :: pool
  tx_pool :: pool
  rx_size :: u64
  tx_size :: u64
  rx_paddr :: u64
  tx_paddr :: u64
  rx_highwater :: u64
  tx_highwater :: u64
  rx_payload_max_size :: u64
  tx_payload_max_size :: u64
  rx_header_size :: u64
  tx_header_size :: u64
  rx_header_enable :: u64
  tx_header_enable :: u64
  rx_jumbo_pkt_enable :: u64
  tx_jumbo_pkt_enable :: u64

record zap_dev =
  num_devices :: u32
  open_count :: u32
  dev_sem :: bool
  status :: u64
  reg_base :: u64
  reg_sz :: u64
  hw_irq :: u32
  fpga_params :: zap_fpga_parameters
  rx_pool_paddr :: u64
  tx_pool_paddr :: u64
  rx_pool_size :: u64
  tx_pool_size :: u64
  interface :: "zap_if list option"

text \<open>\<open>rx_work\<close> tells whether the receive task is queued or running.\<close>

record dma_if_interface =
  rx_on :: bool
  tx_on :: bool
  rx_dma_count :: u32
  tx_dma_count :: u32
  rx_work :: bool

record dma_if =
  zap_reg :: bool
  dma_irq :: int
  rx_buffer_paddr :: u64
  tx_buffer_paddr :: u64
  rx_buffer_size :: u64
  tx_buffer_size :: u64
  dma_interface :: "dma_if_interface list option"

text \<open>The whole driver, with the state \<open>'h\<close> of the hardware; \<open>dma_sem\<close> is \<open>None\<close> before \<open>sema_init\<close>.\<close>

record 'h zap =
  zap_devp :: zap_dev
  pdma_if :: dma_if
  dma_sem :: "bool option"
  z_hw :: 'h

record 'h fpga =
  fp_read :: "u32 \<Rightarrow> 'h \<Rightarrow> u32 \<times> 'h"
  fp_write :: "u32 \<Rightarrow> u32 \<Rightarrow> 'h \<Rightarrow> 'h"

text \<open>Access to the interface arrays of the two records.\<close>

definition nth_opt :: "'a list option \<Rightarrow> nat \<Rightarrow> 'a option" where
  "nth_opt l i = (case l of None \<Rightarrow> None | Some xs \<Rightarrow> if i < length xs then Some (xs ! i) else None)"

definition upd_opt :: "nat \<Rightarrow> ('a \<Rightarrow> 'a) \<Rightarrow> 'a list option \<Rightarrow> 'a list option" where
  "upd_opt i f l = map_option (\<lambda>xs. xs[i := f (xs ! i)]) l"

definition zif :: "'h zap \<Rightarrow> nat \<Rightarrow> zap_if option" where
  "zif z i = nth_opt (interface (zap_devp z)) i"

definition upd_zif :: "nat \<Rightarrow> (zap_if \<Rightarrow> zap_if) \<Rightarrow> 'h zap \<Rightarrow> 'h zap" where
  "upd_zif i f z = z\<lparr>zap_devp := (zap_devp z)\<lparr>interface := upd_opt i f (interface (zap_devp z))\<rparr>\<rparr>"

definition dif :: "'h zap \<Rightarrow> nat \<Rightarrow> dma_if_interface option" where
  "dif z i = nth_opt (dma_interface (pdma_if z)) i"

definition upd_dif :: "nat \<Rightarrow> (dma_if_interface \<Rightarrow> dma_if_interface) \<Rightarrow> 'h zap \<Rightarrow> 'h zap" where
  "upd_dif i f z = z\<lparr>pdma_if := (pdma_if z)\<lparr>dma_interface := upd_opt i f (dma_interface (pdma_if z))\<rparr>\<rparr>"

section \<open>Registers\<close>

definition ZAP_REG_NUM_PORTS :: u32 where "ZAP_REG_NUM_PORTS = 0x18"
definition ZAP_REG_ISR :: u32 where "ZAP_REG_ISR = 0x04"
definition ZAP_REG_CSR :: u32 where "ZAP_REG_CSR = 0x00"
definition CSR_TX_JUMBO_EN :: u32 where "CSR_TX_JUMBO_EN = push_bit 5 1"
definition CSR_RX_JUMBO_EN :: u32 where "CSR_RX_JUMBO_EN = push_bit 4 1"
definition CSR_TX_OOB :: u32 where "CSR_TX_OOB = push_bit 3 1"
definition CSR_RX_OOB :: u32 where "CSR_RX_OOB = push_bit 2 1"
definition CSR_TXEN :: u32 where "CSR_TXEN = push_bit 1 1"
definition CSR_RXEN :: u32 where "CSR_RXEN = push_bit 0 1"
definition ZAP_REG_ICR :: u32 where "ZAP_REG_ICR = 0x04"
definition ICR_SET_TX_FREE_RDY :: u32 where "ICR_SET_TX_FREE_RDY = push_bit 19 1"
definition ICR_SET_TX_FULL_RDY :: u32 where "ICR_SET_TX_FULL_RDY = push_bit 18 1"
definition ICR_SET_RXRDY :: u32 where "ICR_SET_RXRDY = push_bit 17 1"
definition ICR_SET_GLBL :: u32 where "ICR_SET_GLBL = push_bit 16 1"
definition ICR_CLR_TX_FREE_RDY :: u32 where "ICR_CLR_TX_FREE_RDY = push_bit 3 1"
definition ICR_CLR_TX_FULL_RDY :: u32 where "ICR_CLR_TX_FULL_RDY = push_bit 2 1"
definition ICR_CLR_RXRDY :: u32 where "ICR_CLR_RXRDY = push_bit 1 1"
definition ICR_INT_PEND :: u32 where "ICR_INT_PEND = push_bit 31 1"
definition ICR_MSK_TX_FREE_RDY :: u32 where "ICR_MSK_TX_FREE_RDY = push_bit 19 1"
definition ICR_MSK_TX_FULL_RDY :: u32 where "ICR_MSK_TX_FULL_RDY = push_bit 18 1"
definition ICR_MSK_RXRDY :: u32 where "ICR_MSK_RXRDY = push_bit 17 1"
definition ICR_INT_TX_FREE_RDY :: u32 where "ICR_INT_TX_FREE_RDY = push_bit 3 1"
definition ICR_INT_TX_FULL_RDY :: u32 where "ICR_INT_TX_FULL_RDY = push_bit 2 1"
definition ICR_INT_RXRDY :: u32 where "ICR_INT_RXRDY = push_bit 1 1"
definition ZAP_REG_TBAR :: u32 where "ZAP_REG_TBAR = 0x08"
definition ZAP_REG_RBAR :: u32 where "ZAP_REG_RBAR = 0x0C"
definition ZAP_REG_BSR :: u32 where "ZAP_REG_BSR = 0x10"
definition RX_SIZE_OOB_OVERFLOW_ERR :: u32 where "RX_SIZE_OOB_OVERFLOW_ERR = 0x80000000"
definition RX_SIZE_DAT_OVERFLOW_ERR :: u32 where "RX_SIZE_DAT_OVERFLOW_ERR = 0x40000000"
definition ZAP_REG_HIGH_WATER_MARK :: u32 where "ZAP_REG_HIGH_WATER_MARK = 0x18"
definition ZAP_REG_RX_FIFO_SIZE :: u32 where "ZAP_REG_RX_FIFO_SIZE = 0x14"
definition ZAP_REG_TX_FIFO_SIZE :: u32 where "ZAP_REG_TX_FIFO_SIZE = 0x1C"
definition ZAP_REG_MAX_RX_SIZE :: u32 where "ZAP_REG_MAX_RX_SIZE = 0x14"
definition ZAP_REG_READ_VERSION :: u32 where "ZAP_REG_READ_VERSION = 0x18"
definition FPGA_VERSION_REG :: u32 where "FPGA_VERSION_REG = 0x00"
definition ZAP_DESC_FLAG_OVERFLOW_OOB :: u64 where "ZAP_DESC_FLAG_OVERFLOW_OOB = 0x02"
definition ZAP_DESC_FLAG_OVERFLOW_DATA :: u64 where "ZAP_DESC_FLAG_OVERFLOW_DATA = 0x04"

lemmas icr_defs = ICR_SET_TX_FREE_RDY_def ICR_SET_TX_FULL_RDY_def ICR_SET_RXRDY_def ICR_SET_GLBL_def
  ICR_CLR_TX_FREE_RDY_def ICR_CLR_TX_FULL_RDY_def ICR_CLR_RXRDY_def ICR_INT_PEND_def ICR_MSK_TX_FREE_RDY_def
  ICR_MSK_TX_FULL_RDY_def ICR_MSK_RXRDY_def ICR_INT_TX_FREE_RDY_def ICR_INT_TX_FULL_RDY_def ICR_INT_RXRDY_def

lemmas csr_defs = CSR_TX_JUMBO_EN_def CSR_RX_JUMBO_EN_def CSR_TX_OOB_def CSR_RX_OOB_def CSR_TXEN_def CSR_RXEN_def

lemmas reg_defs = ZAP_REG_NUM_PORTS_def ZAP_REG_ISR_def ZAP_REG_CSR_def ZAP_REG_ICR_def ZAP_REG_TBAR_def ZAP_REG_RBAR_def
  ZAP_REG_BSR_def ZAP_REG_HIGH_WATER_MARK_def ZAP_REG_RX_FIFO_SIZE_def ZAP_REG_TX_FIFO_SIZE_def ZAP_REG_MAX_RX_SIZE_def
  ZAP_REG_READ_VERSION_def FPGA_VERSION_REG_def

definition VSOC_ZAP_REG_READ :: "'h fpga \<Rightarrow> u32 \<Rightarrow> 'h zap \<Rightarrow> u32 \<times> 'h zap" where
  "VSOC_ZAP_REG_READ F reg z = (let (v, h) = fp_read F reg (z_hw z) in (v, z\<lparr>z_hw := h\<rparr>))"

definition VSOC_ZAP_REG_WRITE :: "'h fpga \<Rightarrow> u32 \<Rightarrow> u32 \<Rightarrow> 'h zap \<Rightarrow> 'h zap" where
  "VSOC_ZAP_REG_WRITE F reg val z = z\<lparr>z_hw := fp_write F reg val (z_hw z)\<rparr>"

definition VSOC_ZAP_REG_WRITE_MASKED :: "'h fpga \<Rightarrow> u32 \<Rightarrow> u32 \<Rightarrow> u32 \<Rightarrow> 'h zap \<Rightarrow> 'h zap" where
  "VSOC_ZAP_REG_WRITE_MASKED F reg val msk z =
     (let (old, z) = VSOC_ZAP_REG_READ F reg z
      in VSOC_ZAP_REG_WRITE F reg ((val AND msk) OR (old AND NOT msk)) z)"

definition ZAP_REG_READ :: "'h fpga \<Rightarrow> nat \<Rightarrow> u32 \<Rightarrow> 'h zap \<Rightarrow> u32 \<times> 'h zap" where
  "ZAP_REG_READ F iDevice reg z = VSOC_ZAP_REG_READ F (of_nat iDevice * 0x20 + reg) z"

definition ZAP_REG_WRITE :: "'h fpga \<Rightarrow> nat \<Rightarrow> u32 \<Rightarrow> u32 \<Rightarrow> 'h zap \<Rightarrow> 'h zap" where
  "ZAP_REG_WRITE F iDevice reg val z = VSOC_ZAP_REG_WRITE F (of_nat iDevice * 0x20 + reg) val z"

definition ZAP_REG_WRITE_MASKED :: "'h fpga \<Rightarrow> nat \<Rightarrow> u32 \<Rightarrow> u32 \<Rightarrow> u32 \<Rightarrow> 'h zap \<Rightarrow> 'h zap" where
  "ZAP_REG_WRITE_MASKED F iDevice reg val msk z = VSOC_ZAP_REG_WRITE_MASKED F (of_nat iDevice * 0x20 + reg) val msk z"

section \<open>The receive task\<close>

definition dma_ll_put_rx :: "'h fpga \<Rightarrow> nat \<Rightarrow> u64 \<Rightarrow> u64 \<Rightarrow> 'h zap \<Rightarrow> 'h zap" where
  "dma_ll_put_rx F iDevice pbuf len z = ZAP_REG_WRITE F iDevice ZAP_REG_RBAR (ucast pbuf) z"

definition dma_ll_put_tx :: "u64 \<Rightarrow> u64 \<Rightarrow> u64 \<Rightarrow> 'h zap \<Rightarrow> 'h zap" where
  "dma_ll_put_tx pbuf len ooblen z = z"

text \<open>One call of \<open>pool_getbuf_timeout\<close>, and what is done with its result.\<close>

definition rx_getbuf :: "wait list \<Rightarrow> nat \<Rightarrow> 'h zap \<Rightarrow> (int \<times> (u64 \<times> u64) option \<times> 'h zap) option" where
  "rx_getbuf ws i z = do {
     f \<leftarrow> zif z i;
     (err, r, p) \<leftarrow> pool_getbuf_timeout ws (rx_pool f);
     Some (err, r, upd_zif i (\<lambda>f. f\<lparr>rx_pool := p\<rparr>) z) }"

definition rx_post :: "'h fpga \<Rightarrow> nat \<Rightarrow> int \<Rightarrow> (u64 \<times> u64) option \<Rightarrow> 'h zap \<Rightarrow> 'h zap" where
  "rx_post F i err r z =
     (if err \<noteq> 0 then upd_dif i (\<lambda>d. d\<lparr>rx_on := False\<rparr>) z
      else case r of None \<Rightarrow> z | Some (pbuf, len) \<Rightarrow> dma_ll_put_rx F i pbuf len z)"

text \<open>
  The task of interface \<open>i\<close>.  Each round is a call of \<open>pool_getbuf_timeout\<close>: how its waits end, and
  whether \<open>rx_on\<close> is cleared by another context before it is tested again.  The inner loop goes
  round while the call times out; as it tests the same flag, it is the same recursion.  When the
  rounds are used up, the task is still running.
\<close>

fun dma_rx_task :: "'h fpga \<Rightarrow> nat \<Rightarrow> (wait list \<times> bool) list \<Rightarrow> 'h zap \<Rightarrow> 'h zap option" where
  "dma_rx_task F i rounds z = do {
     d \<leftarrow> dif z i;
     if \<not> rx_on d then Some (upd_dif i (\<lambda>d. d\<lparr>rx_work := False\<rparr>) z)
     else case rounds of
       [] \<Rightarrow> None
     | (ws, stop) # rounds \<Rightarrow> do {
         (err, r, z) \<leftarrow> rx_getbuf ws i z;
         let z = (if stop then upd_dif i (\<lambda>d. d\<lparr>rx_on := False\<rparr>) z else z);
         d \<leftarrow> dif z i;
         if err = - EAGAIN \<and> rx_on d then dma_rx_task F i rounds z
         else dma_rx_task F i rounds (rx_post F i err r z) } }"

declare dma_rx_task.simps [simp del]

text \<open>\<open>flush_workqueue\<close> waits until the task is done.  It is called with \<open>rx_on\<close> cleared, so a task that
  is inside \<open>pool_getbuf_timeout\<close> (\<open>Some ws\<close>) completes that call and then ends.\<close>

definition flush_workqueue :: "'h fpga \<Rightarrow> wait list option \<Rightarrow> nat \<Rightarrow> 'h zap \<Rightarrow> 'h zap option" where
  "flush_workqueue F inflight i z = do {
     d \<leftarrow> dif z i;
     if \<not> rx_work d then Some z
     else do {
       z \<leftarrow> (case inflight of
           None \<Rightarrow> Some z
         | Some ws \<Rightarrow> do { (err, r, z) \<leftarrow> rx_getbuf ws i z; Some (rx_post F i err r z) });
       Some (upd_dif i (\<lambda>d. d\<lparr>rx_work := False\<rparr>) z) } }"

section \<open>The interrupt handler\<close>

text \<open>Length, out-of-band length and flags from the buffer size register.\<close>

definition rx_sizes :: "bool \<Rightarrow> u32 \<Rightarrow> u32 \<times> u32 \<times> u64" where
  "rx_sizes jumbo bsr =
     (if \<not> jumbo
      then (push_bit 2 (bsr AND 0xFFFF), push_bit 2 (0x3FFF AND drop_bit 16 bsr),
        (if bsr AND RX_SIZE_OOB_OVERFLOW_ERR \<noteq> 0 then ZAP_DESC_FLAG_OVERFLOW_OOB else 0) OR
        (if bsr AND RX_SIZE_DAT_OVERFLOW_ERR \<noteq> 0 then ZAP_DESC_FLAG_OVERFLOW_DATA else 0))
      else (push_bit 2 bsr, 0, 0))"

definition isr_rx :: "'h fpga \<Rightarrow> nat \<Rightarrow> 'h zap \<Rightarrow> 'h zap option" where
  "isr_rx F i z = do {
     let (paddr, z) = ZAP_REG_READ F i ZAP_REG_RBAR z;
     _ \<leftarrow> dif z i;
     let z = upd_dif i (\<lambda>d. d\<lparr>rx_dma_count := rx_dma_count d + 1\<rparr>) z;
     f \<leftarrow> zif z i;
     let offset = ucast paddr - rx_paddr f - pool_packets_offset (rx_pool f);
     let pbuf = pool_offset2pbuf (rx_pool f) offset;
     let (bsr, z) = ZAP_REG_READ F i ZAP_REG_BSR z;
     let (len, ooblen, flags) = rx_sizes (rx_jumbo_pkt_enable f \<noteq> 0) bsr;
     (err, p) \<leftarrow> pool_enqbuf (rx_pool f) pbuf (ucast len) (ucast ooblen) flags;
     if err \<noteq> 0 then None
     else Some (upd_zif i (\<lambda>f. f\<lparr>rx_pool := p\<rparr>) z) }"

text \<open>The word for the buffer size register of a packet to send.\<close>

definition tx_sizes :: "bool \<Rightarrow> u64 \<Rightarrow> u64 \<Rightarrow> u64" where
  "tx_sizes jumbo ulLen ulOoblen =
     (if \<not> jumbo then (0xFFFF AND drop_bit 2 ulLen) OR (push_bit 14 ulOoblen AND 0xFFFF0000)
      else drop_bit 2 ulLen)"

text \<open>The result tells whether the handler gives up.\<close>

definition isr_tx_full :: "'h fpga \<Rightarrow> nat \<Rightarrow> 'h zap \<Rightarrow> (bool \<times> 'h zap) option" where
  "isr_tx_full F i z = do {
     f \<leftarrow> zif z i;
     if fifolist (tx_pool f) = [] then Some (False, ZAP_REG_WRITE F i ZAP_REG_ICR ICR_CLR_TX_FULL_RDY z)
     else do {
       _ \<leftarrow> dif z i;
       let z = upd_dif i (\<lambda>d. d\<lparr>tx_dma_count := tx_dma_count d + 1\<rparr>) z;
       (iRetVal, r, p) \<leftarrow> pool_deqbuf_try (tx_pool f);
       let z = upd_zif i (\<lambda>f. f\<lparr>tx_pool := p\<rparr>) z;
       case r of
         None \<Rightarrow> Some (True, z)
       | Some (pbuf, ulLen, ulOoblen, flags) \<Rightarrow>
           let ulTemp = tx_sizes (tx_jumbo_pkt_enable f \<noteq> 0) ulLen ulOoblen;
               z = ZAP_REG_WRITE F i ZAP_REG_TBAR (ucast pbuf) z;
               z = ZAP_REG_WRITE F i ZAP_REG_BSR (ucast ulTemp) z
           in Some (False, if fifolist p = [] then ZAP_REG_WRITE F i ZAP_REG_ICR ICR_CLR_TX_FULL_RDY z else z) } }"

definition isr_tx_free :: "'h fpga \<Rightarrow> nat \<Rightarrow> 'h zap \<Rightarrow> 'h zap option" where
  "isr_tx_free F i z = do {
     let (tbar, z) = ZAP_REG_READ F i ZAP_REG_TBAR z;
     f \<leftarrow> zif z i;
     (iRetVal, p) \<leftarrow> pool_freebuf (tx_pool f) (ucast tbar);
     Some (upd_zif i (\<lambda>f. f\<lparr>tx_pool := p\<rparr>) z) }"

definition IRQ_HANDLED :: int where "IRQ_HANDLED = 1"

definition dma_isr :: "'h fpga \<Rightarrow> 'h zap \<Rightarrow> (int \<times> 'h zap) option" where
  "dma_isr F z = do {
     let (icr, z) = ZAP_REG_READ F 0 ZAP_REG_ISR z;
     let i = unat (drop_bit 8 icr AND 0xFF);
     if icr AND ICR_INT_PEND = 0 then Some (IRQ_HANDLED, z)
     else do {
       z \<leftarrow> (if icr AND ICR_INT_RXRDY \<noteq> 0 \<and> icr AND ICR_MSK_RXRDY \<noteq> 0 then isr_rx F i z else Some z);
       (fail, z) \<leftarrow> (if icr AND ICR_INT_TX_FULL_RDY \<noteq> 0 \<and> icr AND ICR_MSK_TX_FULL_RDY \<noteq> 0
                    then isr_tx_full F i z else Some (False, z));
       if fail then Some (- 1, z)
       else do {
         z \<leftarrow> (if icr AND ICR_INT_TX_FREE_RDY \<noteq> 0 \<and> icr AND ICR_MSK_TX_FREE_RDY \<noteq> 0 then isr_tx_free F i z else Some z);
         Some (IRQ_HANDLED, z) } } }"

section \<open>Start and stop of the engine\<close>

definition dma_ll_start_tx :: "'h fpga \<Rightarrow> nat \<Rightarrow> 'h zap \<Rightarrow> (int \<times> 'h zap) option" where
  "dma_ll_start_tx F i z = do {
     _ \<leftarrow> dif z i;
     f \<leftarrow> zif z i;
     let z = upd_dif i (\<lambda>d. d\<lparr>tx_dma_count := 0\<rparr>) z;
     let z = ZAP_REG_WRITE_MASKED F i ZAP_REG_CSR 0 CSR_TXEN z;
     let z = ZAP_REG_WRITE_MASKED F i ZAP_REG_CSR CSR_TXEN CSR_TXEN z;
     let z = ZAP_REG_WRITE_MASKED F i ZAP_REG_CSR (if tx_header_enable f \<noteq> 0 then CSR_TX_OOB else 0) CSR_TX_OOB z;
     let z = ZAP_REG_WRITE_MASKED F i ZAP_REG_CSR (if tx_jumbo_pkt_enable f \<noteq> 0 then CSR_TX_JUMBO_EN else 0) CSR_TX_JUMBO_EN z;
     let z = ZAP_REG_WRITE F i ZAP_REG_ICR (ICR_SET_TX_FREE_RDY OR ICR_SET_GLBL) z;
     Some (0, upd_dif i (\<lambda>d. d\<lparr>tx_on := True\<rparr>) z) }"

text \<open>The word for the maximum receive size: payload and out-of-band words, each less one.\<close>

definition max_rx_size :: "zap_if \<Rightarrow> u64" where
  "max_rx_size f =
     (let ulOobWords = (if rx_header_enable f \<noteq> 0 then drop_bit 2 (rx_header_size f) else 0);
          ulPayloadWords = drop_bit 2 (rx_payload_max_size f) - ulOobWords
      in if rx_jumbo_pkt_enable f = 0
         then ((ulPayloadWords - 1) AND 0x0000FFFF) OR (push_bit 16 (ulOobWords - 1) AND 0xFFFF0000)
         else ulPayloadWords - 1)"

definition dma_ll_start_rx :: "'h fpga \<Rightarrow> nat \<Rightarrow> 'h zap \<Rightarrow> (int \<times> 'h zap) option" where
  "dma_ll_start_rx F i z = do {
     _ \<leftarrow> dif z i;
     f \<leftarrow> zif z i;
     let z = upd_dif i (\<lambda>d. d\<lparr>rx_dma_count := 0\<rparr>) z;
     let z = ZAP_REG_WRITE F i ZAP_REG_MAX_RX_SIZE (ucast (max_rx_size f)) z;
     let z = ZAP_REG_WRITE_MASKED F i ZAP_REG_CSR 0 CSR_RXEN z;
     let z = ZAP_REG_WRITE_MASKED F i ZAP_REG_CSR CSR_RXEN CSR_RXEN z;
     let z = ZAP_REG_WRITE_MASKED F i ZAP_REG_CSR (if rx_header_enable f \<noteq> 0 then CSR_RX_OOB else 0) CSR_RX_OOB z;
     let z = ZAP_REG_WRITE_MASKED F i ZAP_REG_CSR (if rx_jumbo_pkt_enable f \<noteq> 0 then CSR_RX_JUMBO_EN else 0) CSR_RX_JUMBO_EN z;
     let z = ZAP_REG_WRITE F i ZAP_REG_ICR (ICR_SET_RXRDY OR ICR_SET_GLBL) z;
     Some (0, upd_dif i (\<lambda>d. d\<lparr>rx_on := True, rx_work := True\<rparr>) z) }"

text \<open>\<open>pool_flush\<close> followed by \<open>pool_busy\<close>, and what to do with the error.\<close>

definition flush_busy :: "(u64 \<Rightarrow> bool) \<Rightarrow> pool \<Rightarrow> (int \<times> pool) option" where
  "flush_busy alloc p = do {
     (err, p) \<leftarrow> pool_flush alloc p;
     if err \<noteq> 0 then Some (err, p) else pool_busy p }"

definition dma_ll_stop_tx :: "'h fpga \<Rightarrow> (u64 \<Rightarrow> bool) \<Rightarrow> nat \<Rightarrow> 'h zap \<Rightarrow> (int \<times> 'h zap) option" where
  "dma_ll_stop_tx F alloc i z = do {
     _ \<leftarrow> dif z i;
     let z = upd_dif i (\<lambda>d. d\<lparr>tx_on := False\<rparr>) z;
     let z = ZAP_REG_WRITE_MASKED F i ZAP_REG_CSR 0 CSR_TXEN z;
     let z = ZAP_REG_WRITE F i ZAP_REG_ICR ICR_CLR_TX_FREE_RDY z;
     f \<leftarrow> zif z i;
     (err, p) \<leftarrow> flush_busy alloc (tx_pool f);
     Some (err, upd_zif i (\<lambda>f. f\<lparr>tx_pool := p\<rparr>) z) }"

definition dma_ll_stop_rx :: "'h fpga \<Rightarrow> wait list option \<Rightarrow> (u64 \<Rightarrow> bool) \<Rightarrow> nat \<Rightarrow> 'h zap \<Rightarrow> (int \<times> 'h zap) option" where
  "dma_ll_stop_rx F inflight alloc i z = do {
     let z = ZAP_REG_WRITE F i ZAP_REG_ICR ICR_CLR_RXRDY z;
     _ \<leftarrow> dif z i;
     let z = upd_dif i (\<lambda>d. d\<lparr>rx_on := False\<rparr>) z;
     let z = ZAP_REG_WRITE_MASKED F i ZAP_REG_CSR 0 CSR_RXEN z;
     z \<leftarrow> flush_workqueue F inflight i z;
     f \<leftarrow> zif z i;
     (err, p) \<leftarrow> flush_busy alloc (rx_pool f);
     Some (err, upd_zif i (\<lambda>f. f\<lparr>rx_pool := p\<rparr>) z) }"

section \<open>Setup and removal\<close>

text \<open>\<open>while (pow2_boundary_pages < get_num_physpages()) pow2_boundary_pages <<= 1\<close>: after 64
  rounds the word is 0 for good, so more fuel changes nothing.\<close>

fun pow2_boundary :: "nat \<Rightarrow> u64 \<Rightarrow> u64 \<Rightarrow> u64 option" where
  "pow2_boundary 0 pages b = None"
| "pow2_boundary (Suc n) pages b = (if b < pages then pow2_boundary n pages (push_bit 1 b) else Some b)"

definition ZAP_POOL_MIN_SIZE :: u64 where "ZAP_POOL_MIN_SIZE = 0"

record dma_init_env =
  di_physpages :: u64
  di_ioremap :: bool
  di_kzalloc :: bool
  di_gic_node :: bool
  di_of_mapping :: "u32 \<Rightarrow> u32"
  di_request_irq :: int

definition dma_xlate_irq :: "bool \<Rightarrow> (u32 \<Rightarrow> u32) \<Rightarrow> u32 \<Rightarrow> u32" where
  "dma_xlate_irq gic_node create_of_mapping hwirq =
     (if \<not> gic_node then hwirq else let irq = create_of_mapping hwirq in if irq = 0 then hwirq else irq)"

definition dma_if_fresh :: dma_if_interface where
  "dma_if_fresh = \<lparr>rx_on = False, tx_on = False, rx_dma_count = 0, tx_dma_count = 0, rx_work = False\<rparr>"

definition dma_ll_init :: "dma_init_env \<Rightarrow> u64 \<Rightarrow> u64 \<Rightarrow> u64 \<Rightarrow> u64 \<Rightarrow> 'h zap \<Rightarrow> (int \<times> 'h zap) option" where
  "dma_ll_init E rxp rxs txp txs z = do {
     pow2_boundary_pages \<leftarrow> pow2_boundary 65 (di_physpages E) 1;
     let zap_pool_size = (pow2_boundary_pages - di_physpages E) * 4096;
     if zap_pool_size < ZAP_POOL_MIN_SIZE then Some (- ENOMEM, z)
     else let
       p = (pdma_if z)\<lparr>rx_buffer_paddr := rxp, rx_buffer_size := rxs, tx_buffer_paddr := txp,
            tx_buffer_size := txs, dma_irq := - 1, zap_reg := di_ioremap E\<rparr>
     in if \<not> di_ioremap E then Some (- ENOMEM, z\<lparr>pdma_if := p\<rparr>)
     else if \<not> di_kzalloc E then Some (- ENOMEM, z\<lparr>pdma_if := p\<lparr>dma_interface := None\<rparr>\<rparr>)
     else let
       irq = sint (dma_xlate_irq (di_gic_node E) (di_of_mapping E) (hw_irq (zap_devp z)));
       p = p\<lparr>dma_interface := Some (replicate (unat (num_devices (zap_devp z))) dma_if_fresh), dma_irq := irq\<rparr>
     in if irq \<le> 0 then Some (- ENODEV, z\<lparr>pdma_if := p\<rparr>)
     else Some (di_request_irq E, z\<lparr>pdma_if := p\<rparr>) }"

text \<open>The resources given back: whether the registers are unmapped, and the interrupt freed if any.
  The array is gone afterwards.\<close>

definition dma_ll_cleanup :: "'h zap \<Rightarrow> ((bool \<times> int option) \<times> 'h zap) option" where
  "dma_ll_cleanup z =
     (let p = pdma_if z;
          n = unat (num_devices (zap_devp z));
          irq = (if 0 \<le> dma_irq p then Some (dma_irq p) else None)
      in if 0 < n \<and> (case dma_interface p of None \<Rightarrow> True | Some l \<Rightarrow> length l < n) then None
         else Some ((zap_reg p, irq),
           z\<lparr>pdma_if := p\<lparr>dma_irq := (if irq = None then dma_irq p else - 1), dma_interface := None\<rparr>\<rparr>))"

definition dma_ll_rx_is_on :: "nat \<Rightarrow> 'h zap \<Rightarrow> bool option" where
  "dma_ll_rx_is_on i z = map_option rx_on (dif z i)"

definition dma_ll_tx_is_on :: "nat \<Rightarrow> 'h zap \<Rightarrow> bool option" where
  "dma_ll_tx_is_on i z = map_option tx_on (dif z i)"

definition dma_ll_tx_write_buf :: "'h fpga \<Rightarrow> nat \<Rightarrow> 'h zap \<Rightarrow> 'h zap" where
  "dma_ll_tx_write_buf F i z = ZAP_REG_WRITE F i ZAP_REG_ICR ICR_SET_TX_FULL_RDY z"

definition dma_ll_update_high_water_marks :: "'h fpga \<Rightarrow> nat \<Rightarrow> 'h zap \<Rightarrow> 'h zap option" where
  "dma_ll_update_high_water_marks F i z = do {
     let (w, z) = ZAP_REG_READ F i ZAP_REG_HIGH_WATER_MARK z;
     _ \<leftarrow> zif z i;
     Some (upd_zif i (\<lambda>f. f\<lparr>rx_highwater := 4 * (ucast w AND 0xFFFF),
       tx_highwater := 4 * (drop_bit 16 (ucast w) AND 0xFFFF)\<rparr>) z) }"

definition dma_ll_rx_dma_count :: "nat \<Rightarrow> 'h zap \<Rightarrow> u32 option" where
  "dma_ll_rx_dma_count i z = map_option rx_dma_count (dif z i)"

definition dma_ll_tx_dma_count :: "nat \<Rightarrow> 'h zap \<Rightarrow> u32 option" where
  "dma_ll_tx_dma_count i z = map_option tx_dma_count (dif z i)"

text \<open>Version, FIFO sizes and number of ports are read again while no device is open; the sizes are
  computed in 32 bits.\<close>

definition dma_ll_update_fpga_parameters :: "'h fpga \<Rightarrow> 'h zap \<Rightarrow> 'h zap" where
  "dma_ll_update_fpga_parameters F z =
     (if open_count (zap_devp z) \<noteq> 0 then z
      else let
        z = ZAP_REG_WRITE F 0 ZAP_REG_READ_VERSION 1 z;
        (v, z) = ZAP_REG_READ F 1 FPGA_VERSION_REG z;
        (rx, z) = ZAP_REG_READ F 0 ZAP_REG_RX_FIFO_SIZE z;
        (tx, z) = ZAP_REG_READ F 0 ZAP_REG_TX_FIFO_SIZE z;
        (n, z) = ZAP_REG_READ F 0 ZAP_REG_NUM_PORTS z;
        params = \<lparr>num_interfaces = (if n = 0 then 1 else sint n),
          rx_dat_fifo_size = ucast (4 * (rx AND 0xFFFF)), rx_oob_fifo_size = ucast (4 * (drop_bit 16 rx AND 0xFFFF)),
          tx_dat_fifo_size = ucast (4 * (tx AND 0xFFFF)), tx_oob_fifo_size = ucast (4 * (drop_bit 16 tx AND 0xFFFF)),
          fpga_board_code = uint (drop_bit 24 v AND 0xFF), fpga_version_major = uint (drop_bit 16 v AND 0xFF),
          fpga_version_minor = uint (drop_bit 8 v AND 0xFF), fpga_version_release = ucast (v AND 0xFF)\<rparr>;
        z = z\<lparr>zap_devp := (zap_devp z)\<lparr>fpga_params := params\<rparr>\<rparr>
      in ZAP_REG_WRITE F 0 ZAP_REG_READ_VERSION 0 z)"

section \<open>The engine under its semaphore (\<open>dma.c\<close>)\<close>

definition dma_start_rx_unsafe :: "'h fpga \<Rightarrow> (u64 \<Rightarrow> bool) \<Rightarrow> nat \<Rightarrow> 'h zap \<Rightarrow> (int \<times> 'h zap) option" where
  "dma_start_rx_unsafe F alloc i z = do {
     f \<leftarrow> zif z i;
     (err, p) \<leftarrow> flush_busy alloc (rx_pool f);
     let z = upd_zif i (\<lambda>f. f\<lparr>rx_pool := p\<rparr>) z;
     if err \<noteq> 0 then Some (err, z)
     else do { (_, z) \<leftarrow> dma_ll_start_rx F i z; Some (0, z) } }"

definition dma_start_tx_unsafe :: "'h fpga \<Rightarrow> (u64 \<Rightarrow> bool) \<Rightarrow> nat \<Rightarrow> 'h zap \<Rightarrow> (int \<times> 'h zap) option" where
  "dma_start_tx_unsafe F alloc i z = do {
     f \<leftarrow> zif z i;
     (err, p) \<leftarrow> flush_busy alloc (tx_pool f);
     let z = upd_zif i (\<lambda>f. f\<lparr>tx_pool := p\<rparr>) z;
     if err \<noteq> 0 then Some (err, z)
     else do { (_, z) \<leftarrow> dma_ll_start_tx F i z; Some (0, z) } }"

text \<open>The error of the low level is dropped.\<close>

definition dma_stop_rx_unsafe :: "'h fpga \<Rightarrow> wait list option \<Rightarrow> (u64 \<Rightarrow> bool) \<Rightarrow> nat \<Rightarrow> 'h zap \<Rightarrow> (int \<times> 'h zap) option" where
  "dma_stop_rx_unsafe F inflight alloc i z = do { (_, z) \<leftarrow> dma_ll_stop_rx F inflight alloc i z; Some (0, z) }"

definition dma_stop_tx_unsafe :: "'h fpga \<Rightarrow> (u64 \<Rightarrow> bool) \<Rightarrow> nat \<Rightarrow> 'h zap \<Rightarrow> (int \<times> 'h zap) option" where
  "dma_stop_tx_unsafe F alloc i z = do { (_, z) \<leftarrow> dma_ll_stop_tx F alloc i z; Some (0, z) }"

text \<open>A function between \<open>down_interruptible\<close> and \<open>up\<close> on \<open>pdma->sem\<close>.\<close>

definition with_dma_sem :: "bool \<Rightarrow> ('h zap \<Rightarrow> (int \<times> 'h zap) option) \<Rightarrow> 'h zap \<Rightarrow> (int \<times> 'h zap) option" where
  "with_dma_sem intr body z = (case dma_sem z of
     None \<Rightarrow> None
   | Some avail \<Rightarrow> if intr then Some (- ERESTARTSYS, z)
       else if \<not> avail then None
       else do { (err, z) \<leftarrow> body (z\<lparr>dma_sem := Some False\<rparr>); Some (err, z\<lparr>dma_sem := Some True\<rparr>) })"

definition dma_start_rx :: "'h fpga \<Rightarrow> bool \<Rightarrow> wait list option \<Rightarrow> (u64 \<Rightarrow> bool) \<Rightarrow> nat \<Rightarrow> 'h zap \<Rightarrow> (int \<times> 'h zap) option" where
  "dma_start_rx F intr inflight alloc i = with_dma_sem intr (\<lambda>z. do {
     (err, z) \<leftarrow> dma_stop_rx_unsafe F inflight alloc i z;
     if err = 0 then dma_start_rx_unsafe F alloc i z else Some (err, z) })"

definition dma_start_tx :: "'h fpga \<Rightarrow> bool \<Rightarrow> (u64 \<Rightarrow> bool) \<Rightarrow> nat \<Rightarrow> 'h zap \<Rightarrow> (int \<times> 'h zap) option" where
  "dma_start_tx F intr alloc i = with_dma_sem intr (\<lambda>z. do {
     (err, z) \<leftarrow> dma_stop_tx_unsafe F alloc i z;
     if err = 0 then dma_start_tx_unsafe F alloc i z else Some (err, z) })"

definition dma_stop_rx :: "'h fpga \<Rightarrow> bool \<Rightarrow> wait list option \<Rightarrow> (u64 \<Rightarrow> bool) \<Rightarrow> nat \<Rightarrow> 'h zap \<Rightarrow> (int \<times> 'h zap) option" where
  "dma_stop_rx F intr inflight alloc i = with_dma_sem intr (dma_stop_rx_unsafe F inflight alloc i)"

definition dma_stop_tx :: "'h fpga \<Rightarrow> bool \<Rightarrow> (u64 \<Rightarrow> bool) \<Rightarrow> nat \<Rightarrow> 'h zap \<Rightarrow> (int \<times> 'h zap) option" where
  "dma_stop_tx F intr alloc i = with_dma_sem intr (dma_stop_tx_unsafe F alloc i)"

definition dma_rx_is_on :: "nat \<Rightarrow> 'h zap \<Rightarrow> bool option" where
  "dma_rx_is_on i z = dma_ll_rx_is_on i z"

definition dma_tx_is_on :: "nat \<Rightarrow> 'h zap \<Rightarrow> bool option" where
  "dma_tx_is_on i z = dma_ll_tx_is_on i z"

definition dma_init :: "dma_init_env \<Rightarrow> u64 \<Rightarrow> u64 \<Rightarrow> u64 \<Rightarrow> u64 \<Rightarrow> 'h zap \<Rightarrow> (int \<times> 'h zap) option" where
  "dma_init E rxp rxs txp txs z = do {
     (err, z) \<leftarrow> dma_ll_init E rxp rxs txp txs z;
     if err \<noteq> 0 then Some (err, z) else Some (0, z\<lparr>dma_sem := Some True\<rparr>) }"

text \<open>All ports are stopped, the ones from \<open>i\<close> with \<open>n\<close> to go; the arguments of each stop are given by port.\<close>

fun stop_ports ::
  "'h fpga \<Rightarrow> (nat \<Rightarrow> bool) \<Rightarrow> (nat \<Rightarrow> wait list option) \<Rightarrow> (u64 \<Rightarrow> bool) \<Rightarrow> nat \<Rightarrow> nat \<Rightarrow> 'h zap \<Rightarrow> (int \<times> 'h zap) option"
where
  "stop_ports F intr inflight alloc 0 i z = Some (0, z)"
| "stop_ports F intr inflight alloc (Suc n) i z = do {
     (err, z) \<leftarrow> dma_stop_rx F (intr (2 * i)) (inflight i) alloc i z;
     if err \<noteq> 0 then Some (err, z) else do {
     (err, z) \<leftarrow> dma_stop_tx F (intr (2 * i + 1)) alloc i z;
     if err \<noteq> 0 then Some (err, z) else stop_ports F intr inflight alloc n (i + 1) z } }"

definition dma_cleanup ::
  "'h fpga \<Rightarrow> (nat \<Rightarrow> bool) \<Rightarrow> (nat \<Rightarrow> wait list option) \<Rightarrow> (u64 \<Rightarrow> bool) \<Rightarrow> nat \<Rightarrow> 'h zap \<Rightarrow>
   (int \<times> (bool \<times> int option) option \<times> 'h zap) option"
where
  "dma_cleanup F intr inflight alloc iNumPorts z = do {
     (err, z) \<leftarrow> stop_ports F intr inflight alloc iNumPorts 0 z;
     if err \<noteq> 0 then Some (err, None, z)
     else do { (freed, z) \<leftarrow> dma_ll_cleanup z; Some (0, Some freed, z) } }"

section \<open>Frame lemmas\<close>

lemma nth_upd_opt: "nth_opt (upd_opt i f l) j = (if i = j then map_option f (nth_opt l i) else nth_opt l j)"
  by (auto simp: nth_opt_def upd_opt_def nth_list_update_if split: option.splits)

lemma zif_upd [simp]: "zif (upd_zif i f z) j = (if i = j then map_option f (zif z i) else zif z j)"
  by (simp add: zif_def upd_zif_def nth_upd_opt)

lemma dif_upd [simp]: "dif (upd_dif i f z) j = (if i = j then map_option f (dif z i) else dif z j)"
  by (simp add: dif_def upd_dif_def nth_upd_opt)

lemma upd_frame [simp]:
  "zif (upd_dif i g z) j = zif z j" "dif (upd_zif i f z) j = dif z j"
  "zif (z\<lparr>z_hw := h\<rparr>) j = zif z j" "dif (z\<lparr>z_hw := h\<rparr>) j = dif z j"
  "zif (z\<lparr>dma_sem := b\<rparr>) j = zif z j" "dif (z\<lparr>dma_sem := b\<rparr>) j = dif z j"
  "zif (z\<lparr>pdma_if := q\<rparr>) j = zif z j"
  "z_hw (upd_zif i f z) = z_hw z" "z_hw (upd_dif i g z) = z_hw z"
  "dma_sem (upd_zif i f z) = dma_sem z" "dma_sem (upd_dif i g z) = dma_sem z"
  by (simp_all add: zif_def dif_def upd_zif_def upd_dif_def)

lemma upd_dev [simp]:
  "fpga_params (zap_devp (upd_zif i f z)) = fpga_params (zap_devp z)" "zap_devp (upd_dif i g z) = zap_devp z"
  "dev_sem (zap_devp (upd_zif i f z)) = dev_sem (zap_devp z)" "open_count (zap_devp (upd_zif i f z)) = open_count (zap_devp z)"
  by (simp_all add: upd_zif_def upd_dif_def)

lemma reg_write_frame [simp]:
  "zif (ZAP_REG_WRITE F i r v z) j = zif z j" "dif (ZAP_REG_WRITE F i r v z) j = dif z j"
  "zap_devp (ZAP_REG_WRITE F i r v z) = zap_devp z" "dma_sem (ZAP_REG_WRITE F i r v z) = dma_sem z"
  "z_hw (ZAP_REG_WRITE F i r v z) = fp_write F (of_nat i * 0x20 + r) v (z_hw z)"
  by (simp_all add: ZAP_REG_WRITE_def VSOC_ZAP_REG_WRITE_def)

lemma reg_masked_frame [simp]:
  "zif (ZAP_REG_WRITE_MASKED F i r v m z) j = zif z j" "dif (ZAP_REG_WRITE_MASKED F i r v m z) j = dif z j"
  "zap_devp (ZAP_REG_WRITE_MASKED F i r v m z) = zap_devp z" "dma_sem (ZAP_REG_WRITE_MASKED F i r v m z) = dma_sem z"
  by (simp_all add: ZAP_REG_WRITE_MASKED_def VSOC_ZAP_REG_WRITE_MASKED_def VSOC_ZAP_REG_WRITE_def VSOC_ZAP_REG_READ_def
      case_prod_unfold Let_def)

lemma reg_read_eq: "ZAP_REG_READ F i r z = (let (v, h) = fp_read F (of_nat i * 0x20 + r) (z_hw z) in (v, z\<lparr>z_hw := h\<rparr>))"
  by (simp add: ZAP_REG_READ_def VSOC_ZAP_REG_READ_def)

lemma reg_read_frame [simp]:
  "zif (snd (ZAP_REG_READ F i r z)) j = zif z j" "dif (snd (ZAP_REG_READ F i r z)) j = dif z j"
  "zap_devp (snd (ZAP_REG_READ F i r z)) = zap_devp z" "dma_sem (snd (ZAP_REG_READ F i r z)) = dma_sem z"
  by (simp_all add: reg_read_eq case_prod_unfold Let_def)

section \<open>Pools in use by the driver\<close>

text \<open>A pool is alive if it is in good order or, after a failed allocation, locked for good; the driver
  never leaves anything else behind, and never moves the region of a pool.\<close>

definition pool_alive :: "pool \<Rightarrow> bool" where
  "pool_alive p \<longleftrightarrow> pool_lock p \<or> pool_inv p \<and> 4096 \<le> unat (pool_size p) \<and> packet_size p \<noteq> 0"

definition pool_kept :: "pool \<Rightarrow> pool \<Rightarrow> bool" where
  "pool_kept p p' \<longleftrightarrow> (pool_alive p \<longrightarrow> pool_alive p' \<and> pool_size p' = pool_size p \<and> buf_paddr p' = buf_paddr p)"

lemma pool_kept_refl [simp]: "pool_kept p p"
  by (simp add: pool_kept_def)

lemma pool_kept_trans: "pool_kept p q \<Longrightarrow> pool_kept q r \<Longrightarrow> pool_kept p r"
  by (auto simp: pool_kept_def)

lemma step_locked: "pool_step p p' \<Longrightarrow> \<not> pool_lock p"
  by (cases rule: pool_step.cases)
     (auto simp: pool_getbuf_try_def pool_freebuf_def pool_enqbuf_def pool_deqbuf_try_def pool_busy_def
       pool_freebufs_ready_def pool_fifobufs_ready_def spin_lock_def)

lemma step_kept: "pool_step p p' \<Longrightarrow> pool_kept p p'"
  using step_keeps [of p p'] step_locked [of p p'] by (auto simp: pool_kept_def pool_alive_def geometry_def)

lemmas pool_op_kept = step_kept [OF step_get] step_kept [OF step_free] step_kept [OF step_enq] step_kept [OF step_deq]
  step_kept [OF step_busy]

text \<open>A call that was never woken did what the call without waiting does; one that was woken is that call,
  made later.\<close>

definition no_wake :: "wait list \<Rightarrow> bool" where
  "no_wake ws \<longleftrightarrow> (\<forall>q. Woken q \<notin> set ws)"

definition calm :: "wait list option \<Rightarrow> bool" where
  "calm inflight \<longleftrightarrow> (case inflight of None \<Rightarrow> True | Some ws \<Rightarrow> no_wake ws)"

lemma getbuf_timeout_try:
  assumes "pool_getbuf_timeout ws p = Some (e, r, p')" "no_wake ws"
  shows "\<exists>n. pool_getbuf_try p = Some (n, r, p')"
  using assms unfolding pool_getbuf_timeout.simps [of ws p]
  by (cases ws) (auto simp: pool_getbuf_try_def no_wake_def elim!: option_bindE split: if_splits wait.splits)

lemma deqbuf_timeout_try:
  assumes "pool_deqbuf_timeout ws p = Some (e, r, p')" "no_wake ws"
  shows "\<exists>n. pool_deqbuf_try p = Some (n, r, p')"
  using assms unfolding pool_deqbuf_timeout.simps [of ws p]
  by (cases ws) (auto simp: pool_deqbuf_try_def no_wake_def elim!: option_bindE split: if_splits wait.splits)

lemma no_wake_filter: "no_wake ws \<Longrightarrow> no_wake (filter P ws)"
  by (simp add: no_wake_def)

text \<open>A resize with any outcome.\<close>

lemma resize_alloc:
  "pool_resize alloc p psize m force = Some (0, p') \<Longrightarrow> pool_resize (\<lambda>_. True) p psize m force = Some (0, p')"
  by (auto simp: pool_resize_def ENOMEM_def Let_def elim!: option_bindE split: if_splits)

lemma resize_kept:
  assumes "pool_resize alloc p psize m force = Some (r, p')" "psize \<noteq> 0"
  shows "pool_kept p p'"
proof (unfold pool_kept_def, intro impI)
  assume al: "pool_alive p"
  have same: "pool_size p' = pool_size p" "buf_paddr p' = buf_paddr p"
    using assms(1) by (auto simp: pool_resize_def spin_lock_def resize_geometry_def spin_unlock_def Let_def
        elim!: option_bindE split: if_splits)
  consider "p' = p" | "pool_lock p'" | "r = 0" "\<not> pool_lock p" "unat psize + 4096 \<le> unat (pool_size p)"
  proof (cases "pool_lock p \<or> pool_size p - PAGE_ALIGN sizeof_pool_entry < psize")
    case True
    then have "p' = p" using assms(1) by (auto simp: pool_resize_def spin_lock_def split: if_splits)
    then show ?thesis by (rule that(1))
  next
    case False
    then have "4096 \<le> unat (pool_size p)" using al by (simp add: pool_alive_def)
    then have "unat (pool_size p - 4096) = unat (pool_size p) - 4096" by (simp add: unat_sub word_le_nat_alt)
    then have "unat psize + 4096 \<le> unat (pool_size p)" using False \<open>4096 \<le> unat (pool_size p)\<close>
      unfolding page_align_entry word_less_nat_alt by linarith
    moreover have "r = 0 \<or> pool_lock p'"
      using assms(1) False
      by (auto simp: pool_resize_def spin_lock_def resize_geometry_def Let_def elim!: option_bindE split: if_splits)
    ultimately show ?thesis using that False by blast
  qed
  then have "pool_alive p'"
  proof cases
    case 3
    have inv: "pool_inv p" "4096 \<le> unat (pool_size p)" using al 3(2) by (simp_all add: pool_alive_def)
    then have "pool_region p" by (simp add: pool_region_def pool_inv_def pool_geom_def)
    moreover have "0 < unat psize" using assms(2) by (simp add: unat_gt_0)
    ultimately have "pool_inv p' \<and> packet_size p' = psize"
      using resize_ok [of p psize "\<lambda>_. True" m force] 3 resize_alloc [of alloc p psize m force p'] assms(1) by auto
    then show ?thesis using assms(2) same inv(2) by (simp add: pool_alive_def)
  qed (use al in \<open>simp_all add: pool_alive_def\<close>)
  with same show "pool_alive p' \<and> pool_size p' = pool_size p \<and> buf_paddr p' = buf_paddr p" by simp
qed

lemma flush_kept:
  assumes "pool_flush alloc p = Some (r, p')"
  shows "pool_kept p p'"
proof (cases "packet_size p = 0 \<and> pool_lock p")
  case True
  then have "p' = p" using assms by (auto simp: pool_flush_def pool_resize_def spin_lock_def split: if_splits)
  then show ?thesis by simp
next
  case False
  then show ?thesis
    using resize_kept [of alloc p "packet_size p" "num_packets p" 1 r p'] assms
    by (cases "packet_size p = 0") (auto simp: pool_flush_def pool_kept_def pool_alive_def)
qed

lemma flush_busy_kept:
  assumes "flush_busy alloc p = Some (r, p')"
  shows "pool_kept p p'"
  using assms by (auto simp: flush_busy_def elim!: option_bindE split: if_splits dest!: flush_kept pool_op_kept(5) intro: pool_kept_trans)

section \<open>The engine keeps the pools\<close>

text \<open>From one state to another no interface appears or goes, and both its pools are kept.\<close>

definition if_kept :: "zap_if \<Rightarrow> zap_if \<Rightarrow> bool" where
  "if_kept g g' \<longleftrightarrow> pool_kept (rx_pool g) (rx_pool g') \<and> pool_kept (tx_pool g) (tx_pool g')"

definition pools_kept :: "'h zap \<Rightarrow> 'h zap \<Rightarrow> bool" where
  "pools_kept z z' \<longleftrightarrow> (\<forall>i. rel_option if_kept (zif z i) (zif z' i))"

lemma if_kept_refl [simp]: "if_kept g g"
  by (simp add: if_kept_def)

lemma if_kept_trans: "if_kept f g \<Longrightarrow> if_kept g h \<Longrightarrow> if_kept f h"
  by (auto simp: if_kept_def intro: pool_kept_trans)

lemma pools_kept_same: "(\<And>i. zif z' i = zif z i) \<Longrightarrow> pools_kept z z'"
  by (simp add: pools_kept_def option.rel_refl)

lemma rel_if_kept_trans: "rel_option if_kept a b \<Longrightarrow> rel_option if_kept b c \<Longrightarrow> rel_option if_kept a c"
  by (cases a; cases b; cases c) (auto intro: if_kept_trans)

lemma pools_kept_trans: "pools_kept x y \<Longrightarrow> pools_kept y z \<Longrightarrow> pools_kept x z"
  unfolding pools_kept_def using rel_if_kept_trans by blast

lemma pools_kept_upd: "(\<And>g. zif z i = Some g \<Longrightarrow> if_kept g (f g)) \<Longrightarrow> pools_kept z (upd_zif i f z)"
  by (auto simp: pools_kept_def option.rel_refl split: option.split) (cases "zif z i"; simp)

lemma pools_kept_rx: "zif z i = Some g \<Longrightarrow> pool_kept (rx_pool g) p \<Longrightarrow> pools_kept z (upd_zif i (\<lambda>f. f\<lparr>rx_pool := p\<rparr>) z)"
  by (rule pools_kept_upd) (simp add: if_kept_def)

lemma pools_kept_tx: "zif z i = Some g \<Longrightarrow> pool_kept (tx_pool g) p \<Longrightarrow> pools_kept z (upd_zif i (\<lambda>f. f\<lparr>tx_pool := p\<rparr>) z)"
  by (rule pools_kept_upd) (simp add: if_kept_def)

lemma rx_getbuf_kept:
  assumes "rx_getbuf ws i z = Some (err, r, z')" "no_wake ws"
  shows "pools_kept z z'"
proof -
  obtain f p where f: "zif z i = Some f" "pool_getbuf_timeout ws (rx_pool f) = Some (err, r, p)"
    "z' = upd_zif i (\<lambda>f. f\<lparr>rx_pool := p\<rparr>) z"
    using assms(1) by (auto simp: rx_getbuf_def elim!: option_bindE)
  then show ?thesis using getbuf_timeout_try [OF f(2) assms(2)] by (auto intro: pools_kept_rx pool_op_kept(1))
qed

lemma rx_post_frame [simp]: "zif (rx_post F i err r z) j = zif z j"
  by (auto simp: rx_post_def dma_ll_put_rx_def split: option.split)

lemma flush_workqueue_kept:
  assumes "flush_workqueue F inflight i z = Some z'" "calm inflight"
  shows "pools_kept z z'"
proof -
  obtain d where "dif z i = Some d" using assms(1) by (auto simp: flush_workqueue_def elim!: option_bindE)
  then consider "z' = z" | "z' = upd_dif i (\<lambda>d. d\<lparr>rx_work := False\<rparr>) z"
    | ws err r z1 where "inflight = Some ws" "rx_getbuf ws i z = Some (err, r, z1)"
        "z' = upd_dif i (\<lambda>d. d\<lparr>rx_work := False\<rparr>) (rx_post F i err r z1)"
    using assms(1) by (auto simp: flush_workqueue_def elim!: option_bindE split: if_splits option.splits)
  then show ?thesis
  proof cases
    case 3
    then have "pools_kept z z1" using assms(2) by (auto simp: calm_def intro: rx_getbuf_kept)
    then show ?thesis by (rule pools_kept_trans) (simp add: 3 pools_kept_same)
  qed (simp_all add: pools_kept_same)
qed

lemma isr_rx_kept: "isr_rx F i z = Some z' \<Longrightarrow> pools_kept z z'"
  unfolding isr_rx_def Let_def case_prod_unfold
  by (auto simp: pools_kept_def option.rel_refl if_kept_def elim!: option_bindE split: if_splits dest!: pool_op_kept(3))

lemma isr_tx_full_kept: "isr_tx_full F i z = Some (b, z') \<Longrightarrow> pools_kept z z'"
  unfolding isr_tx_full_def Let_def case_prod_unfold
  by (auto simp: pools_kept_def option.rel_refl if_kept_def elim!: option_bindE split: if_splits option.splits dest!: pool_op_kept(4))

lemma isr_tx_free_kept: "isr_tx_free F i z = Some z' \<Longrightarrow> pools_kept z z'"
  unfolding isr_tx_free_def Let_def case_prod_unfold
  by (auto simp: pools_kept_def option.rel_refl if_kept_def elim!: option_bindE dest!: pool_op_kept(2))

lemma dma_isr_kept:
  assumes "dma_isr F z = Some (r, z')"
  shows "pools_kept z z'"
proof -
  obtain icr z0 where z0: "ZAP_REG_READ F 0 ZAP_REG_ISR z = (icr, z0)" by force
  let ?i = "unat (drop_bit 8 icr AND 0xFF)"
  have k0: "pools_kept z z0" using reg_read_frame(1) [of F 0 ZAP_REG_ISR z] z0 by (intro pools_kept_same) simp
  show ?thesis
  proof (cases "icr AND ICR_INT_PEND = 0")
    case True
    then show ?thesis using assms k0 by (simp add: dma_isr_def z0)
  next
    case False
    then obtain z1 fail z2 where
      z1: "(if icr AND ICR_INT_RXRDY \<noteq> 0 \<and> icr AND ICR_MSK_RXRDY \<noteq> 0 then isr_rx F ?i z0 else Some z0) = Some z1" and
      z2: "(if icr AND ICR_INT_TX_FULL_RDY \<noteq> 0 \<and> icr AND ICR_MSK_TX_FULL_RDY \<noteq> 0 then isr_tx_full F ?i z1
            else Some (False, z1)) = Some (fail, z2)" and
      z3: "z' = z2 \<or> isr_tx_free F ?i z2 = Some z'"
      using assms unfolding dma_isr_def z0 Let_def prod.case
      by (simp only: if_False) (erule option_bindE, erule option_bindE, force split: if_split_asm elim!: option_bindE)
    have "pools_kept z0 z1" using z1 by (auto split: if_split_asm dest: isr_rx_kept intro: pools_kept_same)
    moreover have "pools_kept z1 z2" using z2 by (auto split: if_split_asm dest: isr_tx_full_kept intro: pools_kept_same)
    moreover have "pools_kept z2 z'" using z3 by (auto dest: isr_tx_free_kept intro: pools_kept_same)
    ultimately show ?thesis using k0 by (blast intro: pools_kept_trans)
  qed
qed

lemma stop_tx_kept: "dma_ll_stop_tx F alloc i z = Some (r, z') \<Longrightarrow> pools_kept z z'"
  unfolding dma_ll_stop_tx_def Let_def case_prod_unfold
  by (auto simp: pools_kept_def option.rel_refl if_kept_def elim!: option_bindE dest!: flush_busy_kept)

lemma stop_rx_kept:
  assumes "dma_ll_stop_rx F inflight alloc i z = Some (r, z')" "calm inflight"
  shows "pools_kept z z'"
proof -
  let ?z0 = "ZAP_REG_WRITE_MASKED F i ZAP_REG_CSR 0 CSR_RXEN (upd_dif i (\<lambda>d. d\<lparr>rx_on := False\<rparr>)
    (ZAP_REG_WRITE F i ZAP_REG_ICR ICR_CLR_RXRDY z))"
  obtain z1 f p where z1: "flush_workqueue F inflight i ?z0 = Some z1" "zif z1 i = Some f"
    "flush_busy alloc (rx_pool f) = Some (r, p)" "z' = upd_zif i (\<lambda>f. f\<lparr>rx_pool := p\<rparr>) z1"
    using assms(1) by (auto simp: dma_ll_stop_rx_def elim!: option_bindE)
  have "pools_kept z ?z0" by (rule pools_kept_same) simp
  moreover have "pools_kept ?z0 z1" using flush_workqueue_kept [OF z1(1)] assms(2) by blast
  moreover have "pools_kept z1 z'" unfolding z1(4) using z1(2) flush_busy_kept [OF z1(3)] by (rule pools_kept_rx)
  ultimately show ?thesis by (blast intro: pools_kept_trans)
qed

lemma start_frame:
  "dma_ll_start_tx F i z = Some (r, z') \<Longrightarrow> zif z' j = zif z j" "dma_ll_start_rx F i z = Some (r, z') \<Longrightarrow> zif z' j = zif z j"
  by (auto simp: dma_ll_start_tx_def dma_ll_start_rx_def elim!: option_bindE)

lemma start_tx_kept: "dma_start_tx_unsafe F alloc i z = Some (r, z') \<Longrightarrow> pools_kept z z'"
  unfolding dma_start_tx_unsafe_def Let_def case_prod_unfold
  by (auto simp: pools_kept_def option.rel_refl if_kept_def start_frame(1) elim!: option_bindE split: if_splits dest!: flush_busy_kept)

lemma start_rx_kept: "dma_start_rx_unsafe F alloc i z = Some (r, z') \<Longrightarrow> pools_kept z z'"
  unfolding dma_start_rx_unsafe_def Let_def case_prod_unfold
  by (auto simp: pools_kept_def option.rel_refl if_kept_def start_frame(2) elim!: option_bindE split: if_splits dest!: flush_busy_kept)

lemma with_dma_sem_kept:
  assumes "with_dma_sem intr body z = Some (r, z')"
    and "\<And>z r z'. body z = Some (r, z') \<Longrightarrow> pools_kept z z'"
  shows "pools_kept z z'"
proof -
  consider "z' = z" | z1 where "body (z\<lparr>dma_sem := Some False\<rparr>) = Some (r, z1)" "z' = z1\<lparr>dma_sem := Some True\<rparr>"
    using assms(1) by (auto simp: with_dma_sem_def elim!: option_bindE split: option.splits if_splits)
  then show ?thesis
  proof cases
    case 2
    from assms(2) [OF 2(1)] show ?thesis by (simp add: pools_kept_def 2(2))
  qed (simp add: pools_kept_same)
qed

text \<open>The four entry points of \<open>dma.c\<close>.\<close>

lemma dma_kept:
  assumes "calm inflight"
  shows "dma_stop_tx F intr alloc i z = Some (r, z') \<Longrightarrow> pools_kept z z'"
    "dma_stop_rx F intr inflight alloc i z = Some (r, z') \<Longrightarrow> pools_kept z z'"
    "dma_start_tx F intr alloc i z = Some (r, z') \<Longrightarrow> pools_kept z z'"
    "dma_start_rx F intr inflight alloc i z = Some (r, z') \<Longrightarrow> pools_kept z z'"
proof -
  have st: "dma_stop_tx_unsafe F alloc i z = Some (r, z') \<Longrightarrow> pools_kept z z'" for z r z'
    by (auto simp: dma_stop_tx_unsafe_def elim!: option_bindE dest: stop_tx_kept)
  have sr: "dma_stop_rx_unsafe F inflight alloc i z = Some (r, z') \<Longrightarrow> pools_kept z z'" for z r z'
    using assms by (auto simp: dma_stop_rx_unsafe_def elim!: option_bindE dest: stop_rx_kept)
  show "dma_stop_tx F intr alloc i z = Some (r, z') \<Longrightarrow> pools_kept z z'"
    "dma_stop_rx F intr inflight alloc i z = Some (r, z') \<Longrightarrow> pools_kept z z'"
    unfolding dma_stop_tx_def dma_stop_rx_def using with_dma_sem_kept st sr by blast+
  show "dma_start_tx F intr alloc i z = Some (r, z') \<Longrightarrow> pools_kept z z'"
    unfolding dma_start_tx_def
    by (erule with_dma_sem_kept) (auto elim!: option_bindE split: if_splits dest!: st start_tx_kept intro: pools_kept_trans)
  show "dma_start_rx F intr inflight alloc i z = Some (r, z') \<Longrightarrow> pools_kept z z'"
    unfolding dma_start_rx_def
    by (erule with_dma_sem_kept) (auto elim!: option_bindE split: if_splits dest!: sr start_rx_kept intro: pools_kept_trans)
qed

section \<open>A small device\<close>

text \<open>One interface with two packets in use, and hardware that is a plain register file.\<close>

definition sample_fpga :: "(u32 \<Rightarrow> u32) fpga" where
  "sample_fpga = \<lparr>fp_read = (\<lambda>r h. (h r, h)), fp_write = (\<lambda>r v h. h(r := v))\<rparr>"

definition sample_if :: zap_if where
  "sample_if = \<lparr>in_use_rx = 0, in_use_tx = 0, fakey = 0, rx_pool = sample_pool, tx_pool = sample_pool, rx_size = 8192,
     tx_size = 8192, rx_paddr = 0x10000000, tx_paddr = 0x10000000, rx_highwater = 0, tx_highwater = 0,
     rx_payload_max_size = 10, tx_payload_max_size = 10, rx_header_size = 4, tx_header_size = 0, rx_header_enable = 1,
     tx_header_enable = 0, rx_jumbo_pkt_enable = 0, tx_jumbo_pkt_enable = 0\<rparr>"

definition sample_zap :: "(u32 \<Rightarrow> u32) zap" where
  "sample_zap = \<lparr>zap_devp = \<lparr>num_devices = 1, open_count = 2, dev_sem = True, status = 0, reg_base = 0xA0000000,
       reg_sz = 0x1000, hw_irq = 89, fpga_params = \<lparr>num_interfaces = 1, rx_dat_fifo_size = 64, rx_oob_fifo_size = 64,
       tx_dat_fifo_size = 64, tx_oob_fifo_size = 64, fpga_board_code = 2, fpga_version_major = 2, fpga_version_minor = 2,
       fpga_version_release = 0x61\<rparr>, rx_pool_paddr = 0x10000000, tx_pool_paddr = 0x10002000, rx_pool_size = 8192,
       tx_pool_size = 8192, interface = Some [sample_if]\<rparr>,
     pdma_if = \<lparr>zap_reg = True, dma_irq = 57, rx_buffer_paddr = 0x10000000, tx_buffer_paddr = 0x10002000,
       rx_buffer_size = 8192, tx_buffer_size = 8192, dma_interface = Some [\<lparr>rx_on = True, tx_on = True, rx_dma_count = 0,
       tx_dma_count = 0, rx_work = True\<rparr>]\<rparr>,
     dma_sem = Some True, z_hw = (\<lambda>_. 0)\<rparr>"

lemma sample_zap_if: "zif sample_zap 0 = Some sample_if"
  "dif sample_zap 0 = Some \<lparr>rx_on = True, tx_on = True, rx_dma_count = 0, tx_dma_count = 0, rx_work = True\<rparr>"
  by (simp_all add: zif_def dif_def nth_opt_def sample_zap_def)

lemma sample_if_pools: "rx_pool sample_if = sample_pool" "tx_pool sample_if = sample_pool"
  by (simp_all add: sample_if_def)

section \<open>The receive task ends\<close>

lemma rx_getbuf_returns:
  assumes z: "zif z i = Some g" "pool_inv (rx_pool g)" and w: "ws \<noteq> []" "no_wake ws"
  shows "\<exists>err r p. rx_getbuf ws i z = Some (err, r, upd_zif i (\<lambda>f. f\<lparr>rx_pool := p\<rparr>) z) \<and> pool_inv p"
proof -
  let ?p = "rx_pool g"
  have l: "\<not> pool_lock ?p" using z(2) by (simp add: pool_inv_def)
  obtain w ws' where ws: "ws = w # ws'" "w = Interrupted \<or> w = Timed_Out" using w by (cases ws; cases "hd ws") (auto simp: no_wake_def)
  have "\<exists>err r p. pool_getbuf_timeout ws ?p = Some (err, r, p) \<and> pool_inv p"
  proof (cases "freelist ?p = []")
    case True
    then show ?thesis using ws l z(2) unfolding pool_getbuf_timeout.simps [of ws ?p] by (auto simp: spin_lock_def)
  next
    case False
    then have "free_bufs ?p \<noteq> {}" by (simp add: free_bufs_def)
    from getbuf_try_some [OF z(2) this] show ?thesis
      using False l unfolding pool_getbuf_timeout.simps [of ws ?p]
      by (auto simp: pool_getbuf_try_def spin_lock_def elim!: option_bindE)
  qed
  then show ?thesis using z(1) by (auto simp: rx_getbuf_def)
qed

lemma rx_task_induct_step:
  assumes "\<And>z g d. zif z i = Some g \<Longrightarrow> pool_inv (rx_pool g) \<Longrightarrow> dif z i = Some d \<Longrightarrow> \<not> rx_on d \<or> Q \<Longrightarrow>
      \<exists>z' d'. dma_rx_task F i rounds z = Some z' \<and> dif z' i = Some d' \<and> \<not> rx_on d' \<and> \<not> rx_work d'"
    and z: "zif z i = Some g" "pool_inv (rx_pool g)" "dif z i = Some d" "rx_on d" and w: "ws \<noteq> []" "no_wake ws" and s: "stop \<or> Q"
  shows "\<exists>z' d'. dma_rx_task F i ((ws, stop) # rounds) z = Some z' \<and> dif z' i = Some d' \<and> \<not> rx_on d' \<and> \<not> rx_work d'"
proof -
  obtain err r p where gb: "rx_getbuf ws i z = Some (err, r, upd_zif i (\<lambda>f. f\<lparr>rx_pool := p\<rparr>) z)" "pool_inv p"
    using rx_getbuf_returns [OF z(1,2) w] by blast
  let ?z1 = "upd_zif i (\<lambda>f. f\<lparr>rx_pool := p\<rparr>) z"
  let ?z2 = "if stop then upd_dif i (\<lambda>d. d\<lparr>rx_on := False\<rparr>) ?z1 else ?z1"
  let ?d2 = "if stop then d\<lparr>rx_on := False\<rparr> else d"
  let ?z3 = "if err = - EAGAIN \<and> rx_on ?d2 then ?z2 else rx_post F i err r ?z2"
  let ?d3 = "if \<not> (err = - EAGAIN \<and> rx_on ?d2) \<and> err \<noteq> 0 then ?d2\<lparr>rx_on := False\<rparr> else ?d2"
  have "dma_rx_task F i ((ws, stop) # rounds) z = dma_rx_task F i rounds ?z3"
    unfolding dma_rx_task.simps [of F i "(ws, stop) # rounds"] using z(3,4) gb(1) by simp
  moreover have "zif ?z3 i = Some (g\<lparr>rx_pool := p\<rparr>)" using z(1) by simp
  moreover have "dif ?z3 i = Some ?d3" using z(3) by (auto simp: rx_post_def dma_ll_put_rx_def split: option.splits)
  moreover have "\<not> rx_on ?d3 \<or> Q" using s by auto
  ultimately show ?thesis using assms(1) [of ?z3 "g\<lparr>rx_pool := p\<rparr>" ?d3] gb(2) by simp
qed



section \<open>The control register\<close>

lemma bit_masked: "bit ((v AND m) OR (c AND NOT m) :: u32) n \<longleftrightarrow> n < 32 \<and> (if bit m n then bit v n else bit c n)"
  by (auto simp: bit_simps dest: bit_imp_le_length)

text \<open>Hardware whose register \<open>a\<close> keeps what was written and is not changed by other accesses.\<close>

definition plain_register :: "'h fpga \<Rightarrow> u32 \<Rightarrow> ('h \<Rightarrow> u32) \<Rightarrow> bool" where
  "plain_register F a csr \<longleftrightarrow> (\<forall>h. fp_read F a h = (csr h, h)) \<and> (\<forall>h v. csr (fp_write F a v h) = v) \<and>
     (\<forall>h r v. r \<noteq> a \<longrightarrow> csr (fp_write F r v h) = csr h)"

lemma csr_masked:
  assumes "plain_register F (of_nat i * 0x20 + ZAP_REG_CSR) csr"
  shows "csr (z_hw (ZAP_REG_WRITE_MASKED F i ZAP_REG_CSR v m z)) = (v AND m) OR (csr (z_hw z) AND NOT m)"
  using assms
  by (simp add: plain_register_def ZAP_REG_WRITE_MASKED_def VSOC_ZAP_REG_WRITE_MASKED_def VSOC_ZAP_REG_READ_def
      VSOC_ZAP_REG_WRITE_def case_prod_unfold Let_def)

lemma csr_bit:
  assumes "plain_register F (of_nat i * 0x20 + ZAP_REG_CSR) csr" "n < 32" "m = push_bit k 1" "k < 32"
  shows "bit (csr (z_hw (ZAP_REG_WRITE_MASKED F i ZAP_REG_CSR (if P then m else 0) m z))) n =
      (if n = k then P else bit (csr (z_hw z)) n)"
    "bit (csr (z_hw (ZAP_REG_WRITE_MASKED F i ZAP_REG_CSR 0 m z))) n = (n \<noteq> k \<and> bit (csr (z_hw z)) n)"
    "bit (csr (z_hw (ZAP_REG_WRITE_MASKED F i ZAP_REG_CSR m m z))) n = (n = k \<or> bit (csr (z_hw z)) n)"
proof -
  have "bit m n \<longleftrightarrow> n = k" using assms(2-4) by (auto simp: bit_simps)
  then show "bit (csr (z_hw (ZAP_REG_WRITE_MASKED F i ZAP_REG_CSR (if P then m else 0) m z))) n =
      (if n = k then P else bit (csr (z_hw z)) n)"
    "bit (csr (z_hw (ZAP_REG_WRITE_MASKED F i ZAP_REG_CSR 0 m z))) n = (n \<noteq> k \<and> bit (csr (z_hw z)) n)"
    "bit (csr (z_hw (ZAP_REG_WRITE_MASKED F i ZAP_REG_CSR m m z))) n = (n = k \<or> bit (csr (z_hw z)) n)"
    using assms(2) unfolding csr_masked [OF assms(1)] bit_masked by auto
qed

lemmas csr_bits = csr_bit [OF _ _ CSR_RXEN_def] csr_bit [OF _ _ CSR_TXEN_def] csr_bit [OF _ _ CSR_RX_OOB_def]
  csr_bit [OF _ _ CSR_TX_OOB_def] csr_bit [OF _ _ CSR_RX_JUMBO_EN_def] csr_bit [OF _ _ CSR_TX_JUMBO_EN_def]

lemma csr_other:
  assumes "plain_register F (of_nat i * 0x20 + ZAP_REG_CSR) csr" "r \<noteq> ZAP_REG_CSR"
  shows "csr (fp_write F (of_nat i * 0x20 + r) v h) = csr h"
  using assms by (simp add: plain_register_def)

text \<open>
  Starting a direction sets up exactly its bits of the control register.  After the start of the
  receiver its enable bit is set, the header and jumbo bits are as configured, and every other bit,
  in particular those of the transmitter, is as before; the same the other way round.
\<close>

theorem dma_start_csr:
  assumes "plain_register F (of_nat i * 0x20 + ZAP_REG_CSR) csr" "zif z i = Some g" "dif z i = Some d"
  shows "\<exists>zr zt. dma_ll_start_rx F i z = Some (0, zr) \<and> dma_ll_start_tx F i z = Some (0, zt) \<and>
    map_option rx_on (dif zr i) = Some True \<and> map_option tx_on (dif zt i) = Some True \<and>
    (\<forall>n < 32. bit (csr (z_hw zr)) n = (if n = 0 then True else if n = 2 then rx_header_enable g \<noteq> 0
        else if n = 4 then rx_jumbo_pkt_enable g \<noteq> 0 else bit (csr (z_hw z)) n)) \<and>
    (\<forall>n < 32. bit (csr (z_hw zt)) n = (if n = 1 then True else if n = 3 then tx_header_enable g \<noteq> 0
        else if n = 5 then tx_jumbo_pkt_enable g \<noteq> 0 else bit (csr (z_hw z)) n))"
proof -
  note pr = assms(1)
  have ne: "ZAP_REG_ICR \<noteq> ZAP_REG_CSR" "ZAP_REG_MAX_RX_SIZE \<noteq> ZAP_REG_CSR" by (simp_all add: reg_defs)
  show ?thesis
    using assms(2,3)
    by (auto simp: dma_ll_start_rx_def dma_ll_start_tx_def csr_other [OF pr] ne csr_bits [OF pr])
qed

theorem dma_start_csr_witness:
  "\<exists>zr. dma_ll_start_rx sample_fpga 0 sample_zap = Some (0, zr) \<and> bit (z_hw zr 0) 0 \<and> bit (z_hw zr 0) 2 \<and> \<not> bit (z_hw zr 0) 1"
proof -
  have "plain_register sample_fpga (of_nat 0 * 0x20 + ZAP_REG_CSR) (\<lambda>h. h 0)"
    by (simp add: plain_register_def sample_fpga_def ZAP_REG_CSR_def)
  moreover have "rx_header_enable sample_if \<noteq> 0" "z_hw sample_zap 0 = 0" by (simp_all add: sample_if_def sample_zap_def)
  ultimately show ?thesis
    using dma_start_csr [OF _ sample_zap_if, of sample_fpga "\<lambda>h. h 0"] by auto
qed

end
