(* ===== verification/Zap_Driver.thy ===== *)
theory Zap_Driver
  imports Zap_Dma
begin

text \<open>
  The character device of the ZAP driver (\<open>recipes-kernel/iv-zap/src/zap.c\<close>): open, release, read, write,
  ioctl, mmap and poll on the nodes \<open>zaprx<n>\<close> and \<open>zaptx<n>\<close>, the division of the reserved memory
  among the interfaces, and probe and removal of the driver.

  Conventions as in \<open>Zap_Dma\<close>.  The cache maintenance of \<open>dma_map_single\<close> has no effect in the model.
\<close>

section \<open>Nodes and memory\<close>

definition ZAP_POOL_MAX_RX_PACKETS :: u64 where "ZAP_POOL_MAX_RX_PACKETS = 10000 - 1"
definition ZAP_POOL_MAX_TX_PACKETS :: u64 where "ZAP_POOL_MAX_TX_PACKETS = 10000 - 1"
definition ZAP_MAX_DEVICES :: u32 where "ZAP_MAX_DEVICES = 16"

text \<open>What the driver uses of \<open>struct file\<close>.\<close>

record zfile =
  zf_minor :: u32
  zf_rdonly :: bool
  zf_nonblock :: bool

definition is_tx_device :: "zfile \<Rightarrow> bool" where
  "is_tx_device f \<longleftrightarrow> zf_minor f AND 1 \<noteq> 0"

definition zap_device_num :: "zfile \<Rightarrow> nat" where
  "zap_device_num f = unat (drop_bit 1 (zf_minor f))"

text \<open>The first loop sets the addresses, then the sizes are the distances to the next interface; the
  transmit addresses advance by the receive size.\<close>

definition pool_paddrs :: "nat \<Rightarrow> zap_dev \<Rightarrow> zap_if list \<Rightarrow> zap_if list" where
  "pool_paddrs n d ifs =
     (let iRxSize = rx_pool_size d div of_nat n in
      map (\<lambda>i. if i < n then (ifs ! i)\<lparr>rx_paddr := PAGE_ALIGN (rx_pool_paddr d + iRxSize * of_nat i),
                  tx_paddr := PAGE_ALIGN (tx_pool_paddr d + iRxSize * of_nat i)\<rparr> else ifs ! i) [0..<length ifs])"

definition pool_sizes :: "nat \<Rightarrow> zap_dev \<Rightarrow> zap_if list \<Rightarrow> zap_if list" where
  "pool_sizes n d ifs =
     map (\<lambda>i. if n = 1 \<and> i = 0 then (ifs ! i)\<lparr>rx_size := rx_pool_size d, tx_size := tx_pool_size d\<rparr>
              else if i + 1 < n then (ifs ! i)\<lparr>rx_size := rx_paddr (ifs ! (i + 1)) - rx_paddr (ifs ! i),
                                               tx_size := tx_paddr (ifs ! (i + 1)) - tx_paddr (ifs ! i)\<rparr>
              else if i + 1 = n then (ifs ! i)\<lparr>rx_size := rx_pool_paddr d + rx_pool_size d - rx_paddr (ifs ! i),
                                               tx_size := tx_pool_paddr d + tx_pool_size d - tx_paddr (ifs ! i)\<rparr>
              else ifs ! i) [0..<length ifs]"

definition setup_multiple_pools :: "nat \<Rightarrow> zap_dev \<Rightarrow> zap_dev option" where
  "setup_multiple_pools iNumPools d = do {
     ifs \<leftarrow> interface d;
     if iNumPools = 0 \<or> length ifs < iNumPools then None
     else Some (d\<lparr>interface := Some (pool_sizes iNumPools d (pool_paddrs iNumPools d ifs))\<rparr>) }"

definition IsJumboPacketSupported :: "zap_dev \<Rightarrow> bool" where
  "IsJumboPacketSupported d \<longleftrightarrow>
     \<not> fpga_version_major (fpga_params d) < 2 \<and> \<not> fpga_version_minor (fpga_params d) < 2 \<and>
     \<not> fpga_version_release (fpga_params d) < of_char CHR ''a''"

text \<open>The numbers printed by \<open>zap_read_procmem\<close>, by label; \<open>%d\<close> shows the low 32 bits as a signed number.\<close>

definition zap_read_procmem :: "'h fpga \<Rightarrow> 'h zap \<Rightarrow> ((string \<times> int) list \<times> 'h zap) option" where
  "zap_read_procmem F z = do {
     let z = dma_ll_update_fpga_parameters F z;
     let q = fpga_params (zap_devp z);
     let d = (\<lambda>x :: u64. sint (ucast x :: u32));
     g \<leftarrow> zif z 0;
     rx \<leftarrow> dma_ll_rx_dma_count 0 z;
     tx \<leftarrow> dma_ll_tx_dma_count 0 z;
     Some ([(''FPGA CODE'', fpga_board_code q), (''major'', fpga_version_major q), (''minor'', fpga_version_minor q),
       (''release'', uint (fpga_version_release q)), (''NUM_INTERFACES'', num_interfaces q),
       (''RX_DAT_FIFO_SIZE'', d (rx_dat_fifo_size q)), (''RX_OOB_FIFO_SIZE'', d (rx_oob_fifo_size q)),
       (''TX_DAT_FIFO_SIZE'', d (tx_dat_fifo_size q)), (''TX_OOB_FIFO_SIZE'', d (tx_oob_fifo_size q)),
       (''RX_MAX'', d (rx_payload_max_size g)), (''RX_HDR'', d (rx_header_size g)),
       (''TX_MAX'', d (tx_payload_max_size g)), (''TX_HDR'', d (tx_header_size g)),
       (''RX_DMA'', sint rx), (''TX_DMA'', sint tx)], z) }"

section \<open>Open and release\<close>

text \<open>A function between \<open>down_interruptible\<close> and \<open>up\<close> on \<open>dev->sem\<close>; \<open>x\<close> is what it yields when a signal
  comes first.\<close>

definition with_dev_sem :: "bool \<Rightarrow> 'x \<Rightarrow> ('h zap \<Rightarrow> ('x \<times> 'h zap) option) \<Rightarrow> 'h zap \<Rightarrow> ('x \<times> 'h zap) option" where
  "with_dev_sem intr x body z =
     (if intr then Some (x, z)
      else if \<not> dev_sem (zap_devp z) then None
      else do {
        (r, z) \<leftarrow> body (z\<lparr>zap_devp := (zap_devp z)\<lparr>dev_sem := False\<rparr>\<rparr>);
        Some (r, z\<lparr>zap_devp := (zap_devp z)\<lparr>dev_sem := True\<rparr>\<rparr>) })"

definition open_tx :: "(u64 \<Rightarrow> bool) \<Rightarrow> nat \<Rightarrow> 'h zap \<Rightarrow> (int \<times> 'h zap) option" where
  "open_tx alloc i z = do {
     g \<leftarrow> zif z i;
     if in_use_tx g = 0 then Some (- EBUSY, z)
     else do {
       let maxsz = tx_dat_fifo_size (fpga_params (zap_devp z));
       let z = upd_zif i (\<lambda>g. g\<lparr>in_use_tx := in_use_tx g - 1, tx_payload_max_size := maxsz\<rparr>) z;
       let (_, p) = pool_create (tx_pool g) (tx_paddr g) (tx_size g);
       (_, p) \<leftarrow> pool_resize alloc p maxsz ZAP_POOL_MAX_TX_PACKETS 0;
       Some (0, upd_zif i (\<lambda>g. g\<lparr>tx_pool := p\<rparr>) z) } }"

definition open_rx :: "(u64 \<Rightarrow> bool) \<Rightarrow> nat \<Rightarrow> 'h zap \<Rightarrow> (int \<times> 'h zap) option" where
  "open_rx alloc i z = do {
     g \<leftarrow> zif z i;
     if in_use_rx g = 0 then Some (- EBUSY, z)
     else do {
       let maxsz = rx_dat_fifo_size (fpga_params (zap_devp z));
       let z = upd_zif i (\<lambda>g. g\<lparr>in_use_rx := in_use_rx g - 1, rx_payload_max_size := maxsz\<rparr>) z;
       let (_, p) = pool_create (rx_pool g) (rx_paddr g) (rx_size g);
       (_, p) \<leftarrow> pool_resize alloc p maxsz ZAP_POOL_MAX_RX_PACKETS 0;
       Some (0, upd_zif i (\<lambda>g. g\<lparr>rx_pool := p\<rparr>) z) } }"

text \<open>The errors of the pool are only printed.\<close>

definition zap_open :: "'h fpga \<Rightarrow> bool \<Rightarrow> (u64 \<Rightarrow> bool) \<Rightarrow> zfile \<Rightarrow> 'h zap \<Rightarrow> (int \<times> 'h zap) option" where
  "zap_open F intr alloc f z =
     (let z = dma_ll_update_fpga_parameters F z;
          i = zap_device_num f
      in if num_interfaces (fpga_params (zap_devp z)) \<le> int i then Some (- ENXIO, z)
         else with_dev_sem intr (- ERESTARTSYS) (\<lambda>z. do {
           (err, z) \<leftarrow>
             (if zf_rdonly f then Some (0, z)
              else do {
                d \<leftarrow> setup_multiple_pools (nat (num_interfaces (fpga_params (zap_devp z)))) (zap_devp z);
                let z = z\<lparr>zap_devp := d\<rparr>;
                if is_tx_device f then open_tx alloc i z else open_rx alloc i z });
           if err \<noteq> 0 then Some (err, z)
           else Some (0, z\<lparr>zap_devp := (zap_devp z)\<lparr>open_count := open_count (zap_devp z) + 1\<rparr>\<rparr>) }) z)"

text \<open>The signals during the two stops and at the semaphore are given apart; \<open>open_count\<close> is unsigned, so
  that the test for a negative value never holds.\<close>

definition zap_release ::
  "'h fpga \<Rightarrow> bool \<Rightarrow> bool \<Rightarrow> bool \<Rightarrow> wait list option \<Rightarrow> (u64 \<Rightarrow> bool) \<Rightarrow> zfile \<Rightarrow> 'h zap \<Rightarrow> (int \<times> 'h zap) option"
where
  "zap_release F intr_tx intr_rx intr inflight alloc f z =
     (let i = zap_device_num f in
      if num_interfaces (fpga_params (zap_devp z)) \<le> int i then Some (- ENXIO, z)
      else do {
        on \<leftarrow> dma_tx_is_on i z;
        (_, z) \<leftarrow> (if on then dma_stop_tx F intr_tx alloc i z else Some (0, z));
        on \<leftarrow> dma_rx_is_on i z;
        (_, z) \<leftarrow> (if on then dma_stop_rx F intr_rx inflight alloc i z else Some (0, z));
        with_dev_sem intr (- ERESTARTSYS) (\<lambda>z. do {
          _ \<leftarrow> zif z i;
          let z = upd_zif i (\<lambda>g. if is_tx_device f then g\<lparr>in_use_tx := in_use_tx g + 1\<rparr> else g\<lparr>in_use_rx := in_use_rx g + 1\<rparr>) z;
          let c = open_count (zap_devp z) - 1;
          let z = z\<lparr>zap_devp := (zap_devp z)\<lparr>open_count := (if c < 0 then 0 else c)\<rparr>\<rparr>;
          Some (0, z) }) z })"

section \<open>Read and write\<close>

text \<open>Taking a buffer for \<open>zap_read\<close>: a free one of a transmit node, the next filled one of a receive
  node.\<close>

definition zap_take :: "wait list \<Rightarrow> zfile \<Rightarrow> zap_if \<Rightarrow> (int \<times> deq option \<times> zap_if) option" where
  "zap_take ws f g =
     (if is_tx_device f
      then if zf_nonblock f
        then do { (_, r, p) \<leftarrow> pool_getbuf_try (tx_pool g);
          Some (case r of None \<Rightarrow> - EAGAIN | Some _ \<Rightarrow> 0, map_option (\<lambda>(b, len). (b, len, 0, 0)) r, g\<lparr>tx_pool := p\<rparr>) }
        else do { (e, r, p) \<leftarrow> pool_getbuf ws (tx_pool g);
          Some (e, map_option (\<lambda>(b, len). (b, len, 0, 0)) r, g\<lparr>tx_pool := p\<rparr>) }
      else if zf_nonblock f
        then do { (_, r, p) \<leftarrow> pool_deqbuf_try (rx_pool g);
          Some (case r of None \<Rightarrow> - EAGAIN | Some _ \<Rightarrow> 0, r, g\<lparr>rx_pool := p\<rparr>) }
        else do { (e, r, p) \<leftarrow> pool_deqbuf ws (rx_pool g); Some (e, r, g\<lparr>rx_pool := p\<rparr>) })"

definition zap_read ::
  "wait list \<Rightarrow> bool \<Rightarrow> bool \<Rightarrow> zfile \<Rightarrow> nat \<Rightarrow> 'h zap \<Rightarrow> (int \<times> u64 list option \<times> 'h zap) option"
where
  "zap_read ws access_ok copy_ok f count z =
     (if count \<noteq> 32 then Some (- EINVAL, None, z)
      else if \<not> access_ok then Some (- EFAULT, None, z)
      else do {
        let i = zap_device_num f;
        g \<leftarrow> zif z i;
        (err, r, g) \<leftarrow> zap_take ws f g;
        let z = upd_zif i (\<lambda>_. g) z;
        case r of
          None \<Rightarrow> Some (err, None, z)
        | Some (pbuf, len, ooblen, flags) \<Rightarrow>
            let p = (if is_tx_device f then tx_pool g else rx_pool g);
                read_data = [pool_pbuf2offset p pbuf, len, ooblen, flags]
            in if \<not> copy_ok then Some (- EFAULT, None, z) else Some (int count, Some read_data, z) })"

text \<open>\<open>data\<close> is what \<open>__copy_from_user\<close> brings.  A length of -1 on a transmit node frees the buffer.\<close>

definition zap_write ::
  "'h fpga \<Rightarrow> bool \<Rightarrow> (u64 \<times> u64 \<times> u64) option \<Rightarrow> zfile \<Rightarrow> nat \<Rightarrow> 'h zap \<Rightarrow> (int \<times> 'h zap) option"
where
  "zap_write F access_ok data f count z =
     (if count \<noteq> 24 then Some (- EINVAL, z)
      else if \<not> access_ok then Some (- EFAULT, z)
      else case data of
        None \<Rightarrow> Some (- EFAULT, z)
      | Some (offset, len, ooblen) \<Rightarrow> do {
          let i = zap_device_num f;
          g \<leftarrow> zif z i;
          if is_tx_device f
          then let pbuf = pool_offset2pbuf (tx_pool g) offset in
            if len = - 1
            then do {
              (err, p) \<leftarrow> pool_freebuf (tx_pool g) pbuf;
              Some (if err \<noteq> 0 then err else int count, upd_zif i (\<lambda>g. g\<lparr>tx_pool := p\<rparr>) z) }
            else if ooblen \<noteq> 0 \<and> tx_header_enable g = 0 then Some (- EPERM, z)
            else if tx_payload_max_size g < len \<or> tx_header_size g < ooblen \<and> tx_header_enable g \<noteq> 0 then Some (- EINVAL, z)
            else do {
              (err, p) \<leftarrow> pool_enqbuf (tx_pool g) pbuf len ooblen 0;
              let z = dma_ll_tx_write_buf F i (upd_zif i (\<lambda>g. g\<lparr>tx_pool := p\<rparr>) z);
              Some (if err \<noteq> 0 then err else int count, z) }
          else do {
            (err, p) \<leftarrow> pool_freebuf (rx_pool g) (pool_offset2pbuf (rx_pool g) offset);
            Some (if err \<noteq> 0 then err else int count, upd_zif i (\<lambda>g. g\<lparr>rx_pool := p\<rparr>) z) } })"

section \<open>Ioctl\<close>

definition ZAP_IOC_MAGIC :: u32 where "ZAP_IOC_MAGIC = 0x7A"
definition ZAP_IOC_MAXNR :: u32 where "ZAP_IOC_MAXNR = 30"
definition ZAP_IOC_R_STATUS :: u32 where "ZAP_IOC_R_STATUS = IOR ZAP_IOC_MAGIC 0"
definition ZAP_IOC_R_RX_HIGH_WATER_MARK :: u32 where "ZAP_IOC_R_RX_HIGH_WATER_MARK = IOR ZAP_IOC_MAGIC 1"
definition ZAP_IOC_R_TX_HIGH_WATER_MARK :: u32 where "ZAP_IOC_R_TX_HIGH_WATER_MARK = IOR ZAP_IOC_MAGIC 2"
definition ZAP_IOC_R_TX_MAX_SIZE :: u32 where "ZAP_IOC_R_TX_MAX_SIZE = IOR ZAP_IOC_MAGIC 7"
definition ZAP_IOC_W_TX_MAX_SIZE :: u32 where "ZAP_IOC_W_TX_MAX_SIZE = IOW ZAP_IOC_MAGIC 8"
definition ZAP_IOC_R_TX_HEADER_SIZE :: u32 where "ZAP_IOC_R_TX_HEADER_SIZE = IOR ZAP_IOC_MAGIC 11"
definition ZAP_IOC_W_TX_HEADER_SIZE :: u32 where "ZAP_IOC_W_TX_HEADER_SIZE = IOW ZAP_IOC_MAGIC 12"
definition ZAP_IOC_R_RX_MAX_SIZE :: u32 where "ZAP_IOC_R_RX_MAX_SIZE = IOR ZAP_IOC_MAGIC 13"
definition ZAP_IOC_W_RX_MAX_SIZE :: u32 where "ZAP_IOC_W_RX_MAX_SIZE = IOW ZAP_IOC_MAGIC 14"
definition ZAP_IOC_R_RX_HEADER_SIZE :: u32 where "ZAP_IOC_R_RX_HEADER_SIZE = IOR ZAP_IOC_MAGIC 17"
definition ZAP_IOC_W_RX_HEADER_SIZE :: u32 where "ZAP_IOC_W_RX_HEADER_SIZE = IOW ZAP_IOC_MAGIC 18"
definition ZAP_IOC_R_FAKEY :: u32 where "ZAP_IOC_R_FAKEY = IOR ZAP_IOC_MAGIC 19"
definition ZAP_IOC_W_FAKEY :: u32 where "ZAP_IOC_W_FAKEY = IOW ZAP_IOC_MAGIC 20"
definition ZAP_IOC_R_RX_DMA_ON :: u32 where "ZAP_IOC_R_RX_DMA_ON = IOR ZAP_IOC_MAGIC 21"
definition ZAP_IOC_W_RX_DMA_ON :: u32 where "ZAP_IOC_W_RX_DMA_ON = IOW ZAP_IOC_MAGIC 22"
definition ZAP_IOC_R_TX_DMA_ON :: u32 where "ZAP_IOC_R_TX_DMA_ON = IOR ZAP_IOC_MAGIC 23"
definition ZAP_IOC_W_TX_DMA_ON :: u32 where "ZAP_IOC_W_TX_DMA_ON = IOW ZAP_IOC_MAGIC 24"
definition ZAP_IOC_R_POOL_SIZE :: u32 where "ZAP_IOC_R_POOL_SIZE = IOR ZAP_IOC_MAGIC 25"
definition ZAP_IOC_R_INSTANCE_COUNT :: u32 where "ZAP_IOC_R_INSTANCE_COUNT = IOR ZAP_IOC_MAGIC 26"
definition ZAP_IOC_R_RX_JUMBO_EN :: u32 where "ZAP_IOC_R_RX_JUMBO_EN = IOR ZAP_IOC_MAGIC 27"
definition ZAP_IOC_W_RX_JUMBO_EN :: u32 where "ZAP_IOC_W_RX_JUMBO_EN = IOR ZAP_IOC_MAGIC 28"
definition ZAP_IOC_R_TX_JUMBO_EN :: u32 where "ZAP_IOC_R_TX_JUMBO_EN = IOR ZAP_IOC_MAGIC 29"
definition ZAP_IOC_W_TX_JUMBO_EN :: u32 where "ZAP_IOC_W_TX_JUMBO_EN = IOR ZAP_IOC_MAGIC 30"

text \<open>The size a packet may have: what exceeds the header must fit the FIFO, unless jumbo packets are on.
  The difference is unsigned.\<close>

definition max_size_too_big :: "u64 \<Rightarrow> u64 \<Rightarrow> u64 \<Rightarrow> u64 \<Rightarrow> u64 \<Rightarrow> bool" where
  "max_size_too_big header_enable header_size jumbo fifo ulTemp \<longleftrightarrow>
     (if header_enable \<noteq> 0 then fifo < ulTemp - header_size else fifo < ulTemp) \<and> jumbo = 0"

definition header_too_big :: "u64 \<Rightarrow> u64 \<Rightarrow> u64 \<Rightarrow> u64 \<Rightarrow> u64 \<Rightarrow> bool" where
  "header_too_big payload jumbo dat_fifo oob_fifo ulTemp \<longleftrightarrow>
     oob_fifo < ulTemp \<or> payload \<le> ulTemp \<or> dat_fifo < payload - ulTemp \<and> jumbo = 0"

definition w_tx_max_size :: "'h fpga \<Rightarrow> bool \<Rightarrow> (u64 \<Rightarrow> bool) \<Rightarrow> nat \<Rightarrow> u64 \<Rightarrow> 'h zap \<Rightarrow> (int \<times> 'h zap) option" where
  "w_tx_max_size F intr alloc i ulTemp z = do {
     (r, z) \<leftarrow> dma_stop_tx F intr alloc i z;
     if r \<noteq> 0 then Some (r, z) else do {
     g \<leftarrow> zif z i;
     if max_size_too_big (tx_header_enable g) (tx_header_size g) (tx_jumbo_pkt_enable g)
          (tx_dat_fifo_size (fpga_params (zap_devp z))) ulTemp then Some (- EFBIG, z)
     else do {
       (r, p) \<leftarrow> pool_resize alloc (tx_pool g) ulTemp ZAP_POOL_MAX_TX_PACKETS 0;
       Some (r, upd_zif i (\<lambda>g. g\<lparr>tx_payload_max_size := ulTemp, tx_pool := p\<rparr>) z) } } }"

definition w_rx_max_size ::
  "'h fpga \<Rightarrow> bool \<Rightarrow> wait list option \<Rightarrow> (u64 \<Rightarrow> bool) \<Rightarrow> nat \<Rightarrow> u64 \<Rightarrow> 'h zap \<Rightarrow> (int \<times> 'h zap) option"
where
  "w_rx_max_size F intr inflight alloc i ulTemp z = do {
     (r, z) \<leftarrow> dma_stop_rx F intr inflight alloc i z;
     if r \<noteq> 0 then Some (r, z) else do {
     g \<leftarrow> zif z i;
     if max_size_too_big (rx_header_enable g) (rx_header_size g) (rx_jumbo_pkt_enable g)
          (rx_dat_fifo_size (fpga_params (zap_devp z))) ulTemp then Some (- EFBIG, z)
     else do {
       (r, p) \<leftarrow> pool_resize alloc (rx_pool g) ulTemp ZAP_POOL_MAX_RX_PACKETS 0;
       Some (r, upd_zif i (\<lambda>g. g\<lparr>rx_payload_max_size := ulTemp, rx_pool := p\<rparr>) z) } } }"

definition w_tx_header_size :: "'h fpga \<Rightarrow> bool \<Rightarrow> (u64 \<Rightarrow> bool) \<Rightarrow> nat \<Rightarrow> u64 \<Rightarrow> 'h zap \<Rightarrow> (int \<times> 'h zap) option" where
  "w_tx_header_size F intr alloc i ulTemp z = do {
     (r, z) \<leftarrow> dma_stop_tx F intr alloc i z;
     if r \<noteq> 0 then Some (r, z) else do {
     g \<leftarrow> zif z i;
     let q = fpga_params (zap_devp z);
     if header_too_big (tx_payload_max_size g) (tx_jumbo_pkt_enable g) (tx_dat_fifo_size q) (tx_oob_fifo_size q) ulTemp
     then Some (- EFBIG, z)
     else Some (0, upd_zif i (\<lambda>g. g\<lparr>tx_header_enable := (if ulTemp = 0 then 0 else 1), tx_header_size := ulTemp\<rparr>) z) } }"

definition w_rx_header_size ::
  "'h fpga \<Rightarrow> bool \<Rightarrow> wait list option \<Rightarrow> (u64 \<Rightarrow> bool) \<Rightarrow> nat \<Rightarrow> u64 \<Rightarrow> 'h zap \<Rightarrow> (int \<times> 'h zap) option"
where
  "w_rx_header_size F intr inflight alloc i ulTemp z = do {
     (r, z) \<leftarrow> dma_stop_rx F intr inflight alloc i z;
     if r \<noteq> 0 then Some (r, z) else do {
     g \<leftarrow> zif z i;
     let q = fpga_params (zap_devp z);
     if header_too_big (rx_payload_max_size g) (rx_jumbo_pkt_enable g) (rx_dat_fifo_size q) (rx_oob_fifo_size q) ulTemp
     then Some (- EFBIG, z)
     else Some (0, upd_zif i (\<lambda>g. g\<lparr>rx_header_enable := (if ulTemp = 0 then 0 else 1), rx_header_size := ulTemp\<rparr>) z) } }"

definition w_tx_jumbo_en :: "'h fpga \<Rightarrow> bool \<Rightarrow> (u64 \<Rightarrow> bool) \<Rightarrow> nat \<Rightarrow> u64 \<Rightarrow> 'h zap \<Rightarrow> (int \<times> 'h zap) option" where
  "w_tx_jumbo_en F intr alloc i ulTemp z = do {
     (r, z) \<leftarrow> dma_stop_tx F intr alloc i z;
     if r \<noteq> 0 then Some (r, z)
     else if ulTemp \<noteq> 0 \<and> \<not> IsJumboPacketSupported (zap_devp z) then Some (- EINVAL, z)
     else do { _ \<leftarrow> zif z i; Some (0, upd_zif i (\<lambda>g. g\<lparr>tx_jumbo_pkt_enable := (if ulTemp = 0 then 0 else 1)\<rparr>) z) } }"

definition w_rx_jumbo_en ::
  "'h fpga \<Rightarrow> bool \<Rightarrow> wait list option \<Rightarrow> (u64 \<Rightarrow> bool) \<Rightarrow> nat \<Rightarrow> u64 \<Rightarrow> 'h zap \<Rightarrow> (int \<times> 'h zap) option"
where
  "w_rx_jumbo_en F intr inflight alloc i ulTemp z = do {
     (r, z) \<leftarrow> dma_stop_rx F intr inflight alloc i z;
     if r \<noteq> 0 then Some (r, z)
     else if ulTemp \<noteq> 0 \<and> \<not> IsJumboPacketSupported (zap_devp z) then Some (- EINVAL, z)
     else do { _ \<leftarrow> zif z i; Some (0, upd_zif i (\<lambda>g. g\<lparr>rx_jumbo_pkt_enable := (if ulTemp = 0 then 0 else 1)\<rparr>) z) } }"

text \<open>The \<open>switch\<close>: the return value with what is put to user space.  \<open>arg\<close> is the word \<open>__get_user\<close> reads.\<close>

definition zap_ioctl_cmd ::
  "'h fpga \<Rightarrow> bool \<Rightarrow> wait list option \<Rightarrow> (u64 \<Rightarrow> bool) \<Rightarrow> zfile \<Rightarrow> u32 \<Rightarrow> u64 \<Rightarrow> 'h zap \<Rightarrow> ((int \<times> u64 option) \<times> 'h zap) option"
where
  "zap_ioctl_cmd F intr inflight alloc f cmd arg z =
     (let i = zap_device_num f;
          put = (\<lambda>v. map_option (\<lambda>g. ((0, Some (v g)), z)) (zif z i));
          set = (\<lambda>m. do { (r, z) \<leftarrow> m; Some ((r, None), z) })
      in if cmd = ZAP_IOC_R_STATUS then Some ((0, Some (status (zap_devp z))), z)
      else if cmd = ZAP_IOC_R_RX_HIGH_WATER_MARK
        then do { z \<leftarrow> dma_ll_update_high_water_marks F i z; g \<leftarrow> zif z i; Some ((0, Some (rx_highwater g)), z) }
      else if cmd = ZAP_IOC_R_TX_HIGH_WATER_MARK
        then do { z \<leftarrow> dma_ll_update_high_water_marks F i z; g \<leftarrow> zif z i; Some ((0, Some (tx_highwater g)), z) }
      else if cmd = ZAP_IOC_R_TX_MAX_SIZE then put tx_payload_max_size
      else if cmd = ZAP_IOC_W_TX_MAX_SIZE then set (w_tx_max_size F intr alloc i arg z)
      else if cmd = ZAP_IOC_R_TX_HEADER_SIZE then put tx_header_size
      else if cmd = ZAP_IOC_W_TX_HEADER_SIZE then set (w_tx_header_size F intr alloc i arg z)
      else if cmd = ZAP_IOC_R_RX_MAX_SIZE then put rx_payload_max_size
      else if cmd = ZAP_IOC_W_RX_MAX_SIZE then set (w_rx_max_size F intr inflight alloc i arg z)
      else if cmd = ZAP_IOC_R_RX_HEADER_SIZE then put rx_header_size
      else if cmd = ZAP_IOC_W_RX_HEADER_SIZE then set (w_rx_header_size F intr inflight alloc i arg z)
      else if cmd = ZAP_IOC_R_RX_JUMBO_EN then put rx_jumbo_pkt_enable
      else if cmd = ZAP_IOC_W_RX_JUMBO_EN then set (w_rx_jumbo_en F intr inflight alloc i arg z)
      else if cmd = ZAP_IOC_R_TX_JUMBO_EN then put tx_jumbo_pkt_enable
      else if cmd = ZAP_IOC_W_TX_JUMBO_EN then set (w_tx_jumbo_en F intr alloc i arg z)
      else if cmd = ZAP_IOC_R_FAKEY then put (\<lambda>g. scast (fakey g))
      else if cmd = ZAP_IOC_W_FAKEY
        then do { _ \<leftarrow> zif z i; Some ((0, None), upd_zif i (\<lambda>g. g\<lparr>fakey := ucast arg\<rparr>) z) }
      else if cmd = ZAP_IOC_R_RX_DMA_ON then map_option (\<lambda>on. ((0, Some (if on then 1 else 0)), z)) (dma_rx_is_on i z)
      else if cmd = ZAP_IOC_W_RX_DMA_ON
        then set (if arg \<noteq> 0 then dma_start_rx F intr inflight alloc i z else dma_stop_rx F intr inflight alloc i z)
      else if cmd = ZAP_IOC_R_TX_DMA_ON then map_option (\<lambda>on. ((0, Some (if on then 1 else 0)), z)) (dma_tx_is_on i z)
      else if cmd = ZAP_IOC_W_TX_DMA_ON
        then set (if arg \<noteq> 0 then dma_start_tx F intr alloc i z else dma_stop_tx F intr alloc i z)
      else if cmd = ZAP_IOC_R_POOL_SIZE then put (\<lambda>g. pool_total_size (if is_tx_device f then tx_pool g else rx_pool g))
      else if cmd = ZAP_IOC_R_INSTANCE_COUNT then Some ((0, Some (ucast (open_count (zap_devp z)))), z)
      else Some ((- ENOTTY, None), z))"

definition zap_ioctl ::
  "'h fpga \<Rightarrow> (u32 \<Rightarrow> bool) \<Rightarrow> bool \<Rightarrow> bool \<Rightarrow> wait list option \<Rightarrow> (u64 \<Rightarrow> bool) \<Rightarrow> zfile \<Rightarrow> u32 \<Rightarrow> u64 \<Rightarrow> 'h zap \<Rightarrow>
   ((int \<times> u64 option) \<times> 'h zap) option"
where
  "zap_ioctl F access_ok intr intr_dma inflight alloc f cmd arg z =
     (if IOC_TYPE cmd \<noteq> ZAP_IOC_MAGIC then Some ((- ENOTTY, None), z)
      else if ZAP_IOC_MAXNR < IOC_NR cmd then Some ((- ENOTTY, None), z)
      else if (IOC_DIR cmd AND 2 \<noteq> 0 \<or> IOC_DIR cmd AND 1 \<noteq> 0) \<and> \<not> access_ok (IOC_SIZE cmd)
      then Some ((- EFAULT, None), z)
      else with_dev_sem intr (- ERESTARTSYS, None) (zap_ioctl_cmd F intr_dma inflight alloc f cmd arg) z)"

section \<open>Memory mapping and poll\<close>

text \<open>The page frame and the size handed to \<open>remap_pfn_range\<close>, whose result is \<open>remap\<close>.\<close>

definition zap_mmap :: "int \<Rightarrow> u64 \<Rightarrow> u64 \<Rightarrow> zfile \<Rightarrow> 'h zap \<Rightarrow> (int \<times> (u64 \<times> u64) option) option" where
  "zap_mmap remap vm_start vm_end f z = do {
     g \<leftarrow> zif z (zap_device_num f);
     let (pool_size, pool_phys_start) =
       (if is_tx_device f then (pool_total_size (tx_pool g), tx_paddr g + pool_packets_offset (tx_pool g))
        else (pool_total_size (rx_pool g), rx_paddr g + pool_packets_offset (rx_pool g)));
     let requested_size = vm_end - vm_start;
     if pool_size < requested_size then Some (- EINVAL, None)
     else Some (if remap \<noteq> 0 then - EAGAIN else 0, Some (drop_bit 12 pool_phys_start, requested_size)) }"

text \<open>Whether the node is ready; the queue is fetched by a first call.\<close>

definition zap_poll :: "bool \<Rightarrow> zfile \<Rightarrow> 'h zap \<Rightarrow> (bool \<times> 'h zap) option" where
  "zap_poll intr f z = with_dev_sem intr False (\<lambda>z. do {
     let i = zap_device_num f;
     g \<leftarrow> zif z i;
     if is_tx_device f
     then do { (_, p) \<leftarrow> pool_freebufs_ready (tx_pool g); (ready, p) \<leftarrow> pool_freebufs_ready p;
       Some (ready, upd_zif i (\<lambda>g. g\<lparr>tx_pool := p\<rparr>) z) }
     else do { (_, p) \<leftarrow> pool_fifobufs_ready (rx_pool g); (ready, p) \<leftarrow> pool_fifobufs_ready p;
       Some (ready, upd_zif i (\<lambda>g. g\<lparr>rx_pool := p\<rparr>) z) } }) z"

section \<open>Probe and removal\<close>

text \<open>Removal of the device: the engine is cleaned up first, then each pool is destroyed, which needs the
  interface array.\<close>

definition zap_remove :: "'h fpga \<Rightarrow> (nat \<Rightarrow> bool) \<Rightarrow> (nat \<Rightarrow> wait list option) \<Rightarrow> (u64 \<Rightarrow> bool) \<Rightarrow> 'h zap \<Rightarrow> 'h zap option" where
  "zap_remove F intr inflight alloc z = do {
     let n = unat (num_devices (zap_devp z));
     (_, _, z) \<leftarrow> dma_cleanup F intr inflight alloc n z;
     if 0 < n \<and> (case interface (zap_devp z) of None \<Rightarrow> True | Some l \<Rightarrow> length l < n) then None
     else Some (z\<lparr>zap_devp := (zap_devp z)\<lparr>interface := None\<rparr>\<rparr>) }"

text \<open>What the kernel and the device tree answer to \<open>zap_probe\<close>; \<open>None\<close> where a property or node is missing.\<close>

record zap_probe_env =
  zp_kzalloc_dev :: bool
  zp_num_devices :: "u32 option"
  zp_irq :: "int + u32"
  zp_reg :: "u64 option \<times> u64 option"
  zp_memory_region :: bool
  zp_rmem :: "(u64 \<times> u64) option"
  zp_pool_sizes :: "(u64 option \<times> u64 option) option"
  zp_chrdev :: int
  zp_class :: int
  zp_cdev :: int
  zp_kzalloc_if :: bool
  zp_dma :: dma_init_env

definition zap_dev_zero :: zap_dev where
  "zap_dev_zero = \<lparr>num_devices = 0, open_count = 0, dev_sem = False, status = 0, reg_base = 0, reg_sz = 0, hw_irq = 0,
     fpga_params = \<lparr>num_interfaces = 0, rx_dat_fifo_size = 0, rx_oob_fifo_size = 0, tx_dat_fifo_size = 0,
       tx_oob_fifo_size = 0, fpga_board_code = 0, fpga_version_major = 0, fpga_version_minor = 0, fpga_version_release = 0\<rparr>,
     rx_pool_paddr = 0, tx_pool_paddr = 0, rx_pool_size = 0, tx_pool_size = 0, interface = None\<rparr>"

definition pool_zero :: pool where
  "pool_zero = \<lparr>pool_size = 0, buf_paddr = 0, packet_size = 0, aligned_packet_size = 0, num_packets = 0, pentries = None,
     ppackets = 0, pool_lock = False, freeq = 0, fifoq = 0, freelist = [], fifolist = [], usedlist = []\<rparr>"

definition zap_if_fresh :: zap_if where
  "zap_if_fresh = \<lparr>in_use_rx = 1, in_use_tx = 1, fakey = 0, rx_pool = pool_zero, tx_pool = pool_zero, rx_size = 0, tx_size = 0,
     rx_paddr = 0, tx_paddr = 0, rx_highwater = 0, tx_highwater = 0, rx_payload_max_size = 0, tx_payload_max_size = 0,
     rx_header_size = 0, tx_header_size = 0, rx_header_enable = 0, tx_header_enable = 0, rx_jumbo_pkt_enable = 0,
     tx_jumbo_pkt_enable = 0\<rparr>"

text \<open>
  The steps of \<open>zap_probe\<close> up to the first that fails: the device so far, the error and whether the failure
  leaves by \<open>goto fail\<close>, or the receive and transmit sizes.  Where the code does not set \<open>err\<close>, it is
  still 0.
\<close>

definition probe_dt :: "zap_probe_env \<Rightarrow> zap_dev \<times> (int \<times> bool + (u64 \<times> u64) \<times> u64 \<times> u64)" where
  "probe_dt E =
     (let d = zap_dev_zero\<lparr>num_devices := (case zp_num_devices E of None \<Rightarrow> ZAP_MAX_DEVICES | Some n \<Rightarrow> n)\<rparr> in
      case zp_irq E of Inl err \<Rightarrow> (d, Inl (err, True)) | Inr irq \<Rightarrow>
      let d = d\<lparr>hw_irq := irq\<rparr> in
      case zp_reg E of (Some base, Some sz) \<Rightarrow>
        (let d = d\<lparr>reg_base := base, reg_sz := sz\<rparr> in
         if \<not> zp_memory_region E then (d, Inl (0, True)) else
         case zp_rmem E of None \<Rightarrow> (d, Inl (- EINVAL, False)) | Some rmem \<Rightarrow>
         case zp_pool_sizes E of
           None \<Rightarrow> (d, Inr (rmem, snd rmem div 2, snd rmem div 2))
         | Some (Some tx, Some rx) \<Rightarrow>
             if snd rmem < tx + rx then (d, Inl (0, True)) else (d, Inr (rmem, rx, tx))
         | _ \<Rightarrow> (d, Inl (0, True)))
      | _ \<Rightarrow> (d, Inl (0, True)))"

text \<open>\<open>z\<close> holds the static variables of the module before the probe.  The result says whether the device is
  there afterwards.\<close>

definition zap_probe ::
  "'h fpga \<Rightarrow> (nat \<Rightarrow> bool) \<Rightarrow> (nat \<Rightarrow> wait list option) \<Rightarrow> (u64 \<Rightarrow> bool) \<Rightarrow> zap_probe_env \<Rightarrow> 'h zap \<Rightarrow> (int \<times> bool \<times> 'h zap) option"
where
  "zap_probe F intr inflight alloc E z =
     (let fail = (\<lambda>err z. map_option (\<lambda>z. (err, False, z)) (zap_remove F intr inflight alloc z)) in
      if \<not> zp_kzalloc_dev E then None else
      let (d, r) = probe_dt E; z = z\<lparr>zap_devp := d\<rparr> in
      case r of
        Inl (err, cleanup) \<Rightarrow> if cleanup then fail err z else Some (err, True, z)
      | Inr (rmem, rx_pool_sz, tx_pool_sz) \<Rightarrow>
          if zp_chrdev E \<noteq> 0 then fail (zp_chrdev E) z
          else if zp_class E \<noteq> 0 then fail (zp_class E) z
          else let z = z\<lparr>zap_devp := d\<lparr>dev_sem := True\<rparr>\<rparr> in
          if zp_cdev E \<noteq> 0 then fail (zp_cdev E) z
          else if \<not> zp_kzalloc_if E then fail 0 z
          else let d = d\<lparr>dev_sem := True, interface := Some (replicate (unat (num_devices d)) zap_if_fresh),
              rx_pool_paddr := fst rmem, rx_pool_size := rx_pool_sz, tx_pool_paddr := fst rmem + rx_pool_sz,
              tx_pool_size := tx_pool_sz\<rparr> in do {
            (err, z) \<leftarrow> dma_init (zp_dma E) (rx_pool_paddr d) (rx_pool_size d) (tx_pool_paddr d) (tx_pool_size d)
              (z\<lparr>zap_devp := d\<rparr>);
            if err \<noteq> 0 then fail err z else Some (0, True, z) })"

section \<open>The driver keeps the pools\<close>

text \<open>Every command keeps them, but for a maximum packet size of 0.\<close>

lemma pools_kept_refl [simp]: "pools_kept z z"
  by (simp add: pools_kept_same)

lemma zif_dev_sem [simp]: "zif (z\<lparr>zap_devp := (zap_devp z)\<lparr>dev_sem := b\<rparr>\<rparr>) i = zif z i"
  by (simp add: zif_def)

lemma with_dev_sem_kept:
  assumes "with_dev_sem intr x body z = Some (r, z')"
    and "\<And>z r z'. body z = Some (r, z') \<Longrightarrow> pools_kept z z'"
  shows "pools_kept z z'"
proof -
  consider "z' = z" | z1 where "body (z\<lparr>zap_devp := (zap_devp z)\<lparr>dev_sem := False\<rparr>\<rparr>) = Some (r, z1)"
    "z' = z1\<lparr>zap_devp := (zap_devp z1)\<lparr>dev_sem := True\<rparr>\<rparr>"
    using assms(1) by (auto simp: with_dev_sem_def elim!: option_bindE split: if_splits)
  then show ?thesis
  proof cases
    case 2
    from assms(2) [OF 2(1)] show ?thesis by (simp add: pools_kept_def 2(2))
  qed (simp add: pools_kept_same)
qed

lemma take_kept:
  assumes "zap_take ws f g = Some (e, r, g')" "no_wake ws"
  shows "if_kept g g'"
proof -
  note w = no_wake_filter [OF assms(2), of "\<lambda>w. w \<noteq> Timed_Out"]
  have t: "if_kept g (g\<lparr>tx_pool := p\<rparr>)" if "pool_getbuf_try (tx_pool g) = Some (n, x, p)" for n x p
    using pool_op_kept(1) [OF that] by (simp add: if_kept_def)
  have d: "if_kept g (g\<lparr>rx_pool := p\<rparr>)" if "pool_deqbuf_try (rx_pool g) = Some (n, x, p)" for n x p
    using pool_op_kept(4) [OF that] by (simp add: if_kept_def)
  show ?thesis
    using assms(1) unfolding zap_take_def pool_getbuf_def pool_deqbuf_def
    by (auto elim!: option_bindE split: if_split_asm dest!: getbuf_timeout_try [OF _ w] deqbuf_timeout_try [OF _ w] intro: t d)
qed

lemma read_kept:
  assumes "zap_read ws a c f count z = Some (r, x, z')" "no_wake ws"
  shows "pools_kept z z'"
proof -
  have u: "pools_kept z (upd_zif i (\<lambda>_. g') z)" if "zif z i = Some g" "zap_take ws f g = Some (e, y, g')" for i g e y g'
    using that take_kept [OF that(2) assms(2)] by (intro pools_kept_upd) simp
  show ?thesis
    using assms(1) unfolding zap_read_def Let_def
    by (auto elim!: option_bindE split: if_split_asm option.split_asm) (erule (1) u)+
qed

lemma write_kept:
  assumes "zap_write F a data f count z = Some (r, z')"
  shows "pools_kept z z'"
proof -
  have e: "pools_kept z (dma_ll_tx_write_buf F i (upd_zif i (\<lambda>g. g\<lparr>tx_pool := p\<rparr>) z))"
    if "zif z i = Some g" "pool_enqbuf (tx_pool g) b l ol 0 = Some (x, p)" for i g b l ol x p
    by (rule pools_kept_trans [OF pools_kept_tx [OF that(1) pool_op_kept(3) [OF that(2)]]])
       (simp add: dma_ll_tx_write_buf_def pools_kept_same)
  have t: "pools_kept z (upd_zif i (\<lambda>g. g\<lparr>tx_pool := p\<rparr>) z)"
    if "zif z i = Some g" "pool_freebuf (tx_pool g) b = Some (x, p)" for i g b x p
    by (rule pools_kept_tx [OF that(1) pool_op_kept(2) [OF that(2)]])
  have f: "pools_kept z (upd_zif i (\<lambda>g. g\<lparr>rx_pool := p\<rparr>) z)"
    if "zif z i = Some g" "pool_freebuf (rx_pool g) b = Some (x, p)" for i g b x p
    by (rule pools_kept_rx [OF that(1) pool_op_kept(2) [OF that(2)]])
  show ?thesis
    using assms unfolding zap_write_def Let_def
    by (auto elim!: option_bindE split: if_split_asm option.split_asm intro: t f e)
qed

lemma upd_same_pools: "(\<And>g. rx_pool (f g) = rx_pool g \<and> tx_pool (f g) = tx_pool g) \<Longrightarrow> pools_kept z (upd_zif i f z)"
  by (rule pools_kept_upd) (simp add: if_kept_def)

lemma bind_kept:
  assumes "m \<bind> (\<lambda>(r, z). k r z) = Some (r', z')" "\<And>r z1. m = Some (r, z1) \<Longrightarrow> pools_kept z z1"
    and "\<And>r z1. k r z1 = Some (r', z') \<Longrightarrow> pools_kept z1 z'"
  shows "pools_kept z z'"
  using assms by (elim option_bindE) (auto intro: pools_kept_trans)

lemma max_size_kept:
  assumes n: "n \<noteq> 0" and w: "calm inflight"
  shows "w_tx_max_size F intr alloc i n (z :: 'h zap) = Some (r, z') \<Longrightarrow> pools_kept z z'"
    "w_rx_max_size F intr inflight alloc i n z = Some (r, z') \<Longrightarrow> pools_kept z z'"
proof -
  have t: "pools_kept z (upd_zif i (\<lambda>g. g\<lparr>tx_payload_max_size := n, tx_pool := p\<rparr>) z)"
    if "zif z i = Some g" "pool_resize alloc (tx_pool g) n m 0 = Some (r, p)" for z :: "'h zap" and g m r p
    using that resize_kept [OF that(2) n] by (intro pools_kept_upd) (simp add: if_kept_def)
  have r: "pools_kept z (upd_zif i (\<lambda>g. g\<lparr>rx_payload_max_size := n, rx_pool := p\<rparr>) z)"
    if "zif z i = Some g" "pool_resize alloc (rx_pool g) n m 0 = Some (r, p)" for z :: "'h zap" and g m r p
    using that resize_kept [OF that(2) n] by (intro pools_kept_upd) (simp add: if_kept_def)
  show "w_tx_max_size F intr alloc i n z = Some (r, z') \<Longrightarrow> pools_kept z z'"
    unfolding w_tx_max_size_def
    by (erule bind_kept, erule dma_kept(1) [OF w]) (auto elim!: option_bindE split: if_split_asm intro: t)
  show "w_rx_max_size F intr inflight alloc i n z = Some (r, z') \<Longrightarrow> pools_kept z z'"
    unfolding w_rx_max_size_def
    by (erule bind_kept, erule dma_kept(2) [OF w]) (auto elim!: option_bindE split: if_split_asm intro: r)
qed

lemma settings_kept:
  assumes w: "calm inflight"
  shows "w_tx_header_size F intr alloc i n z = Some (r, z') \<Longrightarrow> pools_kept z z'"
    "w_rx_header_size F intr inflight alloc i n z = Some (r, z') \<Longrightarrow> pools_kept z z'"
    "w_tx_jumbo_en F intr alloc i n z = Some (r, z') \<Longrightarrow> pools_kept z z'"
    "w_rx_jumbo_en F intr inflight alloc i n z = Some (r, z') \<Longrightarrow> pools_kept z z'"
proof -
  show "w_tx_header_size F intr alloc i n z = Some (r, z') \<Longrightarrow> pools_kept z z'"
    unfolding w_tx_header_size_def Let_def
    by (erule bind_kept, erule dma_kept(1) [OF w]) (auto simp: upd_same_pools elim!: option_bindE split: if_split_asm)
  show "w_rx_header_size F intr inflight alloc i n z = Some (r, z') \<Longrightarrow> pools_kept z z'"
    unfolding w_rx_header_size_def Let_def
    by (erule bind_kept, erule dma_kept(2) [OF w]) (auto simp: upd_same_pools elim!: option_bindE split: if_split_asm)
  show "w_tx_jumbo_en F intr alloc i n z = Some (r, z') \<Longrightarrow> pools_kept z z'"
    unfolding w_tx_jumbo_en_def
    by (erule bind_kept, erule dma_kept(1) [OF w]) (auto simp: upd_same_pools elim!: option_bindE split: if_split_asm)
  show "w_rx_jumbo_en F intr inflight alloc i n z = Some (r, z') \<Longrightarrow> pools_kept z z'"
    unfolding w_rx_jumbo_en_def
    by (erule bind_kept, erule dma_kept(2) [OF w]) (auto simp: upd_same_pools elim!: option_bindE split: if_split_asm)
qed

lemma ioctl_cmd_kept:
  assumes "zap_ioctl_cmd F intr inflight alloc f cmd arg z = Some (r, z')" "calm inflight"
    and "cmd = ZAP_IOC_W_TX_MAX_SIZE \<or> cmd = ZAP_IOC_W_RX_MAX_SIZE \<longrightarrow> arg \<noteq> 0"
  shows "pools_kept z z'"
proof -
  note k = dma_kept [OF assms(2)] settings_kept [OF assms(2)]
  have h: "pools_kept z z1" if "dma_ll_update_high_water_marks F i z = Some z1" for i z1
    using that by (auto simp: dma_ll_update_high_water_marks_def case_prod_unfold Let_def pools_kept_def if_kept_def option.rel_refl
        elim!: option_bindE)
  show ?thesis
  proof (cases "arg = 0")
    case True
    then have "cmd \<noteq> ZAP_IOC_W_TX_MAX_SIZE" "cmd \<noteq> ZAP_IOC_W_RX_MAX_SIZE" using assms(3) by blast+
    then show ?thesis
      using assms(1) unfolding zap_ioctl_cmd_def Let_def
      by (auto split: if_split_asm elim!: option_bindE dest: k h simp: upd_same_pools)
  next
    case False
    note m = max_size_kept [OF False assms(2)]
    show ?thesis
      using assms(1) unfolding zap_ioctl_cmd_def Let_def
      by (auto split: if_split_asm elim!: option_bindE dest: k h m simp: upd_same_pools)
  qed
qed

lemma ioctl_kept:
  assumes "zap_ioctl F access_ok intr intr_dma inflight alloc f cmd arg z = Some (r, z')" "calm inflight"
    and "cmd = ZAP_IOC_W_TX_MAX_SIZE \<or> cmd = ZAP_IOC_W_RX_MAX_SIZE \<longrightarrow> arg \<noteq> 0"
  shows "pools_kept z z'"
  using assms(1) ioctl_cmd_kept [OF _ assms(2,3)]
  by (auto simp: zap_ioctl_def split: if_split_asm elim!: with_dev_sem_kept)

lemma poll_kept: "zap_poll intr f z = Some (r, z') \<Longrightarrow> pools_kept z z'"
proof -
  have r: "pool_kept p q" if "pool_freebufs_ready p = Some (b, p')" "pool_freebufs_ready p' = Some (c, q)" for p p' q b c
    using that step_kept [OF step_ready] pool_kept_trans by blast
  have f: "pool_kept p q" if "pool_fifobufs_ready p = Some (b, p')" "pool_fifobufs_ready p' = Some (c, q)" for p p' q b c
    using that step_kept [OF step_ready] pool_kept_trans by blast
  show "zap_poll intr f z = Some (r, z') \<Longrightarrow> pools_kept z z'"
    unfolding zap_poll_def Let_def
    by (erule with_dev_sem_kept)
       (auto elim!: option_bindE split: if_split_asm, erule pools_kept_tx, erule (1) r, erule pools_kept_rx, erule (1) f)
qed

lemma release_kept:
  assumes "zap_release F intr_tx intr_rx intr inflight alloc f z = Some (r, z')" "calm inflight"
  shows "pools_kept z z'"
proof -
  let ?i = "zap_device_num f"
  note k = dma_kept [OF assms(2)]
  have up: "pools_kept z ((upd_zif i g z)\<lparr>zap_devp := (zap_devp (upd_zif i g z))\<lparr>open_count := c\<rparr>\<rparr>)"
    if "\<And>g'. rx_pool (g g') = rx_pool g' \<and> tx_pool (g g') = tx_pool g'" for z :: "'a zap" and i g c
    by (rule pools_kept_trans [OF upd_same_pools [OF that] pools_kept_same]) (simp add: zif_def)
  consider "z' = z" | q1 z1 q2 z2 where
      "(if the (dma_tx_is_on ?i z) then dma_stop_tx F intr_tx alloc ?i z else Some (0, z)) = Some (q1, z1)"
      "(if the (dma_rx_is_on ?i z1) then dma_stop_rx F intr_rx inflight alloc ?i z1 else Some (0, z1)) = Some (q2, z2)"
      "with_dev_sem intr (- ERESTARTSYS) (\<lambda>z. do {
          _ \<leftarrow> zif z ?i;
          let z = upd_zif ?i (\<lambda>g. if is_tx_device f then g\<lparr>in_use_tx := in_use_tx g + 1\<rparr> else g\<lparr>in_use_rx := in_use_rx g + 1\<rparr>) z;
          let c = open_count (zap_devp z) - 1;
          let z = z\<lparr>zap_devp := (zap_devp z)\<lparr>open_count := (if c < 0 then 0 else c)\<rparr>\<rparr>;
          Some (0, z) }) z2 = Some (r, z')"
    using assms(1) unfolding zap_release_def Let_def
    by (auto simp del: if_split_asm elim!: option_bindE split del: if_split split: if_split_asm)
  then show ?thesis
  proof cases
    case 2
    have "pools_kept z z1" using 2(1) k(1) by (auto split: if_split_asm)
    moreover have "pools_kept z1 z2" using 2(2) k(2) by (auto split: if_split_asm)
    moreover have "pools_kept z2 z'" using 2(3) by (elim with_dev_sem_kept) (auto simp: Let_def elim!: option_bindE intro!: up)
    ultimately show ?thesis by (blast intro: pools_kept_trans)
  qed simp
qed

section \<open>Reachable states\<close>

text \<open>Any sequence of calls, interrupts and rounds of the receive task while the nodes are open, with any
  arguments but a maximum packet size of 0.  A call that waits is a step at the moment it gets its
  buffer.\<close>

inductive zap_step :: "'h fpga \<Rightarrow> 'h zap \<Rightarrow> 'h zap \<Rightarrow> bool" for F where
  zs_read: "zap_read ws a c f count z = Some (r, x, z') \<Longrightarrow> no_wake ws \<Longrightarrow> zap_step F z z'"
| zs_write: "zap_write F a data f count z = Some (r, z') \<Longrightarrow> zap_step F z z'"
| zs_ioctl: "zap_ioctl F ok intr intr_dma inflight alloc f cmd arg z = Some (r, z') \<Longrightarrow> calm inflight \<Longrightarrow>
    cmd = ZAP_IOC_W_TX_MAX_SIZE \<or> cmd = ZAP_IOC_W_RX_MAX_SIZE \<longrightarrow> arg \<noteq> 0 \<Longrightarrow> zap_step F z z'"
| zs_poll: "zap_poll intr f z = Some (r, z') \<Longrightarrow> zap_step F z z'"
| zs_release: "zap_release F intr_tx intr_rx intr inflight alloc f z = Some (r, z') \<Longrightarrow> calm inflight \<Longrightarrow> zap_step F z z'"
| zs_isr: "dma_isr F z = Some (r, z') \<Longrightarrow> zap_step F z z'"
| zs_task: "rx_getbuf ws i z = Some (err, x, z1) \<Longrightarrow> no_wake ws \<Longrightarrow> zap_step F z (rx_post F i err x z1)"

lemma zap_step_kept:
  assumes "zap_step F z z'"
  shows "pools_kept z z'"
  using assms
proof cases
  case (zs_task ws i err x z1)
  then have "pools_kept z z1" using rx_getbuf_kept by blast
  then show ?thesis unfolding zs_task(1) by (rule pools_kept_trans) (simp add: pools_kept_same)
qed (auto dest: read_kept write_kept ioctl_kept poll_kept release_kept dma_isr_kept)

lemma zap_steps_kept: "(zap_step F)\<^sup>*\<^sup>* z z' \<Longrightarrow> pools_kept z z'"
  by (induction rule: rtranclp_induct) (auto dest: zap_step_kept intro: pools_kept_trans)


lemma sample_alive: "pool_alive sample_pool"
  using sample_pool_inv by (simp add: pool_alive_def sample_pool_def sample_region_def)


section \<open>A packet received, a packet sent\<close>

text \<open>What an interrupt word says: the interface, and which of the three causes are raised and not masked.\<close>

definition irq_for :: "u32 \<Rightarrow> nat \<Rightarrow> bool \<Rightarrow> bool \<Rightarrow> bool \<Rightarrow> bool" where
  "irq_for icr i rx full free \<longleftrightarrow> icr AND ICR_INT_PEND \<noteq> 0 \<and> unat (drop_bit 8 icr AND 0xFF) = i \<and>
     (icr AND ICR_INT_RXRDY \<noteq> 0 \<and> icr AND ICR_MSK_RXRDY \<noteq> 0) = rx \<and>
     (icr AND ICR_INT_TX_FULL_RDY \<noteq> 0 \<and> icr AND ICR_MSK_TX_FULL_RDY \<noteq> 0) = full \<and>
     (icr AND ICR_INT_TX_FREE_RDY \<noteq> 0 \<and> icr AND ICR_MSK_TX_FREE_RDY \<noteq> 0) = free"

lemma dma_isr_irq:
  assumes "fp_read F 4 (z_hw z) = (icr, h)" "irq_for icr i rx full free"
  shows "dma_isr F z = do {
    z \<leftarrow> (if rx then isr_rx F i (z\<lparr>z_hw := h\<rparr>) else Some (z\<lparr>z_hw := h\<rparr>));
    (fail, z) \<leftarrow> (if full then isr_tx_full F i z else Some (False, z));
    if fail then Some (- 1, z)
    else do { z \<leftarrow> (if free then isr_tx_free F i z else Some z); Some (IRQ_HANDLED, z) } }"
proof -
  have r: "ZAP_REG_READ F 0 ZAP_REG_ISR z = (icr, z\<lparr>z_hw := h\<rparr>)" using assms(1) by (simp add: reg_read_eq ZAP_REG_ISR_def)
  have c: "unat (drop_bit 8 icr AND 0xFF) = i" "(icr AND ICR_INT_RXRDY \<noteq> 0 \<and> icr AND ICR_MSK_RXRDY \<noteq> 0) = rx"
    "(icr AND ICR_INT_TX_FULL_RDY \<noteq> 0 \<and> icr AND ICR_MSK_TX_FULL_RDY \<noteq> 0) = full"
    "(icr AND ICR_INT_TX_FREE_RDY \<noteq> 0 \<and> icr AND ICR_MSK_TX_FREE_RDY \<noteq> 0) = free" "(icr AND ICR_INT_PEND = 0) = False"
    using assms(2) unfolding irq_for_def by blast+
  show ?thesis unfolding dma_isr_def r Let_def prod.case c by (simp only: if_False)
qed

lemma ucast_low: "unat (b :: u64) < 2 ^ 32 \<Longrightarrow> ucast (ucast b :: u32) = b"
  by (simp add: word_unat_eq_iff unsigned_ucast_eq unsigned_take_bit_eq take_bit_nat_eq_self)

lemma deqbuf_now: "pool_deqbuf_try p = Some (1, Some d, p') \<Longrightarrow> pool_deqbuf_timeout ws p = Some (0, Some d, p')"
  unfolding pool_deqbuf_timeout.simps [of ws p]
  by (auto simp: pool_deqbuf_try_def elim!: option_bindE split: if_split_asm)

lemma getbuf_now: "pool_getbuf_try p = Some (1, Some d, p') \<Longrightarrow> pool_getbuf_timeout ws p = Some (0, Some d, p')"
  unfolding pool_getbuf_timeout.simps [of ws p]
  by (auto simp: pool_getbuf_try_def elim!: option_bindE split: if_split_asm)

lemma zap_take_rx:
  "\<not> is_tx_device f \<Longrightarrow> pool_deqbuf_try (rx_pool g) = Some (1, Some d, p) \<Longrightarrow> zap_take ws f g = Some (0, Some d, g\<lparr>rx_pool := p\<rparr>)"
  by (simp add: zap_take_def pool_deqbuf_def deqbuf_now)

lemma zap_take_tx:
  "is_tx_device f \<Longrightarrow> pool_getbuf_try (tx_pool g) = Some (1, Some (b, len), p) \<Longrightarrow>
    zap_take ws f g = Some (0, Some (b, len, 0, 0), g\<lparr>tx_pool := p\<rparr>)"
  by (simp add: zap_take_def pool_getbuf_def getbuf_now)

lemma inv_ppackets: "pool_inv p \<Longrightarrow> ppackets p = buf_paddr p"
  by (simp add: pool_inv_def pool_geom_def)

text \<open>
  C29: a received packet reaches the reader.  A buffer is with the FPGA, which reports it filled and its
  sizes.  The interrupt handler queues it; the next read on the receive node, blocking or not, yields
  its offset, the decoded lengths and the flags; and writing the offset back makes the buffer free.
\<close>

theorem zap_rx_delivers:
  assumes z: "zif z i = Some g" "dif z i = Some d"
    and p: "pool_inv (rx_pool g)" "buf_paddr (rx_pool g) = rx_paddr g" "fifo_bufs (rx_pool g) = []"
    and b: "b \<in> used_bufs (rx_pool g)" "unat b < 2 ^ 32"
    and hw: "fp_read F 4 (z_hw z) = (icr, h1)" "irq_for icr i True False False"
      "fp_read F (of_nat i * 0x20 + ZAP_REG_RBAR) h1 = (ucast b, h2)" "fp_read F (of_nat i * 0x20 + ZAP_REG_BSR) h2 = (bsr, h3)"
    and f: "zap_device_num f = i" "\<not> is_tx_device f"
    and s: "rx_sizes (rx_jumbo_pkt_enable g \<noteq> 0) bsr = (len, ooblen, flags)"
  shows "\<exists>z1 z2 z3 g3. dma_isr F z = Some (IRQ_HANDLED, z1) \<and>
    zap_read ws True True f 32 z1 = Some (32, Some [b - rx_paddr g, ucast len, ucast ooblen, flags], z2) \<and>
    zap_write F True (Some (b - rx_paddr g, x, y)) f 24 z2 = Some (24, z3) \<and> zif z3 i = Some g3 \<and> pool_inv (rx_pool g3) \<and>
    free_bufs (rx_pool g3) = insert b (free_bufs (rx_pool g)) \<and> used_bufs (rx_pool g3) = used_bufs (rx_pool g) - {b} \<and>
    fifo_bufs (rx_pool g3) = []"
proof -
  let ?p = "rx_pool g" and ?d = "(b, ucast len, ucast ooblen, flags)"
  obtain p1 where p1: "pool_enqbuf ?p b (ucast len) (ucast ooblen) flags = Some (0, p1)" "pool_inv p1" "geometry p1 = geometry ?p"
    "free_bufs p1 = free_bufs ?p" "used_bufs p1 = used_bufs ?p - {b}" "fifo_bufs p1 = [?d]"
    using enqbuf_used_bufs [OF p(1) b(1), of "ucast len" "ucast ooblen" flags] p(3) by auto
  obtain p2 where p2: "pool_deqbuf_try p1 = Some (1, Some ?d, p2)" "pool_inv p2" "geometry p2 = geometry p1"
    "free_bufs p2 = free_bufs ?p" "used_bufs p2 = used_bufs ?p" "fifo_bufs p2 = []"
    using deqbuf_try_some [OF p1(2,6)] p1(4,5) insert_absorb [OF b(1)] by auto
  obtain p3 where p3: "pool_freebuf p2 b = Some (0, p3)" "pool_inv p3" "free_bufs p3 = insert b (free_bufs ?p)"
    "used_bufs p3 = used_bufs ?p - {b}" "fifo_bufs p3 = []"
    using freebuf_used_bufs [OF p2(2), of b] p2(4-6) b(1) by auto
  have pp: "ppackets ?p = rx_paddr g" "ppackets p2 = rx_paddr g"
    using inv_ppackets [OF p(1)] p(2) p1(3) p2(3) by (simp_all add: geometry_def)
  let ?u = "\<lambda>p. upd_zif i (\<lambda>f. f\<lparr>rx_pool := p\<rparr>)"
  let ?z1 = "?u p1 ((upd_dif i (\<lambda>d. d\<lparr>rx_dma_count := rx_dma_count d + 1\<rparr>) (z\<lparr>z_hw := h2\<rparr>))\<lparr>z_hw := h3\<rparr>)"
  have "isr_rx F i (z\<lparr>z_hw := h1\<rparr>) = Some ?z1"
    using z hw(3,4) p1(1) pp(1) s ucast_low [OF b(2)]
    by (simp add: isr_rx_def reg_read_eq pool_offset2pbuf_def pool_packets_offset_def)
  then have 1: "dma_isr F z = Some (IRQ_HANDLED, ?z1)" by (simp add: dma_isr_irq [OF hw(1,2)])
  let ?z2 = "upd_zif i (\<lambda>_. g\<lparr>rx_pool := p2\<rparr>) ?z1"
  have 2: "zap_read ws True True f 32 ?z1 = Some (32, Some [b - rx_paddr g, ucast len, ucast ooblen, flags], ?z2)"
    using z(1) f p2(1) pp(2) by (simp add: zap_read_def zap_take_rx pool_pbuf2offset_def)
  have 3: "zap_write F True (Some (b - rx_paddr g, x, y)) f 24 ?z2 = Some (24, ?u p3 ?z2)"
    using z(1) f p3(1) pp(2) by (simp add: zap_write_def pool_offset2pbuf_def)
  have "zif (?u p3 ?z2) i = Some (g\<lparr>rx_pool := p3\<rparr>)" using z(1) by simp
  with 1 2 3 p3(2-5) show ?thesis by fastforce
qed

definition sample_rx_node :: zfile where "sample_rx_node = \<lparr>zf_minor = 0, zf_rdonly = False, zf_nonblock = False\<rparr>"
definition sample_tx_node :: zfile where "sample_tx_node = \<lparr>zf_minor = 1, zf_rdonly = False, zf_nonblock = True\<rparr>"

lemma sample_nodes: "zap_device_num sample_rx_node = 0" "\<not> is_tx_device sample_rx_node"
  "zap_device_num sample_tx_node = 0" "is_tx_device sample_tx_node"
proof -
  have "drop_bit 1 (1 :: u32) = 0" by code_simp
  then show "zap_device_num sample_rx_node = 0" "\<not> is_tx_device sample_rx_node"
    "zap_device_num sample_tx_node = 0" "is_tx_device sample_tx_node"
    by (simp_all add: sample_rx_node_def sample_tx_node_def zap_device_num_def is_tx_device_def)
qed

theorem zap_rx_delivers_witness:
  "\<exists>z1 z2 z3. dma_isr sample_fpga (sample_zap\<lparr>z_hw := (\<lambda>_. 0)(4 := 0x80020002, 0xC := 0x1000000C, 0x10 := 0x00010002)\<rparr>) = Some (1, z1) \<and>
    zap_read [] True True sample_rx_node 32 z1 = Some (32, Some [12, 8, 4, 0], z2) \<and>
    zap_write sample_fpga True (Some (12, 0, 0)) sample_rx_node 24 z2 = Some (24, z3)"
proof -
  let ?z = "sample_zap\<lparr>z_hw := (\<lambda>_. 0)(4 := 0x80020002, 0xC := 0x1000000C, 0x10 := 0x00010002)\<rparr>"
  have i: "irq_for 0x80020002 0 True False False" by code_simp
  have s: "rx_sizes (rx_jumbo_pkt_enable sample_if \<noteq> 0) 0x00010002 = (8, 4, 0)" unfolding sample_if_def by code_simp
  have z: "zif ?z 0 = Some sample_if" "dif ?z 0 = Some \<lparr>rx_on = True, tx_on = True, rx_dma_count = 0, tx_dma_count = 0, rx_work = True\<rparr>"
    by (simp_all add: sample_zap_if)
  have p: "buf_paddr (rx_pool sample_if) = rx_paddr sample_if" "rx_paddr sample_if = 0x10000000"
    by (simp_all add: sample_if_def sample_pool_def sample_region_def)
  have h: "fp_read sample_fpga r h = (h r, h)" for r h by (simp add: sample_fpga_def)
  have u: "ucast (0x1000000C :: u64) = (0x1000000C :: u32)" by code_simp
  show ?thesis
    using zap_rx_delivers [OF z _ p(1), of "0x1000000C" sample_fpga "0x80020002" _ _ "0x00010002" _ sample_rx_node 8 4 0 "[]" 0 0]
      sample_pool_inv sample_pool_bufs i s sample_nodes p(2)
    by (auto simp: sample_if_pools h u reg_defs IRQ_HANDLED_def)
qed

text \<open>The life of a buffer in the pool of a transmitter, as \<open>buffer_pool.life_cycle\<close> with what the
  driver sees on the way.\<close>

lemma packet_below_4G:
  assumes "pool_inv p" "b \<in> free_bufs p" "unat (buf_paddr p) + unat (pool_size p) < 2 ^ 32"
  shows "ucast (ucast b :: u32) = b"
proof (rule ucast_low)
  obtain j where j: "j < unat (num_packets p)" "b = packet p j"
    using assms(2) inv_subsets(1) [OF assms(1)] by (auto simp: free_bufs_def)
  have "b \<le> buf_paddr p + pool_size p" using packet_bounds(2) [of p j] assms(1) j by (simp add: pool_inv_def)
  moreover have "unat (buf_paddr p + pool_size p) = unat (buf_paddr p) + unat (pool_size p)"
    using unat_plus_small [of "buf_paddr p" "unat (pool_size p)"] assms(3) by simp
  ultimately show "unat b < 2 ^ 32" using assms(3) unfolding word_le_nat_alt by linarith
qed

lemma tx_life:
  assumes p: "pool_inv p" "free_bufs p \<noteq> {}" "fifo_bufs p = []"
  obtains b p1 p2 p3 p4 where "pool_getbuf_try p = Some (1, Some (b, packet_size p), p1)" "b \<in> free_bufs p" "ppackets p1 = buf_paddr p"
    "pool_enqbuf p1 b len ooblen 0 = Some (0, p2)" "fifolist p2 \<noteq> []"
    "pool_deqbuf_try p2 = Some (1, Some (b, len, ooblen, 0), p3)" "fifolist p3 = []"
    "pool_freebuf p3 b = Some (0, p4)" "pool_inv p4" "free_bufs p4 = free_bufs p" "used_bufs p4 = used_bufs p" "fifo_bufs p4 = []"
proof -
  obtain b p1 where p1: "pool_getbuf_try p = Some (1, Some (b, packet_size p), p1)" "pool_inv p1" "geometry p1 = geometry p"
    "b \<in> free_bufs p" "free_bufs p1 = free_bufs p - {b}" "used_bufs p1 = insert b (used_bufs p)" "fifo_bufs p1 = []"
    using getbuf_try_some [OF p(1,2)] p(3) by auto
  have nb: "b \<notin> used_bufs p" using bufs_apart [OF p(1)] p1(4) by auto
  obtain p2 where p2: "pool_enqbuf p1 b len ooblen 0 = Some (0, p2)" "pool_inv p2"
    "free_bufs p2 = free_bufs p - {b}" "used_bufs p2 = used_bufs p" "fifo_bufs p2 = [(b, len, ooblen, 0)]"
    using enqbuf_used_bufs [OF p1(2), of b len ooblen 0] p1 nb by auto
  obtain p3 where p3: "pool_deqbuf_try p2 = Some (1, Some (b, len, ooblen, 0), p3)" "pool_inv p3"
    "free_bufs p3 = free_bufs p - {b}" "used_bufs p3 = insert b (used_bufs p)" "fifo_bufs p3 = []"
    using deqbuf_try_some [OF p2(2,5)] p2(3,4) by auto
  obtain p4 where p4: "pool_freebuf p3 b = Some (0, p4)" "pool_inv p4" "free_bufs p4 = free_bufs p" "used_bufs p4 = used_bufs p"
    "fifo_bufs p4 = []"
    using freebuf_used_bufs [OF p3(2), of b] p3(3-5) insert_absorb [OF p1(4)] nb by auto
  have fl: "fifolist p2 \<noteq> []" "fifolist p3 = []"
    using p2(2,5) p3(2,5) by (auto simp: fifo_bufs_def fifo_view_def pool_inv_def split: option.splits)
  have "ppackets p1 = buf_paddr p" using inv_ppackets [OF p(1)] p1(3) by (simp add: geometry_def)
  from that [OF p1(1,4) this p2(1) fl(1) p3(1) fl(2) p4] show ?thesis .
qed

text \<open>
  C30: a packet is sent.  Reading from the transmit node yields a free buffer; writing its offset back
  with a length that is allowed queues it and raises the transmit interrupt; the handler then hands
  its address and sizes to the FPGA and, the queue being empty, masks the interrupt; and when the FPGA
  reports the address back, the buffer is free again and all is as before.
\<close>

theorem zap_tx_sends:
  assumes z: "zif z i = Some g" "dif z i = Some d"
    and p: "pool_inv (tx_pool g)" "free_bufs (tx_pool g) \<noteq> {}" "fifo_bufs (tx_pool g) = []"
      "unat (buf_paddr (tx_pool g)) + unat (pool_size (tx_pool g)) < 2 ^ 32"
    and f: "zap_device_num f = i" "is_tx_device f"
    and l: "len \<noteq> - 1" "len \<le> tx_payload_max_size g" "ooblen = 0 \<or> tx_header_enable g \<noteq> 0 \<and> ooblen \<le> tx_header_size g"
  shows "\<exists>b z1 z2. b \<in> free_bufs (tx_pool g) \<and>
    zap_read ws True True f 32 z = Some (32, Some [b - buf_paddr (tx_pool g), packet_size (tx_pool g), 0, 0], z1) \<and>
    zap_write F True (Some (b - buf_paddr (tx_pool g), len, ooblen)) f 24 z1 = Some (24, z2) \<and>
    z_hw z2 = fp_write F (of_nat i * 0x20 + ZAP_REG_ICR) ICR_SET_TX_FULL_RDY (z_hw z) \<and>
    (\<forall>icr h. fp_read F 4 (z_hw z2) = (icr, h) \<longrightarrow> irq_for icr i False True False \<longrightarrow>
      (\<exists>z3. dma_isr F z2 = Some (IRQ_HANDLED, z3) \<and>
        z_hw z3 = fp_write F (of_nat i * 0x20 + ZAP_REG_ICR) ICR_CLR_TX_FULL_RDY
          (fp_write F (of_nat i * 0x20 + ZAP_REG_BSR) (ucast (tx_sizes (tx_jumbo_pkt_enable g \<noteq> 0) len ooblen))
            (fp_write F (of_nat i * 0x20 + ZAP_REG_TBAR) (ucast b) h)) \<and>
        (\<forall>icr' h' h''. fp_read F 4 (z_hw z3) = (icr', h') \<longrightarrow> irq_for icr' i False False True \<longrightarrow>
          fp_read F (of_nat i * 0x20 + ZAP_REG_TBAR) h' = (ucast b, h'') \<longrightarrow>
          (\<exists>z4 g4. dma_isr F z3 = Some (IRQ_HANDLED, z4) \<and> zif z4 i = Some g4 \<and> pool_inv (tx_pool g4) \<and>
            free_bufs (tx_pool g4) = free_bufs (tx_pool g) \<and> used_bufs (tx_pool g4) = used_bufs (tx_pool g) \<and>
            fifo_bufs (tx_pool g4) = []))))"
proof -
  let ?p = "tx_pool g" and ?u = "\<lambda>p. upd_zif i (\<lambda>f. f\<lparr>tx_pool := p\<rparr>)" and ?a = "\<lambda>r. of_nat i * 0x20 + r :: u32"
  obtain b p1 p2 p3 p4 where p1: "pool_getbuf_try ?p = Some (1, Some (b, packet_size ?p), p1)" "b \<in> free_bufs ?p"
      "ppackets p1 = buf_paddr ?p"
    and p2: "pool_enqbuf p1 b len ooblen 0 = Some (0, p2)" "fifolist p2 \<noteq> []"
    and p3: "pool_deqbuf_try p2 = Some (1, Some (b, len, ooblen, 0), p3)" "fifolist p3 = []"
    and p4: "pool_freebuf p3 b = Some (0, p4)" "pool_inv p4" "free_bufs p4 = free_bufs ?p" "used_bufs p4 = used_bufs ?p"
      "fifo_bufs p4 = []"
    by (rule tx_life [OF p(1-3)])
  note b32 = packet_below_4G [OF p(1) p1(2) p(4)]
  let ?z1 = "upd_zif i (\<lambda>_. g\<lparr>tx_pool := p1\<rparr>) z"
  let ?z2 = "dma_ll_tx_write_buf F i (?u p2 ?z1)"
  have 1: "zap_read ws True True f 32 z = Some (32, Some [b - buf_paddr ?p, packet_size ?p, 0, 0], ?z1)"
    using z(1) f p1(1,3) by (simp add: zap_read_def zap_take_tx pool_pbuf2offset_def)
  have 2: "zap_write F True (Some (b - buf_paddr ?p, len, ooblen)) f 24 ?z1 = Some (24, ?z2)"
    using z(1) f p2(1) p1(3) l by (auto simp: zap_write_def pool_offset2pbuf_def)
  have hw2: "z_hw ?z2 = fp_write F (?a ZAP_REG_ICR) ICR_SET_TX_FULL_RDY (z_hw z)" by (simp add: dma_ll_tx_write_buf_def)
  have g2: "zif ?z2 i = Some (g\<lparr>tx_pool := p2\<rparr>)" "dif ?z2 i = Some d" using z by (simp_all add: dma_ll_tx_write_buf_def)
  let ?z3 = "\<lambda>h. ZAP_REG_WRITE F i ZAP_REG_ICR ICR_CLR_TX_FULL_RDY (ZAP_REG_WRITE F i ZAP_REG_BSR
    (ucast (tx_sizes (tx_jumbo_pkt_enable g \<noteq> 0) len ooblen)) (ZAP_REG_WRITE F i ZAP_REG_TBAR (ucast b)
    (?u p3 (upd_dif i (\<lambda>d. d\<lparr>tx_dma_count := tx_dma_count d + 1\<rparr>) (?z2\<lparr>z_hw := h\<rparr>)))))"
  have 3: "dma_isr F ?z2 = Some (IRQ_HANDLED, ?z3 h)" if "fp_read F 4 (z_hw ?z2) = (icr, h)" "irq_for icr i False True False" for icr h
  proof -
    have "isr_tx_full F i (?z2\<lparr>z_hw := h\<rparr>) = Some (False, ?z3 h)"
      using g2 p2(2) p3 by (simp add: isr_tx_full_def)
    then show ?thesis by (simp add: dma_isr_irq [OF that])
  qed
  have 4: "\<exists>z4 g4. dma_isr F (?z3 h) = Some (IRQ_HANDLED, z4) \<and> zif z4 i = Some g4 \<and> tx_pool g4 = p4"
    if "fp_read F 4 (z_hw (?z3 h)) = (icr, h')" "irq_for icr i False False True" "fp_read F (?a ZAP_REG_TBAR) h' = (ucast b, h'')"
    for icr h h' h''
  proof -
    have "isr_tx_free F i ((?z3 h)\<lparr>z_hw := h'\<rparr>) = Some (?u p4 ((?z3 h)\<lparr>z_hw := h'\<rparr>\<lparr>z_hw := h''\<rparr>))"
      using g2(1) p4(1) that(3) b32 by (simp add: isr_tx_free_def reg_read_eq)
    then show ?thesis using g2(1) by (simp add: dma_isr_irq [OF that(1,2)])
  qed
  have hw3: "z_hw (?z3 h) = fp_write F (?a ZAP_REG_ICR) ICR_CLR_TX_FULL_RDY
    (fp_write F (?a ZAP_REG_BSR) (ucast (tx_sizes (tx_jumbo_pkt_enable g \<noteq> 0) len ooblen))
      (fp_write F (?a ZAP_REG_TBAR) (ucast b) h))" for h by simp
  show ?thesis
    by (rule exI [of _ b], rule exI [of _ ?z1], rule exI [of _ ?z2], intro conjI allI impI)
       (use 1 2 hw2 p1(2) 3 4 hw3 p4(2-5) in blast)+
qed

text \<open>A transmit pool with one of its two packets free.\<close>

definition sample_tx_pool :: pool where
  "sample_tx_pool = snd (the (pool_freebuf sample_pool 0x1000000C))"

lemma sample_tx_pool: "pool_inv sample_tx_pool" "free_bufs sample_tx_pool = {0x1000000C}" "fifo_bufs sample_tx_pool = []"
  "geometry sample_tx_pool = geometry sample_pool"
proof -
  obtain p where p: "pool_freebuf sample_pool 0x1000000C = Some (0, p)" "pool_inv p" "geometry p = geometry sample_pool"
    "free_bufs p = insert 0x1000000C (free_bufs sample_pool)" "fifo_bufs p = fifo_bufs sample_pool"
    using freebuf_used_bufs [OF sample_pool_inv, of "0x1000000C"] by (auto simp only: sample_pool_bufs)
  have "sample_tx_pool = p" unfolding sample_tx_pool_def p(1) by simp
  with p(2-5) show "pool_inv sample_tx_pool" "free_bufs sample_tx_pool = {0x1000000C}" "fifo_bufs sample_tx_pool = []"
    "geometry sample_tx_pool = geometry sample_pool" by (simp_all only: sample_pool_bufs)
qed

theorem zap_tx_sends_witness:
  "\<exists>z1 z2. zap_read [] True True sample_tx_node 32 (upd_zif 0 (\<lambda>g. g\<lparr>tx_pool := sample_tx_pool\<rparr>) sample_zap) =
      Some (32, Some [12, 10, 0, 0], z1) \<and>
    zap_write sample_fpga True (Some (12, 8, 0)) sample_tx_node 24 z1 = Some (24, z2)"
proof -
  let ?g = "sample_if\<lparr>tx_pool := sample_tx_pool\<rparr>"
  have z: "zif (upd_zif 0 (\<lambda>g. g\<lparr>tx_pool := sample_tx_pool\<rparr>) sample_zap) 0 = Some ?g"
    "dif (upd_zif 0 (\<lambda>g. g\<lparr>tx_pool := sample_tx_pool\<rparr>) sample_zap) 0 =
      Some \<lparr>rx_on = True, tx_on = True, rx_dma_count = 0, tx_dma_count = 0, rx_work = True\<rparr>"
    by (simp_all add: sample_zap_if)
  have q: "buf_paddr sample_tx_pool = 0x10000000" "pool_size sample_tx_pool = 8192" "packet_size sample_tx_pool = 10"
    using sample_tx_pool(4) by (simp_all add: geometry_def sample_pool_def sample_region_def)
  have l: "tx_payload_max_size ?g = 10" by (simp add: sample_if_def)
  show ?thesis
    using zap_tx_sends [OF z, of sample_tx_node 8 0 "[]" sample_fpga] sample_tx_pool q l sample_nodes by auto
qed

lemma Suc_Suc_sub: "2 \<le> n \<Longrightarrow> Suc (Suc (n - 2)) = n"
  by simp

lemma small_bits: "unat (x :: u64) < 2 ^ n \<Longrightarrow> bit x k \<Longrightarrow> k < n"
proof (rule ccontr)
  assume a: "unat x < 2 ^ n" "bit x k" "\<not> k < n"
  then have "take_bit n (unat x) = unat x" by (simp add: take_bit_nat_eq_self)
  moreover have "bit (unat x) k" using a(2) by (simp add: bit_unsigned_iff)
  ultimately show False using a(3) by (metis bit_take_bit_iff)
qed

lemma dvd4_bits: "4 dvd unat (x :: u64) \<Longrightarrow> bit x k \<Longrightarrow> 2 \<le> k"
proof -
  assume a: "4 dvd unat x" "bit x k"
  have "unat x = push_bit 2 (unat x div 4)" using a(1) by (simp add: push_bit_eq_mult)
  moreover have "bit (unat x) k" using a(2) by (simp add: bit_unsigned_iff)
  ultimately show "2 \<le> k" by (metis bit_push_bit_iff)
qed

text \<open>
  C31: sizes survive the way through the hardware.  If the FPGA loops the size word of a sent packet back
  as the size of a received one, the receiver sees the lengths the sender gave, and no error flag: for
  lengths that are multiples of four, below 256 KB for the payload and 64 KB for the header.
\<close>

theorem zap_sizes_roundtrip:
  assumes "unat len < 2 ^ 18" "4 dvd unat len" "unat ooblen < 2 ^ 16" "4 dvd unat ooblen"
  shows "rx_sizes False (ucast (tx_sizes False len ooblen)) = (ucast len, ucast ooblen, 0)"
proof -
  note L = small_bits [OF assms(1)] dvd4_bits [OF assms(2)] and O = small_bits [OF assms(3)] dvd4_bits [OF assms(4)]
  let ?w = "ucast (tx_sizes False len ooblen) :: u32"
  have m: "(0xFFFF :: u64) = mask 16" "(0xFFFF0000 :: u64) = push_bit 16 (mask 16)" "(0xFFFF :: u32) = mask 16" "(0x3FFF :: u32) = mask 14"
    by code_simp+
  have w: "bit ?w n \<longleftrightarrow> n < 32 \<and> (if n < 16 then bit len (n + 2) else bit ooblen (n - 14))" for n
    unfolding tx_sizes_def m by (auto simp: bit_simps)
  obtain W where W: "?w = W" by blast
  note w = w [unfolded W]
  have 1: "push_bit 2 (W AND 0xFFFF) = ucast len"
  proof (rule bit_eqI)
    fix n
    show "bit (push_bit 2 (W AND 0xFFFF)) n = bit (ucast len :: u32) n" if "possible_bit TYPE(u32) n"
      using that L(1) [of n] L(2) [of n] Suc_Suc_sub [of n] unfolding m by (cases "2 \<le> n") (auto simp: bit_simps w)
  qed
  have 2: "push_bit 2 (0x3FFF AND drop_bit 16 W) = ucast ooblen"
  proof (rule bit_eqI)
    fix n
    show "bit (push_bit 2 (0x3FFF AND drop_bit 16 W)) n = bit (ucast ooblen :: u32) n" if "possible_bit TYPE(u32) n"
      using that O(1) [of n] O(2) [of n] Suc_Suc_sub [of n] unfolding m by (cases "2 \<le> n") (auto simp: bit_simps w)
  qed
  have hi: "\<not> bit W 31" "\<not> bit W 30" using O(1) [of 17] O(1) [of 16] unfolding w by auto
  have 3: "W AND RX_SIZE_OOB_OVERFLOW_ERR = 0" "W AND RX_SIZE_DAT_OVERFLOW_ERR = 0"
  proof -
    have "RX_SIZE_OOB_OVERFLOW_ERR = push_bit 31 1" "RX_SIZE_DAT_OVERFLOW_ERR = push_bit 30 1"
      by (simp_all add: RX_SIZE_OOB_OVERFLOW_ERR_def RX_SIZE_DAT_OVERFLOW_ERR_def)
    then show "W AND RX_SIZE_OOB_OVERFLOW_ERR = 0" "W AND RX_SIZE_DAT_OVERFLOW_ERR = 0"
      using hi bit_iff_and_push_bit_not_eq_0 [of W 31] bit_iff_and_push_bit_not_eq_0 [of W 30] by (simp_all del: push_bit_of_1)
  qed
  show ?thesis unfolding rx_sizes_def W using 1 2 3 by simp
qed

theorem zap_sizes_roundtrip_witness: "rx_sizes False (ucast (tx_sizes False 0x1238 0x10)) = (0x1238, 0x10, 0)"
proof -
  have "unat (0x1238 :: u64) = 0x1238" "unat (0x10 :: u64) = 0x10" by simp_all
  then show ?thesis using zap_sizes_roundtrip [of "0x1238" "0x10"] by simp
qed

section \<open>The memory of the interfaces\<close>

definition page_up :: "nat \<Rightarrow> nat" where
  "page_up n = (n + 4095) div 4096 * 4096"

lemma page_up_bounds: "n \<le> page_up n" "page_up n \<le> n + 4095" "m \<le> n \<Longrightarrow> page_up m \<le> page_up n" "4096 dvd page_up n"
  "4096 dvd n \<Longrightarrow> page_up n = n"
proof -
  show "n \<le> page_up n" "page_up n \<le> n + 4095" unfolding page_up_def by linarith+
  show "m \<le> n \<Longrightarrow> page_up m \<le> page_up n" unfolding page_up_def by (intro mult_le_mono1 div_le_mono) simp
  show "4096 dvd page_up n" by (simp add: page_up_def)
  show "4096 dvd n \<Longrightarrow> page_up n = n" by (auto simp: page_up_def)
qed

lemma and_not_mask: "(x :: u64) AND NOT (mask k) = push_bit k (drop_bit k x)"
proof (rule bit_eqI)
  fix n
  show "bit (x AND NOT (mask k)) n = bit (push_bit k (drop_bit k x)) n" by (auto simp: bit_simps not_less)
qed

lemma PAGE_ALIGN_value:
  assumes "unat (x :: u64) + 4095 < 2 ^ 64"
  shows "unat (PAGE_ALIGN x) = page_up (unat x)"
proof -
  have u: "unat (x + 4095) = unat x + 4095" using unat_plus_small [of x 4095] assms by simp
  have m: "(4095 :: u64) = mask 12" by (simp add: mask_eq_exp_minus_1)
  have "unat (PAGE_ALIGN x) = take_bit 64 (push_bit 12 (drop_bit 12 (unat (x + 4095))))"
    unfolding PAGE_ALIGN_def and_not_mask [of "x + 4095" 12, folded m]
    using assms by (simp add: unsigned_push_bit_eq unsigned_drop_bit_eq u take_bit_nat_eq_self)
  also have "push_bit 12 (drop_bit 12 (unat (x + 4095))) = page_up (unat x)"
    unfolding u by (simp add: push_bit_eq_mult drop_bit_eq_div page_up_def)
  finally show ?thesis using page_up_bounds(2) [of "unat x"] assms by (simp add: take_bit_nat_eq_self)
qed

definition region :: "u64 \<Rightarrow> u64 \<Rightarrow> nat set" where
  "region a s = {unat a ..< unat a + unat s}"

text \<open>Cutting a range into \<open>n\<close> parts: where part \<open>i\<close> begins.\<close>

definition cut_at :: "nat \<Rightarrow> nat \<Rightarrow> nat \<Rightarrow> nat \<Rightarrow> nat \<Rightarrow> nat" where
  "cut_at base whole q n i = (if i < n then page_up (base + q * i) else base + whole)"

lemma cut_at_mono:
  assumes "4096 \<le> q" "q * n \<le> whole" "i \<le> j" "j \<le> n"
  shows "cut_at base whole q n i \<le> cut_at base whole q n j"
proof (cases "j < n")
  case True
  then show ?thesis using assms(3) by (auto simp: cut_at_def intro!: page_up_bounds(3))
next
  case False
  have "page_up (base + q * i) \<le> base + whole" if "i < n"
  proof -
    have "q * i + q \<le> q * n" using that mult_le_mono2 [of "Suc i" n q] by simp
    then show ?thesis using page_up_bounds(2) [of "base + q * i"] assms(1,2) by linarith
  qed
  then show ?thesis using False by (simp add: cut_at_def)
qed

definition cuttable :: "u64 \<Rightarrow> u64 \<Rightarrow> u64 \<Rightarrow> nat \<Rightarrow> bool" where
  "cuttable base whole q n \<longleftrightarrow> 4096 \<le> unat q \<and> unat q * n \<le> unat whole \<and> 4096 dvd unat base \<and>
     unat base + unat whole + 4096 < 2 ^ 64"

lemma cut_begin:
  assumes "cuttable base whole q n" "i < n"
  shows "unat (PAGE_ALIGN (base + q * of_nat i)) = cut_at (unat base) (unat whole) (unat q) n i"
proof -
  have "unat q * i \<le> unat q * n" using assms by simp
  then have b: "unat base + unat q * i + 4096 < 2 ^ 64" using assms(1) unfolding cuttable_def by linarith
  have "base + q * of_nat i = base + of_nat (unat q * i)" by simp
  then have "unat (base + q * of_nat i) = unat base + unat q * i" using unat_plus_small [of base "unat q * i"] b by simp
  then show ?thesis using assms b PAGE_ALIGN_value [of "base + q * of_nat i"] by (simp add: cut_at_def)
qed

lemma cut_end: "cuttable base whole q n \<Longrightarrow> unat (base + whole) = cut_at (unat base) (unat whole) (unat q) n n"
  using unat_plus_small [of base "unat whole"] by (simp add: cut_at_def cuttable_def)

lemma cut_mono:
  assumes "cuttable base whole q n" "i \<le> j" "j \<le> n"
  shows "cut_at (unat base) (unat whole) (unat q) n i \<le> cut_at (unat base) (unat whole) (unat q) n j"
  using assms by (intro cut_at_mono) (simp_all add: cuttable_def)

lemma cut_part:
  assumes c: "cuttable base whole q n" and i: "i < n" and a: "a = PAGE_ALIGN (base + q * of_nat i)"
    and s: "s = (if i + 1 < n then PAGE_ALIGN (base + q * of_nat (i + 1)) - a else base + whole - a)"
  shows "region a s = {cut_at (unat base) (unat whole) (unat q) n i ..< cut_at (unat base) (unat whole) (unat q) n (i + 1)}"
proof -
  let ?e = "if i + 1 < n then PAGE_ALIGN (base + q * of_nat (i + 1)) else base + whole" and ?c = "cut_at (unat base) (unat whole) (unat q) n"
  have e: "unat ?e = ?c (i + 1)"
  proof (cases "i + 1 < n")
    case True
    then show ?thesis using cut_begin [OF c True] by simp
  next
    case False
    then have "i + 1 = n" using i by simp
    then show ?thesis using cut_end [OF c] by simp
  qed
  have le: "?c i \<le> ?c (i + 1)" using i by (intro cut_mono [OF c]) simp_all
  have "s = ?e - a" using s by simp
  then have "unat s = ?c (i + 1) - ?c i" using e le cut_begin [OF c i] by (simp add: unat_sub word_le_nat_alt a)
  then show ?thesis using le cut_begin [OF c i] by (simp add: region_def a)
qed

lemma cut_inside:
  assumes c: "cuttable base whole q n" and i: "i < n"
  shows "{cut_at (unat base) (unat whole) (unat q) n i ..< cut_at (unat base) (unat whole) (unat q) n (i + 1)} \<subseteq> region base whole"
proof -
  let ?c = "cut_at (unat base) (unat whole) (unat q) n"
  have "?c 0 = unat base" using c i page_up_bounds(5) by (simp add: cut_at_def cuttable_def)
  moreover have "?c 0 \<le> ?c i" "?c (i + 1) \<le> ?c n" using i by (intro cut_mono [OF c]; simp)+
  ultimately show ?thesis by (auto simp: region_def cut_at_def)
qed

lemma cut_disjoint:
  assumes c: "cuttable base whole q n" and "i < n" "j < n" "i \<noteq> j"
  shows "{cut_at (unat base) (unat whole) (unat q) n i ..< cut_at (unat base) (unat whole) (unat q) n (i + 1)} \<inter> {cut_at (unat base) (unat whole) (unat q) n j ..< cut_at (unat base) (unat whole) (unat q) n (j + 1)} = {}"
proof -
  let ?c = "cut_at (unat base) (unat whole) (unat q) n"
  have "i < j \<Longrightarrow> ?c (i + 1) \<le> ?c j" "j < i \<Longrightarrow> ?c (j + 1) \<le> ?c i" using assms by (intro cut_mono [OF c]; simp)+
  then show ?thesis using assms(4) by (cases "i < j") fastforce+
qed

text \<open>With a single interface the last size is the whole pool.\<close>

lemma cut_size:
  assumes c: "cuttable base whole q n" and a: "a = PAGE_ALIGN (base + q * of_nat k)" and k: "k < n"
  shows "(if n = 1 then whole else if k + 1 < n then PAGE_ALIGN (base + q * of_nat (k + 1)) - a else base + whole - a) =
    (if k + 1 < n then PAGE_ALIGN (base + q * of_nat (k + 1)) - a else base + whole - a)"
proof -
  have "PAGE_ALIGN base = base" if "n = 1"
    using cut_begin [OF c, of 0] c that page_up_bounds(5) by (simp add: cut_at_def cuttable_def word_unat_eq_iff)
  then show ?thesis using a k by auto
qed

lemma pool_paddrs_nth:
  "i < length ifs \<Longrightarrow> i < n \<Longrightarrow> pool_paddrs n d ifs ! i =
    (ifs ! i)\<lparr>rx_paddr := PAGE_ALIGN (rx_pool_paddr d + rx_pool_size d div of_nat n * of_nat i),
      tx_paddr := PAGE_ALIGN (tx_pool_paddr d + rx_pool_size d div of_nat n * of_nat i)\<rparr>"
  "length (pool_paddrs n d ifs) = length ifs"
  by (simp_all add: pool_paddrs_def Let_def)

lemma pool_sizes_nth:
  "i < length ifs \<Longrightarrow> i < n \<Longrightarrow> pool_sizes n d ifs ! i = (ifs ! i)
    \<lparr>rx_size := (if n = 1 then rx_pool_size d else if i + 1 < n then rx_paddr (ifs ! (i + 1)) - rx_paddr (ifs ! i)
        else rx_pool_paddr d + rx_pool_size d - rx_paddr (ifs ! i)),
     tx_size := (if n = 1 then tx_pool_size d else if i + 1 < n then tx_paddr (ifs ! (i + 1)) - tx_paddr (ifs ! i)
        else tx_pool_paddr d + tx_pool_size d - tx_paddr (ifs ! i))\<rparr>"
  by (auto simp: pool_sizes_def)

text \<open>What \<open>setup_multiple_pools\<close> assigns to interface \<open>i\<close>.\<close>

lemma setup_assigns:
  assumes "setup_multiple_pools n d = Some d'" "nth_opt (interface d') i = Some g" "i < n"
  shows "rx_paddr g = PAGE_ALIGN (rx_pool_paddr d + rx_pool_size d div of_nat n * of_nat i)"
    "tx_paddr g = PAGE_ALIGN (tx_pool_paddr d + rx_pool_size d div of_nat n * of_nat i)"
    "rx_size g = (if n = 1 then rx_pool_size d else if i + 1 < n then
       PAGE_ALIGN (rx_pool_paddr d + rx_pool_size d div of_nat n * of_nat (i + 1)) - rx_paddr g
       else rx_pool_paddr d + rx_pool_size d - rx_paddr g)"
    "tx_size g = (if n = 1 then tx_pool_size d else if i + 1 < n then
       PAGE_ALIGN (tx_pool_paddr d + rx_pool_size d div of_nat n * of_nat (i + 1)) - tx_paddr g
       else tx_pool_paddr d + tx_pool_size d - tx_paddr g)"
proof -
  obtain ifs where ifs: "interface d = Some ifs" "n \<le> length ifs" "interface d' = Some (pool_sizes n d (pool_paddrs n d ifs))"
    using assms(1) by (auto simp: setup_multiple_pools_def elim!: option_bindE split: if_split_asm)
  have l: "i < length ifs" "0 < length ifs" "i + 1 < n \<Longrightarrow> i + 1 < length ifs" using assms(3) ifs(2) by auto
  have "g = pool_sizes n d (pool_paddrs n d ifs) ! i" using assms(2) ifs(3) by (auto simp: nth_opt_def split: if_split_asm)
  then show "rx_paddr g = PAGE_ALIGN (rx_pool_paddr d + rx_pool_size d div of_nat n * of_nat i)"
    "tx_paddr g = PAGE_ALIGN (tx_pool_paddr d + rx_pool_size d div of_nat n * of_nat i)"
    "rx_size g = (if n = 1 then rx_pool_size d else if i + 1 < n then
       PAGE_ALIGN (rx_pool_paddr d + rx_pool_size d div of_nat n * of_nat (i + 1)) - rx_paddr g
       else rx_pool_paddr d + rx_pool_size d - rx_paddr g)"
    "tx_size g = (if n = 1 then tx_pool_size d else if i + 1 < n then
       PAGE_ALIGN (tx_pool_paddr d + rx_pool_size d div of_nat n * of_nat (i + 1)) - tx_paddr g
       else tx_pool_paddr d + tx_pool_size d - tx_paddr g)"
    using assms(3) ifs(2) l by (auto simp: pool_sizes_nth pool_paddrs_nth)
qed


text \<open>Two interfaces with 1 MB each way.\<close>

definition sample_two :: zap_dev where
  "sample_two = (zap_devp sample_zap)\<lparr>rx_pool_paddr := 0x10000000, rx_pool_size := 0x100000, tx_pool_paddr := 0x10100000,
     tx_pool_size := 0x100000, interface := Some [sample_if, sample_if]\<rparr>"


text \<open>With a transmit pool that is too small for the receive step, an interface gets transmit memory
  behind the pool.\<close>

lemma tx_region_overruns:
  assumes "setup_multiple_pools n d = Some d'" "nth_opt (interface d') i = Some g" "i < n"
    and "unat (tx_pool_paddr d) + unat (rx_pool_size d div of_nat n) * i + 4096 < 2 ^ 64"
    and "unat (tx_pool_size d) < unat (rx_pool_size d div of_nat n) * i"
  shows "unat (tx_pool_paddr d) + unat (tx_pool_size d) < unat (tx_paddr g)"
proof -
  let ?q = "rx_pool_size d div of_nat n"
  have "tx_pool_paddr d + ?q * of_nat i = tx_pool_paddr d + of_nat (unat ?q * i)" by simp
  then have u: "unat (tx_pool_paddr d + ?q * of_nat i) = unat (tx_pool_paddr d) + unat ?q * i"
    using unat_plus_small [of "tx_pool_paddr d" "unat ?q * i"] assms(4) by simp
  then have "unat (tx_paddr g) = page_up (unat (tx_pool_paddr d) + unat ?q * i)"
    using setup_assigns(2) [OF assms(1-3)] PAGE_ALIGN_value [of "tx_pool_paddr d + ?q * of_nat i"] assms(4) by simp
  then show ?thesis using page_up_bounds(1) [of "unat (tx_pool_paddr d) + unat ?q * i"] assms(5) by linarith
qed

section \<open>Stopping the engine\<close>

lemma flush_busy_reclaims:
  assumes p: "pool_inv p" and s: "packet_size p \<noteq> 0" "unat (packet_size p) + 4096 \<le> unat (pool_size p)" and a: "\<And>n. alloc n"
  shows "\<exists>p'. flush_busy alloc p = Some (0, p') \<and> pool_inv p' \<and> used_bufs p' = {} \<and> fifo_bufs p' = [] \<and>
    free_bufs p' = packet p' ` {..<unat (num_packets p')} \<and> buf_paddr p' = buf_paddr p \<and> packet_size p' = packet_size p"
proof -
  have "pool_region p" using p s(2) by (simp add: pool_region_def pool_inv_def pool_geom_def)
  then obtain p' where p': "pool_flush alloc p = Some (0, p')" "pool_inv p'" "buf_paddr p' = buf_paddr p" "packet_size p' = packet_size p"
    "freelist p' = rev [0..<unat (num_packets p')]" "fifolist p' = []" "usedlist p' = []"
    using resize_ok [of p "packet_size p" alloc "num_packets p" 1] s a unfolding pool_flush_def by (auto simp: unat_gt_0)
  have "pool_busy p' = Some (0, p')" using p'(2,7) by (simp add: pool_busy_def spin_lock_def pool_inv_def)
  moreover have "set (freelist p') = {..<unat (num_packets p')}" unfolding p'(5) by auto
  moreover have "used_bufs p' = {}" "fifo_bufs p' = []"
    using p'(6,7) by (simp_all add: used_bufs_def fifo_bufs_def fifo_view_def split: option.splits)
  ultimately show ?thesis using p' by (auto simp: flush_busy_def free_bufs_def)
qed

lemma stale_write_refused:
  assumes g: "zif z i = Some g" and f: "zap_device_num f = i" "is_tx_device f"
    and p: "pool_inv (tx_pool g)" "buf_paddr (tx_pool g) + offset \<notin> used_bufs (tx_pool g)"
      "\<not> behind_last (tx_pool g) (buf_paddr (tx_pool g) + offset)"
    and l: "len = - 1 \<or> len \<le> tx_payload_max_size g \<and> ooblen = 0"
  shows "\<exists>z'. zap_write F True (Some (offset, len, ooblen)) f 24 z = Some (- EINVAL, z')"
proof -
  have b: "pool_offset2pbuf (tx_pool g) offset = buf_paddr (tx_pool g) + offset"
    using inv_ppackets [OF p(1)] by (simp add: pool_offset2pbuf_def)
  note r = release_outside [OF p(1,2), of len ooblen 0]
  show ?thesis
  proof (cases "len = - 1")
    case True
    then show ?thesis using g f b r p(3) by (simp add: zap_write_def EINVAL_def)
  next
    case False
    then have "\<not> tx_payload_max_size g < len" "ooblen = 0" using l by auto
    then show ?thesis using False g f b r p(3) by (simp add: zap_write_def EINVAL_def)
  qed
qed

text \<open>
  C33: stopping the engine takes all buffers back.  If the allocations succeed, \<open>dma_stop_tx\<close> turns the
  transmitter off and makes every buffer free, whoever held it; a program that still writes the offset
  of a buffer it held before is refused with \<open>-EINVAL\<close>, to send it as well as to free it.
\<close>

theorem zap_stop_reclaims:
  assumes z: "zif z i = Some g" "dif z i = Some d" "dma_sem z = Some True"
    and p: "pool_inv (tx_pool g)" "packet_size (tx_pool g) \<noteq> 0" "unat (packet_size (tx_pool g)) + 4096 \<le> unat (pool_size (tx_pool g))"
    and a: "\<And>n. alloc n" and f: "zap_device_num f = i" "is_tx_device f"
    and l: "len = - 1 \<or> len \<le> tx_payload_max_size g \<and> ooblen = 0"
  shows "\<exists>z' g'. dma_stop_tx F False alloc i z = Some (0, z') \<and> zif z' i = Some g' \<and> pool_inv (tx_pool g') \<and>
    map_option tx_on (dif z' i) = Some False \<and> dma_sem z' = Some True \<and>
    free_bufs (tx_pool g') = packet (tx_pool g') ` {..<unat (num_packets (tx_pool g'))} \<and>
    (\<not> behind_last (tx_pool g') (buf_paddr (tx_pool g) + offset) \<longrightarrow>
      (\<exists>z''. zap_write F True (Some (offset, len, ooblen)) f 24 z' = Some (- EINVAL, z'')))"
proof -
  obtain p' where p': "flush_busy alloc (tx_pool g) = Some (0, p')" "pool_inv p'" "used_bufs p' = {}"
    "free_bufs p' = packet p' ` {..<unat (num_packets p')}" "buf_paddr p' = buf_paddr (tx_pool g)"
    using flush_busy_reclaims [OF p, of alloc] a by blast
  let ?z1 = "upd_zif i (\<lambda>f. f\<lparr>tx_pool := p'\<rparr>) (ZAP_REG_WRITE F i ZAP_REG_ICR ICR_CLR_TX_FREE_RDY
    (ZAP_REG_WRITE_MASKED F i ZAP_REG_CSR 0 CSR_TXEN (upd_dif i (\<lambda>d. d\<lparr>tx_on := False\<rparr>) (z\<lparr>dma_sem := Some False\<rparr>))))"
  let ?z' = "?z1\<lparr>dma_sem := Some True\<rparr>"
  have 1: "dma_stop_tx F False alloc i z = Some (0, ?z')"
    using z p'(1) by (simp add: dma_stop_tx_def with_dma_sem_def dma_stop_tx_unsafe_def dma_ll_stop_tx_def)
  have g': "zif ?z' i = Some (g\<lparr>tx_pool := p'\<rparr>)" "map_option tx_on (dif ?z' i) = Some False" using z by simp_all
  have "\<exists>z''. zap_write F True (Some (offset, len, ooblen)) f 24 ?z' = Some (- EINVAL, z'')"
    if "\<not> behind_last p' (buf_paddr (tx_pool g) + offset)"
    by (rule stale_write_refused [OF g'(1) f]) (use p'(2,3,5) that l in simp_all)
  with 1 g' p'(2,4) show ?thesis by fastforce
qed

theorem zap_stop_reclaims_witness:
  "\<exists>z' g'. dma_stop_tx sample_fpga False (\<lambda>_. True) 0 sample_zap = Some (0, z') \<and> zif z' 0 = Some g' \<and>
    free_bufs (tx_pool g') = packet (tx_pool g') ` {..<unat (num_packets (tx_pool g'))}"
proof -
  have s: "packet_size sample_pool = 10" "pool_size sample_pool = 8192" by (simp_all add: sample_pool_def sample_region_def)
  have d: "dma_sem sample_zap = Some True" by (simp add: sample_zap_def)
  show ?thesis
    using zap_stop_reclaims [OF sample_zap_if d, of "\<lambda>_. True" sample_tx_node "- 1" 0 sample_fpga 0] s sample_pool_inv sample_nodes
    by (auto simp: sample_if_pools)
qed

section \<open>Exclusive use\<close>

lemma update_params_frame [simp]:
  "zif (dma_ll_update_fpga_parameters F z) j = zif z j" "dif (dma_ll_update_fpga_parameters F z) j = dif z j"
  "dev_sem (zap_devp (dma_ll_update_fpga_parameters F z)) = dev_sem (zap_devp z)"
  "interface (zap_devp (dma_ll_update_fpga_parameters F z)) = interface (zap_devp z)"
  by (simp_all add: dma_ll_update_fpga_parameters_def case_prod_unfold Let_def reg_read_eq zif_def dif_def ZAP_REG_WRITE_def
      VSOC_ZAP_REG_WRITE_def)

lemma setup_keeps:
  assumes "setup_multiple_pools n d = Some d'"
  shows "map_option (\<lambda>g. (in_use_rx g, in_use_tx g, rx_pool g, tx_pool g)) (nth_opt (interface d') i) =
    map_option (\<lambda>g. (in_use_rx g, in_use_tx g, rx_pool g, tx_pool g)) (nth_opt (interface d) i)"
  using assms by (auto simp: setup_multiple_pools_def pool_sizes_def pool_paddrs_def nth_opt_def Let_def elim!: option_bindE
      split: if_split_asm)

text \<open>
  A transmit node has one user.  While its semaphore is taken, a further open for writing does not
  succeed, and the pools and semaphores of all interfaces stay as they are, so the packets of the first user
  are safe.
\<close>

theorem zap_open_exclusive:
  assumes "zif z (zap_device_num f) = Some g" "in_use_tx g = 0" "is_tx_device f" "\<not> zf_rdonly f" "\<not> intr"
    and "zap_open F intr alloc f z = Some (r, z')"
  shows "(r = - EBUSY \<or> r = - ENXIO) \<and>
    map_option (\<lambda>g. (in_use_rx g, in_use_tx g, rx_pool g, tx_pool g)) (zif z' j) =
    map_option (\<lambda>g. (in_use_rx g, in_use_tx g, rx_pool g, tx_pool g)) (zif z j)"
proof -
  let ?i = "zap_device_num f" and ?z = "dma_ll_update_fpga_parameters F z"
  let ?n = "num_interfaces (fpga_params (zap_devp ?z))"
  show ?thesis
  proof (cases "?n \<le> int ?i")
    case True
    then have e: "z' = ?z" "r = - ENXIO" using assms(6) by (simp_all add: zap_open_def Let_def)
    show ?thesis unfolding e by simp
  next
    case False
    let ?z1 = "?z\<lparr>zap_devp := (zap_devp ?z)\<lparr>dev_sem := False\<rparr>\<rparr>"
    have "\<exists>d g'. setup_multiple_pools (nat ?n) (zap_devp ?z1) = Some d \<and> nth_opt (interface d) ?i = Some g' \<and> in_use_tx g' = 0 \<and>
      r = - EBUSY \<and> z' = ?z1\<lparr>zap_devp := d\<lparr>dev_sem := True\<rparr>\<rparr>"
    proof -
      from assms(4-6) False obtain d where d: "setup_multiple_pools (nat ?n) (zap_devp ?z1) = Some d"
        by (auto simp: zap_open_def Let_def with_dev_sem_def elim!: option_bindE split: if_split_asm)
      have "zif ?z1 ?i = Some g" using assms(1) by simp
      then have "nth_opt (interface (zap_devp ?z1)) ?i = Some g" unfolding zif_def .
      then obtain g' where g': "nth_opt (interface d) ?i = Some g'" "in_use_tx g' = 0"
        using setup_keeps [OF d, of ?i] assms(2) by auto
      then have "open_tx alloc ?i (?z1\<lparr>zap_devp := d\<rparr>) = Some (- EBUSY, ?z1\<lparr>zap_devp := d\<rparr>)"
        by (simp add: open_tx_def zif_def)
      then show ?thesis
        using assms(3-6) False d g' by (auto simp: zap_open_def Let_def with_dev_sem_def EBUSY_def split: if_split_asm)
    qed
    then obtain d where d: "setup_multiple_pools (nat ?n) (zap_devp ?z1) = Some d" "r = - EBUSY" "z' = ?z1\<lparr>zap_devp := d\<lparr>dev_sem := True\<rparr>\<rparr>"
      by blast
    then show ?thesis using setup_keeps [OF d(1), of j] by (simp add: zif_def)
  qed
qed

theorem zap_open_exclusive_witness:
  "\<exists>r z'. zap_open sample_fpga False (\<lambda>_. True) sample_tx_node sample_zap = Some (r, z') \<and> r = - EBUSY"
proof -
  have p: "dma_ll_update_fpga_parameters sample_fpga sample_zap = sample_zap"
    by (simp add: dma_ll_update_fpga_parameters_def sample_zap_def)
  have n: "num_interfaces (fpga_params (zap_devp sample_zap)) = 1" "dev_sem (zap_devp sample_zap)"
    "interface (zap_devp sample_zap) = Some [sample_if]" by (simp_all add: sample_zap_def)
  have u: "in_use_tx sample_if = 0" "\<not> zf_rdonly sample_tx_node" by (simp_all add: sample_if_def sample_tx_node_def)
  obtain r z' where o: "zap_open sample_fpga False (\<lambda>_. True) sample_tx_node sample_zap = Some (r, z')"
    using n u sample_nodes
    by (simp add: zap_open_def p with_dev_sem_def setup_multiple_pools_def open_tx_def zif_def nth_opt_def pool_sizes_def pool_paddrs_def
        EBUSY_def Let_def)
  have "r \<noteq> - ENXIO" using o n u sample_nodes
    by (auto simp: zap_open_def p with_dev_sem_def setup_multiple_pools_def open_tx_def zif_def nth_opt_def pool_sizes_def pool_paddrs_def
        EBUSY_def ENXIO_def Let_def)
  then show ?thesis using zap_open_exclusive [OF _ u(1) sample_nodes(4) u(2) _ o] sample_nodes sample_zap_if(1) o by auto
qed

text \<open>Closing a file that was opened read-only gives the semaphore back although the open had not taken
  it: a second user is then let in.\<close>

lemma release_gives_back:
  assumes "zap_release F it ir False inflight alloc f z = Some (0, z')" "is_tx_device f" "zif z (zap_device_num f) = Some g"
    "dma_tx_is_on (zap_device_num f) z = Some False" "dma_rx_is_on (zap_device_num f) z = Some False"
  shows "\<exists>g'. zif z' (zap_device_num f) = Some g' \<and> in_use_tx g' = in_use_tx g + 1"
  using assms by (auto simp: zap_release_def with_dev_sem_def Let_def ENXIO_def zif_def upd_zif_def nth_upd_opt elim!: option_bindE
      split: if_split_asm)

end
