(* ===== verification/Events.thy ===== *)
theory Events
  imports Prelude
begin

text \<open>
  The events driver (\<open>recipes-kernel/iv-events/src/events.c\<close>).  Each open file has a word of pending
  events, a mask of the events it waits for and a flag to wait for all of them.  The interrupt
  handler distributes the pending word of the device to all open files and wakes those whose request
  is met; a read hands the requested events over and clears them.

  An open file is a key with its record, newest first, as on \<open>filelist\<close>.  Writes to the device
  registers are logged; the value of a register read is an argument.  \<open>disable_irq\<close> nests, so the
  interrupt is on when the depth is 0.  A signal during \<open>down_interruptible\<close>, the success of a
  user copy and of an allocation are arguments.  \<open>None\<close> is a call that does not return.
\<close>

section \<open>State\<close>

definition EVENTS_MASK_REG :: nat where "EVENTS_MASK_REG = 0"
definition EVENTS_PENDING_REG :: nat where "EVENTS_PENDING_REG = 1"
definition EVENTS_MASK_EN_REG :: nat where "EVENTS_MASK_EN_REG = 2"

record events_file =
  ef_pending :: u32
  ef_pending_mask :: u32
  ef_all_events :: u32
  ef_wakes :: nat

record events_dev =
  ev_sem :: bool
  ev_irq_depth :: nat
  ev_opened :: int
  ev_filelist :: "(nat \<times> events_file) list"
  ev_writes :: "(nat \<times> u32) list"
  ev_scratch :: u64

definition are_requested_events_pending :: "events_file \<Rightarrow> bool" where
  "are_requested_events_pending f \<longleftrightarrow>
     ef_all_events f \<noteq> 0 \<and> ef_pending f AND ef_pending_mask f = ef_pending_mask f \<or>
     ef_all_events f = 0 \<and> ef_pending f AND ef_pending_mask f \<noteq> 0"

definition reg_write :: "nat \<Rightarrow> u32 \<Rightarrow> events_dev \<Rightarrow> events_dev" where
  "reg_write r v d = d\<lparr>ev_writes := ev_writes d @ [(r, v)]\<rparr>"

text \<open>\<open>down_interruptible\<close>: taken, interrupted, or blocked for ever.\<close>

definition down_interruptible :: "bool \<Rightarrow> events_dev \<Rightarrow> (bool \<times> events_dev) option" where
  "down_interruptible intr d =
     (if intr then Some (False, d) else if ev_sem d then Some (True, d\<lparr>ev_sem := False\<rparr>) else None)"

definition up :: "events_dev \<Rightarrow> events_dev" where
  "up d = d\<lparr>ev_sem := True\<rparr>"

definition disable_irq :: "events_dev \<Rightarrow> events_dev" where
  "disable_irq d = d\<lparr>ev_irq_depth := ev_irq_depth d + 1\<rparr>"

definition enable_irq :: "events_dev \<Rightarrow> events_dev" where
  "enable_irq d = d\<lparr>ev_irq_depth := ev_irq_depth d - 1\<rparr>"

definition the_file :: "events_dev \<Rightarrow> nat \<Rightarrow> events_file option" where
  "the_file d k = map_of (ev_filelist d) k"

definition set_file :: "nat \<Rightarrow> events_file \<Rightarrow> events_dev \<Rightarrow> events_dev" where
  "set_file k f d = d\<lparr>ev_filelist := map (\<lambda>(k', g). (k', if k' = k then f else g)) (ev_filelist d)\<rparr>"

section \<open>Interrupt side\<close>

definition wake_file :: "int \<Rightarrow> events_file \<Rightarrow> events_file" where
  "wake_file event f =
     (let f = f\<lparr>ef_pending := ef_pending f OR push_bit (nat event) 1\<rparr> in
      if are_requested_events_pending f then f\<lparr>ef_wakes := ef_wakes f + 1\<rparr> else f)"

definition events_wake_up :: "events_dev \<Rightarrow> int \<Rightarrow> events_dev" where
  "events_wake_up d event = d\<lparr>ev_filelist := map (\<lambda>(k, f). (k, wake_file event f)) (ev_filelist d)\<rparr>"

text \<open>\<open>for ( i = 0; i < 31; i++ ) { if ( events & 1 ) events_wake_up(dev, i); events >>= 1; }\<close>, from
  \<open>i\<close> with \<open>n\<close> rounds to go.\<close>

fun wake_loop :: "nat \<Rightarrow> int \<Rightarrow> u32 \<Rightarrow> events_dev \<Rightarrow> events_dev" where
  "wake_loop 0 i events d = d"
| "wake_loop (Suc n) i events d =
     wake_loop n (i + 1) (drop_bit 1 events) (if events AND 1 \<noteq> 0 then events_wake_up d i else d)"

definition events_foreach_wake_up :: "u32 \<Rightarrow> events_dev \<Rightarrow> events_dev" where
  "events_foreach_wake_up pending d =
     (let d = wake_loop 31 0 pending d;
          d = reg_write EVENTS_PENDING_REG pending d
      in reg_write EVENTS_MASK_REG 0 d)"

text \<open>\<open>pending\<close> is what the read of the pending register yields.\<close>

definition events_isr :: "u32 \<Rightarrow> events_dev \<Rightarrow> events_dev" where
  "events_isr pending d = events_foreach_wake_up pending d"

definition trigger_set :: "u64 \<Rightarrow> events_dev \<Rightarrow> int \<times> events_dev" where
  "trigger_set val d = (0, wake_loop 31 0 (ucast val) d)"

definition events_get_events :: "u32 \<Rightarrow> u32" where
  "events_get_events pending = pending"

definition levels_get :: "u32 \<Rightarrow> u64" where
  "levels_get pending = ucast (events_get_events pending)"

definition scratch_get :: "events_dev \<Rightarrow> u64" where
  "scratch_get d = ev_scratch d"

definition scratch_set :: "u64 \<Rightarrow> events_dev \<Rightarrow> int \<times> events_dev" where
  "scratch_set val d = (0, d\<lparr>ev_scratch := val\<rparr>)"

section \<open>File operations\<close>

text \<open>On allocation failure the interrupt stays disabled.  The key \<open>k\<close> is the new object.\<close>

definition events_open :: "bool \<Rightarrow> bool \<Rightarrow> nat \<Rightarrow> events_dev \<Rightarrow> (int \<times> events_dev) option" where
  "events_open intr alloc k d = do {
     (ok, d) \<leftarrow> down_interruptible intr d;
     if \<not> ok then Some (- ERESTARTSYS, d)
     else let d = disable_irq d in
       if \<not> alloc then Some (- ENOMEM, up d)
       else let f = \<lparr>ef_pending = 0, ef_pending_mask = 0, ef_all_events = 0, ef_wakes = 0\<rparr>;
                d = d\<lparr>ev_filelist := (k, f) # ev_filelist d\<rparr>;
                d = enable_irq d;
                d = d\<lparr>ev_opened := ev_opened d + 1\<rparr>
            in Some (0, up d) }"

definition events_release :: "bool \<Rightarrow> nat \<Rightarrow> events_dev \<Rightarrow> (int \<times> events_dev) option" where
  "events_release intr k d = do {
     (ok, d) \<leftarrow> down_interruptible intr d;
     if \<not> ok then Some (- ERESTARTSYS, d)
     else let d = disable_irq d;
              d = d\<lparr>ev_filelist := filter (\<lambda>(k', _). k' \<noteq> k) (ev_filelist d)\<rparr>;
              d = enable_irq d;
              d = d\<lparr>ev_opened := ev_opened d - 1\<rparr>
          in if ev_opened d < 0 then None else Some (0, up d) }"

definition EVENTS_IOC_MAGIC :: u32 where "EVENTS_IOC_MAGIC = 0x65"
definition EVENTS_IOC_MAXNR :: u32 where "EVENTS_IOC_MAXNR = 0"

definition EVENTS_IOC_R_INSTANCE_COUNT :: u32 where
  "EVENTS_IOC_R_INSTANCE_COUNT = IOR EVENTS_IOC_MAGIC 0"

text \<open>The value put to user space, if any, is part of the result.\<close>

definition events_ioctl :: "bool \<Rightarrow> (u32 \<Rightarrow> bool) \<Rightarrow> u32 \<Rightarrow> events_dev \<Rightarrow> (int \<times> int option \<times> events_dev) option" where
  "events_ioctl intr access_ok cmd d =
     (if IOC_TYPE cmd \<noteq> EVENTS_IOC_MAGIC then Some (- ENOTTY, None, d)
      else if EVENTS_IOC_MAXNR < IOC_NR cmd then Some (- ENOTTY, None, d)
      else if (IOC_DIR cmd AND 2 \<noteq> 0 \<or> IOC_DIR cmd AND 1 \<noteq> 0) \<and> \<not> access_ok (IOC_SIZE cmd)
      then Some (- EFAULT, None, d)
      else do {
        (ok, d) \<leftarrow> down_interruptible intr d;
        if \<not> ok then Some (- ERESTARTSYS, None, d)
        else if cmd = EVENTS_IOC_R_INSTANCE_COUNT then Some (0, Some (ev_opened d), up d)
        else Some (- ENOTTY, None, up d) })"

text \<open>The wait of \<open>events_read\<close> ends by a signal, or because the requested events were pending, with
  the device as it is when the semaphore is about to be taken again.\<close>

datatype ev_wait = Ev_Interrupted | Ev_Ready events_dev

fun clear_loop :: "nat \<Rightarrow> nat \<Rightarrow> u32 \<Rightarrow> u32 \<Rightarrow> u32" where
  "clear_loop 0 i events pending = pending"
| "clear_loop (Suc n) i events pending =
     clear_loop n (i + 1) events
       (if events AND push_bit i 1 \<noteq> 0 then pending AND NOT (push_bit i 1) else pending)"

definition events_read ::
  "bool \<Rightarrow> ev_wait \<Rightarrow> bool \<Rightarrow> bool \<Rightarrow> nat \<Rightarrow> nat \<Rightarrow> events_dev \<Rightarrow> (int \<times> u32 option \<times> events_dev) option"
where
  "events_read intr1 w intr2 copy_ok k count d = do {
     (ok, d) \<leftarrow> down_interruptible intr1 d;
     if \<not> ok then Some (- ERESTARTSYS, None, d)
     else if count \<noteq> 4 then Some (- EFAULT, None, up d)
     else case w of
       Ev_Interrupted \<Rightarrow> Some (- ERESTARTSYS, None, up d)
     | Ev_Ready d \<Rightarrow> do {
         (ok, d) \<leftarrow> down_interruptible intr2 d;
         if \<not> ok then Some (- ERESTARTSYS, None, d)
         else do {
           f \<leftarrow> the_file d k;
           let events = ef_pending f AND ef_pending_mask f;
           let d = set_file k (f\<lparr>ef_pending := clear_loop 32 0 events (ef_pending f)\<rparr>) d;
           if \<not> copy_ok then Some (- EFAULT, None, up d)
           else Some (int count, Some events, up d) } } }"

text \<open>\<open>data\<close> is what \<open>copy_from_user\<close> brings, \<open>None\<close> if it fails.\<close>

definition events_write :: "bool \<Rightarrow> u32 option \<Rightarrow> nat \<Rightarrow> nat \<Rightarrow> events_dev \<Rightarrow> (int \<times> events_dev) option" where
  "events_write intr data k count d = do {
     (ok, d) \<leftarrow> down_interruptible intr d;
     if \<not> ok then Some (- ERESTARTSYS, d)
     else if count \<noteq> 4 then Some (- EFAULT, up d)
     else case data of
       None \<Rightarrow> Some (- EFAULT, up d)
     | Some pending_mask \<Rightarrow> do {
         f \<leftarrow> the_file d k;
         let d = set_file k (f\<lparr>ef_all_events := pending_mask AND 0x80000000,
                   ef_pending_mask := pending_mask AND NOT 0x80000000\<rparr>) d;
         Some (int count, up (reg_write EVENTS_MASK_EN_REG pending_mask d)) } }"

definition events_poll :: "nat \<Rightarrow> events_dev \<Rightarrow> bool option" where
  "events_poll k d = map_option are_requested_events_pending (the_file d k)"

section \<open>Probe and removal\<close>

text \<open>The resources in the order they are taken, and the result of each step as an argument.\<close>

datatype ev_res = Res_Chrdev | Res_Dev | Res_Class | Res_Device | Res_Cdev | Res_Mapping | Res_Debugfs | Res_Irq

record ev_probe_env =
  pr_chrdev :: int
  pr_kmalloc :: bool
  pr_class :: int
  pr_cdev :: int
  pr_irq_prop :: int
  pr_reg0 :: int
  pr_reg1 :: int
  pr_ioremap :: bool
  pr_dbg_dir :: bool
  pr_dbg_levels :: bool
  pr_dbg_trigger :: bool
  pr_dbg_scratch :: bool
  pr_hw_irq :: u32
  pr_gic_node :: bool
  pr_create_of_mapping :: "u32 \<Rightarrow> u32"
  pr_request_irq :: int

text \<open>Without an interrupt controller node, or if the mapping fails (yields 0), the hardware number
  itself is used.\<close>

definition xlate_irq :: "bool \<Rightarrow> (u32 \<Rightarrow> u32) \<Rightarrow> u32 \<Rightarrow> u32" where
  "xlate_irq gic_node create_of_mapping hwirq =
     (if \<not> gic_node then hwirq else let irq = create_of_mapping hwirq in if irq = 0 then hwirq else irq)"

text \<open>What \<open>events_remove\<close> releases, for a device that got as far as the flags say.\<close>

definition events_remove :: "bool \<Rightarrow> u32 \<Rightarrow> bool \<Rightarrow> bool \<Rightarrow> ev_res list" where
  "events_remove allocated irq dbg mapped =
     (if \<not> allocated then []
      else (if irq \<noteq> 0 then [Res_Irq] else []) @ (if dbg then [Res_Debugfs] else []) @
        (if mapped then [Res_Mapping] else []) @ [Res_Device, Res_Class, Res_Cdev, Res_Chrdev, Res_Dev])"

text \<open>The return value, the resources taken, those released again, and the register writes: old events are
  acknowledged as soon as the registers are mapped.\<close>

definition events_probe :: "ev_probe_env \<Rightarrow> int \<times> ev_res list \<times> ev_res list \<times> (nat \<times> u32) list" where
  "events_probe E =
     (let err = pr_chrdev E in
      if err \<noteq> 0 then (err, [], events_remove False 0 False False, []) else
      let t = [Res_Chrdev] in
      if \<not> pr_kmalloc E then (- ENOMEM, t, events_remove False 0 False False, []) else
      let t = t @ [Res_Dev] in
      if pr_class E \<noteq> 0 then (pr_class E, t, events_remove True 0 False False, []) else
      let t = t @ [Res_Class, Res_Device]; err = pr_cdev E in
      if err \<noteq> 0 then (err, t, events_remove True 0 False False, []) else
      let t = t @ [Res_Cdev]; err = pr_irq_prop E in
      if err \<noteq> 0 then (err, t, events_remove True 0 False False, []) else
      if pr_reg0 E \<noteq> 0 then (err, t, events_remove True 0 False False, []) else
      if pr_reg1 E \<noteq> 0 then (err, t, events_remove True 0 False False, []) else
      if \<not> pr_ioremap E then (- ENOMEM, t, events_remove True 0 False False, []) else
      let t = t @ [Res_Mapping]; w = [(EVENTS_PENDING_REG, 0xFFFFFFFF)] in
      if \<not> pr_dbg_dir E then (- ENOMEM, t, events_remove True 0 False True, w) else
      let t = t @ [Res_Debugfs] in
      if \<not> pr_dbg_levels E \<or> \<not> pr_dbg_trigger E \<or> \<not> pr_dbg_scratch E
      then (- ENOMEM, t, events_remove True 0 True True, w) else
      let irq = xlate_irq (pr_gic_node E) (pr_create_of_mapping E) (pr_hw_irq E); err = pr_request_irq E in
      if err \<noteq> 0 then (err, t, events_remove True irq True True, w)
      else (0, t @ [Res_Irq], [], w))"

section \<open>The loops as bit operations\<close>

lemma clear_loop_bit:
  "j < 32 \<Longrightarrow> bit (clear_loop n i e p) j \<longleftrightarrow> bit p j \<and> \<not> (i \<le> j \<and> j < i + n \<and> bit e j)"
proof (induction n arbitrary: i p)
  case (Suc n)
  have "e AND push_bit i 1 \<noteq> 0 \<longleftrightarrow> bit e i" by (simp add: bit_iff_and_push_bit_not_eq_0)
  moreover have "i \<le> j \<and> j < i + Suc n \<longleftrightarrow> j = i \<or> Suc i \<le> j \<and> j < Suc i + n" by auto
  ultimately show ?case using Suc by (auto simp: bit_simps)
qed simp

lemma clear_loop_all: "clear_loop 32 0 e p = p AND NOT e"
  by (rule bit_eqI) (auto simp: clear_loop_bit bit_simps)

text \<open>What the loop does to one file.\<close>

fun file_loop :: "nat \<Rightarrow> nat \<Rightarrow> u32 \<Rightarrow> events_file \<Rightarrow> events_file" where
  "file_loop 0 i e f = f"
| "file_loop (Suc n) i e f = file_loop n (Suc i) (drop_bit 1 e) (if e AND 1 \<noteq> 0 then wake_file (int i) f else f)"

lemma wake_loop_files:
  "wake_loop n (int i) e d = d\<lparr>ev_filelist := map (\<lambda>(k, f). (k, file_loop n i e f)) (ev_filelist d)\<rparr>"
proof (induction n arbitrary: i e d)
  case (Suc n)
  show ?case
    using Suc [of "Suc i" "drop_bit 1 e"] by (simp add: events_wake_up_def add.commute case_prod_unfold comp_def)
qed (simp add: case_prod_unfold)

lemma wake_file_simps [simp]:
  "ef_pending (wake_file i f) = ef_pending f OR push_bit (nat i) 1"
  "ef_pending_mask (wake_file i f) = ef_pending_mask f" "ef_all_events (wake_file i f) = ef_all_events f"
  by (simp_all add: wake_file_def Let_def)

lemma and_one_bit: "(e :: u32) AND 1 \<noteq> 0 \<longleftrightarrow> bit e 0"
  using bit_iff_and_push_bit_not_eq_0 [of e 0] by simp

lemma file_loop_frame [simp]:
  "ef_pending_mask (file_loop n i e f) = ef_pending_mask f" "ef_all_events (file_loop n i e f) = ef_all_events f"
  by (induction n arbitrary: i e f) simp_all

lemma file_loop_bit:
  "j < 32 \<Longrightarrow> bit (ef_pending (file_loop n i e f)) j \<longleftrightarrow> bit (ef_pending f) j \<or> (i \<le> j \<and> j < i + n \<and> bit e (j - i))"
proof (induction n arbitrary: i e f)
  case (Suc n)
  have "i \<le> j \<and> j < i + Suc n \<and> bit e (j - i) \<longleftrightarrow>
      j = i \<and> bit e 0 \<or> Suc i \<le> j \<and> j < Suc i + n \<and> bit (drop_bit 1 e) (j - Suc i)"
    using Suc_diff_Suc [of i j] by (cases "i < j") (auto simp: bit_simps)
  moreover have "bit (ef_pending (if e AND 1 \<noteq> 0 then wake_file (int i) f else f)) j \<longleftrightarrow>
      bit (ef_pending f) j \<or> j = i \<and> bit e 0"
    using Suc.prems by (auto simp: and_one_bit bit_simps)
  ultimately show ?case using Suc by auto
qed auto

lemma file_loop_pending: "ef_pending (file_loop 31 0 e f) = ef_pending f OR take_bit 31 e"
  by (rule bit_eqI) (auto simp: file_loop_bit bit_simps)

lemma requested_mono:
  assumes "are_requested_events_pending f" "ef_pending_mask g = ef_pending_mask f" "ef_all_events g = ef_all_events f"
    and "\<forall>j < 32. bit (ef_pending f) j \<longrightarrow> bit (ef_pending g) j"
  shows "are_requested_events_pending g"
proof -
  have "ef_pending f AND ef_pending_mask f AND NOT (ef_pending g) = 0"
    by (rule bit_eqI) (use assms(4) in \<open>auto simp: bit_simps\<close>)
  then have sub: "ef_pending f AND ef_pending_mask f = ef_pending f AND ef_pending_mask f AND ef_pending g"
    by (auto simp: bit_eq_iff bit_simps)
  show ?thesis
  proof (cases "ef_all_events f = 0")
    case True
    then have "ef_pending f AND ef_pending_mask f \<noteq> 0" using assms(1) by (simp add: are_requested_events_pending_def)
    then have "ef_pending g AND ef_pending_mask f \<noteq> 0" using sub by (metis and.assoc and.commute and_zero_eq)
    then show ?thesis using True assms(2,3) by (simp add: are_requested_events_pending_def)
  next
    case False
    then have "ef_pending f AND ef_pending_mask f = ef_pending_mask f" using assms(1) by (simp add: are_requested_events_pending_def)
    then have "ef_pending g AND ef_pending_mask f = ef_pending_mask f" using sub by (metis and.assoc and.commute)
    then show ?thesis using False assms(2,3) by (simp add: are_requested_events_pending_def)
  qed
qed

lemma take_bit_zero_iff: "take_bit n e = 0 \<longleftrightarrow> (\<forall>j < n. \<not> bit e j)" for e :: u32
  using bit_imp_le_length [of e] by (fastforce simp: bit_eq_iff bit_simps)

lemma take_bit_Suc_zero: "take_bit (Suc n) e = 0 \<longleftrightarrow> \<not> bit e 0 \<and> take_bit n (drop_bit 1 e) = 0" for e :: u32
  unfolding take_bit_zero_iff All_less_Suc2 by (simp add: bit_drop_bit_eq)

lemma file_loop_none: "take_bit n e = 0 \<Longrightarrow> file_loop n i e f = f"
proof (induction n arbitrary: i e f)
  case (Suc n)
  then have "take_bit n (drop_bit 1 e) = 0" "\<not> bit e 0" unfolding take_bit_Suc_zero by auto
  then show ?case using Suc.IH by (simp add: and_one_bit)
qed simp

lemma wakes_logic:
  fixes wf wg wr :: nat
  assumes "wg \<le> wr" "N \<Longrightarrow> wg < wr \<longleftrightarrow> T \<and> R" "wg = wf + (if B \<and> G then 1 else 0)" "G \<Longrightarrow> R"
    and "\<not> T \<Longrightarrow> R = G \<and> wr = wg" "S \<longleftrightarrow> B \<or> T"
  shows "wf \<le> wr \<and> (N \<longrightarrow> (wf < wr \<longleftrightarrow> S \<and> R))"
  using assms by (cases B; cases G; cases T) auto

lemma file_loop_wakes:
  "ef_wakes f \<le> ef_wakes (file_loop n i e f) \<and>
   (i + n \<le> 32 \<longrightarrow> (ef_wakes f < ef_wakes (file_loop n i e f) \<longleftrightarrow> take_bit n e \<noteq> 0 \<and> are_requested_events_pending (file_loop n i e f)))"
proof (induction n arbitrary: i e f)
  case (Suc n)
  let ?g = "if e AND 1 \<noteq> 0 then wake_file (int i) f else f"
  let ?r = "file_loop n (Suc i) (drop_bit 1 e) ?g"
  have IH: "ef_wakes ?g \<le> ef_wakes ?r" "Suc i + n \<le> 32 \<Longrightarrow>
      ef_wakes ?g < ef_wakes ?r \<longleftrightarrow> take_bit n (drop_bit 1 e) \<noteq> 0 \<and> are_requested_events_pending ?r"
    using Suc.IH [of ?g "Suc i" "drop_bit 1 e"] by blast+
  have g: "ef_wakes ?g = ef_wakes f + (if e AND 1 \<noteq> 0 \<and> are_requested_events_pending ?g then 1 else 0)"
    by (simp add: wake_file_def Let_def are_requested_events_pending_def)
  have mono: "are_requested_events_pending ?g \<Longrightarrow> are_requested_events_pending ?r"
    by (erule requested_mono) (simp_all add: file_loop_bit)
  have none: "take_bit n (drop_bit 1 e) = 0 \<Longrightarrow> ?r = ?g" by (rule file_loop_none)
  have tb: "take_bit (Suc n) e \<noteq> 0 \<longleftrightarrow> e AND 1 \<noteq> 0 \<or> take_bit n (drop_bit 1 e) \<noteq> 0"
    unfolding and_one_bit take_bit_Suc_zero by blast
  have "ef_wakes f \<le> ef_wakes ?r \<and> (Suc i + n \<le> 32 \<longrightarrow>
      (ef_wakes f < ef_wakes ?r \<longleftrightarrow> take_bit (Suc n) e \<noteq> 0 \<and> are_requested_events_pending ?r))"
    using none by (intro wakes_logic [OF IH g mono _ tb]) auto
  then show ?case by (simp only: file_loop.simps) simp
qed simp

section \<open>Properties\<close>

lemma map_of_map_val: "map_of (map (\<lambda>(k, f). (k, g f)) xs) k = map_option g (map_of xs k)"
  by (induction xs) auto

lemma the_file_isr: "the_file (events_isr pending d) k = map_option (file_loop 31 0 pending) (the_file d k)"
  using wake_loop_files [of 31 0 pending d]
  by (simp add: events_isr_def events_foreach_wake_up_def reg_write_def Let_def the_file_def map_of_map_val)

lemma isr_frame:
  "ev_sem (events_isr pending d) = ev_sem d" "ev_irq_depth (events_isr pending d) = ev_irq_depth d"
  "ev_opened (events_isr pending d) = ev_opened d" "map fst (ev_filelist (events_isr pending d)) = map fst (ev_filelist d)"
  "ev_writes (events_isr pending d) = ev_writes d @ [(EVENTS_PENDING_REG, pending), (EVENTS_MASK_REG, 0)]"
  using wake_loop_files [of 31 0 pending d]
  by (simp_all add: events_isr_def events_foreach_wake_up_def reg_write_def Let_def case_prod_unfold)

text \<open>
  C23: delivery of an interrupt.  Every open file gets the events 0 to 30 of the pending register
  added to its own, and its readers are woken exactly if there was such an event and the request of
  the file is now met; the device is acknowledged and its interrupts are masked.
\<close>

theorem events_isr_delivers:
  assumes "the_file d k = Some f"
  shows "\<exists>f'. the_file (events_isr pending d) k = Some f' \<and>
    ef_pending f' = ef_pending f OR take_bit 31 pending \<and> ef_pending_mask f' = ef_pending_mask f \<and>
    (ef_wakes f < ef_wakes f' \<longleftrightarrow> take_bit 31 pending \<noteq> 0 \<and> are_requested_events_pending f') \<and>
    ev_writes (events_isr pending d) = ev_writes d @ [(EVENTS_PENDING_REG, pending), (EVENTS_MASK_REG, 0)]"
  using assms the_file_isr [of pending d k] file_loop_pending [of pending f] file_loop_wakes [of f 31 0 pending] isr_frame(5)
  by simp

definition sample_events :: events_dev where
  "sample_events = \<lparr>ev_sem = True, ev_irq_depth = 0, ev_opened = 1,
     ev_filelist = [(7, \<lparr>ef_pending = 0, ef_pending_mask = 6, ef_all_events = 0, ef_wakes = 0\<rparr>)],
     ev_writes = [], ev_scratch = 0xdeadbeef\<rparr>"

theorem events_isr_delivers_witness:
  "\<exists>f'. the_file (events_isr 0x80000005 sample_events) 7 = Some f' \<and> ef_pending f' = 5 \<and> 0 < ef_wakes f'"
proof -
  have t: "take_bit 31 (0x80000005 :: u32) = 5" by code_simp
  have f: "the_file sample_events 7 = Some \<lparr>ef_pending = 0, ef_pending_mask = 6, ef_all_events = 0, ef_wakes = 0\<rparr>"
    by (simp add: the_file_def sample_events_def)
  obtain f' where f': "the_file (events_isr 0x80000005 sample_events) 7 = Some f'" "ef_pending f' = 5" "ef_pending_mask f' = 6"
    "0 < ef_wakes f' \<longleftrightarrow> are_requested_events_pending f'"
    using events_isr_delivers [OF f, of "0x80000005"] t by auto
  moreover have "are_requested_events_pending f'"
    using f'(1-3) f by (auto simp: the_file_isr are_requested_events_pending_def)
  ultimately show ?thesis by blast
qed

lemma not_high_bit: "m AND NOT 0x80000000 = take_bit 31 m" for m :: u32
proof (rule bit_eqI)
  fix n
  have "(0x80000000 :: u32) = 2 ^ 31" by simp
  then have "bit (0x80000000 :: u32) n \<longleftrightarrow> n = 31" by (simp only: bit_exp_iff) auto
  then show "possible_bit TYPE(u32) n \<Longrightarrow> bit (m AND NOT 0x80000000) n = bit (take_bit 31 m) n"
    by (auto simp: bit_simps)
qed

lemma the_file_set: "the_file d k = Some f \<Longrightarrow> the_file (set_file k g d) k = Some g"
proof -
  have "map_of xs k = Some f \<Longrightarrow> map_of (map (\<lambda>(k', h). (k', if k' = k then g else h)) xs) k = Some g" for xs
    by (induction xs) auto
  then show "the_file d k = Some f \<Longrightarrow> the_file (set_file k g d) k = Some g" by (simp add: the_file_def set_file_def)
qed

lemma the_file_up [simp]: "the_file (up d) k = the_file d k" "the_file (d\<lparr>ev_sem := b\<rparr>) k = the_file d k"
  "the_file (reg_write r v d) k = the_file d k"
  by (simp_all add: the_file_def up_def reg_write_def)

text \<open>
  C24: a request is answered.  A program writes a mask \<open>m\<close>, an interrupt with pending word \<open>p\<close> meets
  the request, and the read then returns the requested ones among the events that were pending before
  and the new ones; these are cleared, all others stay pending for later.  If bit 31 of the mask asks
  for all events, the read returns the whole mask.
\<close>

theorem events_request_answered:
  assumes d: "ev_sem d" "the_file d k = Some f"
    and w: "events_write False (Some m) k 4 d = Some (r1, d1)"
    and p: "the_file (events_isr p d1) k = Some g" "are_requested_events_pending g"
  shows "r1 = 4 \<and> (\<exists>got d3 f3. events_read False (Ev_Ready (events_isr p d1)) False True k 4 d1 = Some (4, Some got, d3) \<and>
    got = (ef_pending f OR p) AND take_bit 31 m \<and> (bit m 31 \<longrightarrow> got = take_bit 31 m) \<and>
    the_file d3 k = Some f3 \<and> ef_pending f3 = (ef_pending f OR take_bit 31 p) AND NOT got \<and> ev_sem d3)"
proof -
  let ?f1 = "f\<lparr>ef_all_events := m AND 0x80000000, ef_pending_mask := take_bit 31 m\<rparr>"
  have w1: "r1 = 4" "the_file d1 k = Some ?f1" "ev_sem d1"
    using w d not_high_bit [of m] by (auto simp: events_write_def down_interruptible_def the_file_set up_def)
  have g: "g = file_loop 31 0 p ?f1" using p(1) w1(2) by (simp add: the_file_isr)
  then have gm: "ef_pending g = ef_pending f OR take_bit 31 p" "ef_pending_mask g = take_bit 31 m" "ef_all_events g = m AND 0x80000000"
    by (simp_all add: file_loop_pending)
  let ?got = "ef_pending g AND ef_pending_mask g" and ?d2 = "events_isr p d1"
  let ?f3 = "g\<lparr>ef_pending := ef_pending g AND NOT ?got\<rparr>"
  have "ev_sem ?d2" using w1(3) by (simp add: isr_frame)
  then have "events_read False (Ev_Ready ?d2) False True k 4 d1 =
      Some (4, Some ?got, up (set_file k ?f3 (?d2\<lparr>ev_sem := False\<rparr>)))"
    using w1(3) p(1) by (simp add: events_read_def down_interruptible_def clear_loop_all)
  moreover have "?got = (ef_pending f OR p) AND take_bit 31 m"
    unfolding gm by (rule bit_eqI) (auto simp: bit_simps)
  moreover have "?got = take_bit 31 m" if "bit m 31"
  proof -
    have "m AND push_bit 31 1 \<noteq> 0" using that bit_iff_and_push_bit_not_eq_0 [of m 31] by blast
    then show ?thesis using p(2) gm by (simp add: are_requested_events_pending_def)
  qed
  moreover have "the_file (up (set_file k ?f3 (?d2\<lparr>ev_sem := False\<rparr>))) k = Some ?f3"
    using p(1) by (simp add: the_file_set [of _ _ g])
  moreover have "ef_pending ?f3 = (ef_pending f OR take_bit 31 p) AND NOT ?got" by (simp only: gm(1)) simp
  moreover have "ev_sem (up (set_file k ?f3 (?d2\<lparr>ev_sem := False\<rparr>)))" by (simp add: up_def)
  ultimately show ?thesis using w1(1) by blast
qed

theorem events_request_answered_witness:
  "\<exists>d1 d3. events_write False (Some 6) 7 4 sample_events = Some (4, d1) \<and>
    events_read False (Ev_Ready (events_isr 0x0D d1)) False True 7 4 d1 = Some (4, Some 4, d3)"
proof -
  obtain d1 where w: "events_write False (Some 6) 7 4 sample_events = Some (4, d1)"
    and f1: "the_file d1 7 = Some \<lparr>ef_pending = 0, ef_pending_mask = 6, ef_all_events = 0, ef_wakes = 0\<rparr>"
    by (simp add: events_write_def down_interruptible_def sample_events_def the_file_def set_file_def up_def reg_write_def)
  obtain g where g: "the_file (events_isr 0x0D d1) 7 = Some g" "ef_pending g = 13" "ef_pending_mask g = 6" "ef_all_events g = 0"
  proof -
    have "take_bit 31 (0x0D :: u32) = 13" by code_simp
    then show ?thesis using that f1 by (simp add: the_file_isr file_loop_pending)
  qed
  have s: "ev_sem sample_events" "the_file sample_events 7 = Some \<lparr>ef_pending = 0, ef_pending_mask = 6, ef_all_events = 0, ef_wakes = 0\<rparr>"
    by (simp_all add: sample_events_def the_file_def)
  have "(0 OR 0x0D) AND take_bit 31 (6 :: u32) = 4" by code_simp
  then show ?thesis
    using events_request_answered [OF s w g(1)] w g by (simp add: are_requested_events_pending_def) blast
qed

section \<open>Reachable states\<close>

text \<open>The device after \<open>events_probe\<close>, and any sequence of calls: \<open>n\<close> counts the opens that ran out
  of memory.  A read resumes in a state that is itself reachable.\<close>

definition events_initial :: events_dev where
  "events_initial = \<lparr>ev_sem = True, ev_irq_depth = 0, ev_opened = 0, ev_filelist = [],
     ev_writes = [(EVENTS_PENDING_REG, 0xFFFFFFFF)], ev_scratch = 0xdeadbeef\<rparr>"

inductive ev_reach :: "nat \<Rightarrow> events_dev \<Rightarrow> bool" where
  ev_init: "ev_reach 0 events_initial"
| ev_open: "ev_reach n d \<Longrightarrow> the_file d k = None \<Longrightarrow> events_open intr alloc k d = Some (r, d') \<Longrightarrow>
    ev_reach (if r = - ENOMEM then n + 1 else n) d'"
| ev_release: "ev_reach n d \<Longrightarrow> the_file d k \<noteq> None \<Longrightarrow> events_release intr k d = Some (r, d') \<Longrightarrow> ev_reach n d'"
| ev_isr: "ev_reach n d \<Longrightarrow> ev_reach n (events_isr pending d)"
| ev_trigger: "ev_reach n d \<Longrightarrow> ev_reach n (snd (trigger_set val d))"
| ev_write: "ev_reach n d \<Longrightarrow> events_write intr data k count d = Some (r, d') \<Longrightarrow> ev_reach n d'"
| ev_ioctl: "ev_reach n d \<Longrightarrow> events_ioctl intr access_ok cmd d = Some (r, x, d') \<Longrightarrow> ev_reach n d'"
| ev_read: "ev_reach n d \<Longrightarrow> ev_reach m e \<Longrightarrow> events_read intr1 (Ev_Ready e) intr2 copy_ok k 4 d = Some (r, x, d') \<Longrightarrow>
    r \<noteq> - ERESTARTSYS \<Longrightarrow> ev_reach m d'"

definition ev_inv :: "nat \<Rightarrow> events_dev \<Rightarrow> bool" where
  "ev_inv n d \<longleftrightarrow> ev_sem d \<and> ev_irq_depth d = n \<and> distinct (map fst (ev_filelist d)) \<and>
     ev_opened d = int (length (ev_filelist d))"

lemma ev_inv_frame:
  assumes "ev_inv n d" "ev_sem d'" "ev_irq_depth d' = ev_irq_depth d" "ev_opened d' = ev_opened d"
    and "map fst (ev_filelist d') = map fst (ev_filelist d)"
  shows "ev_inv n d'"
  using assms by (auto simp: ev_inv_def dest: map_eq_imp_length_eq)

lemma set_file_frame [simp]:
  "ev_sem (set_file k f d) = ev_sem d" "ev_irq_depth (set_file k f d) = ev_irq_depth d"
  "ev_opened (set_file k f d) = ev_opened d" "map fst (ev_filelist (set_file k f d)) = map fst (ev_filelist d)"
  by (simp_all add: set_file_def case_prod_unfold comp_def)

lemma remove_key_length:
  "distinct (map fst xs) \<Longrightarrow> map_of xs k \<noteq> None \<Longrightarrow> Suc (length (filter (\<lambda>(k', _). k' \<noteq> k) xs)) = length xs"
proof (induction xs)
  case (Cons x xs)
  obtain k' f where x: "x = (k', f)" by force
  show ?case
  proof (cases "k' = k")
    case True
    then have "k \<notin> fst ` set xs" using Cons.prems(1) x by simp
    then have "filter (\<lambda>(k', _). k' \<noteq> k) xs = xs" by (force simp: filter_id_conv)
    then show ?thesis using True x by simp
  next
    case False
    then show ?thesis using Cons x by simp
  qed
qed simp

lemma ev_release_inv:
  assumes "ev_inv n d" "the_file d k \<noteq> None" "events_release intr k d = Some (r, d')"
  shows "ev_inv n d'"
proof (cases intr)
  case True
  then show ?thesis using assms by (simp add: events_release_def down_interruptible_def)
next
  case False
  have l: "Suc (length (filter (\<lambda>(k', _). k' \<noteq> k) (ev_filelist d))) = length (ev_filelist d)"
    using assms(1,2) by (intro remove_key_length) (simp_all add: ev_inv_def the_file_def)
  have "distinct (map fst (filter (\<lambda>(k', _). k' \<noteq> k) (ev_filelist d)))"
    using assms(1) by (simp add: ev_inv_def distinct_map_filter)
  then show ?thesis
    using False assms(1,3) l
    by (auto simp: events_release_def down_interruptible_def ev_inv_def disable_irq_def enable_irq_def up_def Let_def split: if_splits)
qed



text \<open>
  A device tree node without the second word of \<open>reg\<close> (or without the first) makes \<open>events_probe\<close>
  report success although it has released the device again.
\<close>

theorem events_probe_false_success:
  assumes "pr_chrdev E = 0" "pr_kmalloc E" "pr_class E = 0" "pr_cdev E = 0" "pr_irq_prop E = 0"
    and "pr_reg0 E \<noteq> 0 \<or> pr_reg1 E \<noteq> 0"
  shows "\<exists>taken released. events_probe E = (0, taken, released, []) \<and> set taken = set released \<and> Res_Dev \<in> set released"
  using assms by (auto simp: events_probe_def events_remove_def Let_def)

theorem events_probe_false_success_witness:
  "\<exists>taken released. events_probe \<lparr>pr_chrdev = 0, pr_kmalloc = True, pr_class = 0, pr_cdev = 0, pr_irq_prop = 0,
      pr_reg0 = 0, pr_reg1 = - EINVAL, pr_ioremap = True, pr_dbg_dir = True, pr_dbg_levels = True, pr_dbg_trigger = True,
      pr_dbg_scratch = True, pr_hw_irq = 89, pr_gic_node = True, pr_create_of_mapping = (\<lambda>n. n - 32), pr_request_irq = 0\<rparr> = (0, taken, released, []) \<and>
    set taken = set released \<and> Res_Dev \<in> set released"
  by (rule events_probe_false_success) (simp_all add: EINVAL_def)

end
