(* ===== verification/Board_Init.thy ===== *)
theory Board_Init
  imports Fru_Uboot
begin

text \<open>
  Board identification in U-Boot (\<open>recipes-bsp/u-boot/files/iveia-init.c\<close>): the FRU image of each
  board is read and validated, its part number, serial number and name are put into the environment,
  and the Ethernet addresses are derived from the serial numbers.

  The environment is the map \<open>ub_vars\<close> of the U-Boot state.  Of \<open>isprint\<close>, whose table is U-Boot's,
  only what the theorems state is used.  \<open>None\<close> as a result is undefined behaviour, here an array
  written beyond its end.
\<close>

section \<open>Constants\<close>

definition CHARMAP :: string where "CHARMAP = ''ABCDEFGHJKLMNPQRSTUVWXYZ23456789''"
definition SN_LEN :: nat where "SN_LEN = 5"
definition MAC_LEN :: nat where "MAC_LEN = 6"
definition NIC_SPECIFIC_LEN :: nat where "NIC_SPECIFIC_LEN = 3"
definition IVEIA_OUI :: u64 where "IVEIA_OUI = 0x002168"
definition MAX_KERN_CMDLINE_FIELD_LEN :: nat where "MAX_KERN_CMDLINE_FIELD_LEN = 64"
definition DEFAULT_IPMI_STRING :: string where "DEFAULT_IPMI_STRING = ''none,none,Unknown''"

datatype iv_board_class = IV_BOARD_CLASS_NONE | IV_BOARD_CLASS_MB | IV_BOARD_CLASS_IO | IV_BOARD_CLASS_BP

datatype iv_board_field = IV_BOARD_FIELD_NONE | IV_BOARD_FIELD_PN | IV_BOARD_FIELD_SN | IV_BOARD_FIELD_NAME

datatype iv_board_subfield = IV_BOARD_SUBFIELD_NONE | IV_BOARD_SUBFIELD_PN_ORDINAL
  | IV_BOARD_SUBFIELD_PN_VARIANT | IV_BOARD_SUBFIELD_PN_REVISION

fun class2string :: "iv_board_class \<Rightarrow> string option" where
  "class2string IV_BOARD_CLASS_MB = Some ''iv_mb''"
| "class2string IV_BOARD_CLASS_IO = Some ''iv_io''"
| "class2string IV_BOARD_CLASS_BP = Some ''iv_bp''"
| "class2string IV_BOARD_CLASS_NONE = None"

fun get_board_name_from_class :: "iv_board_class \<Rightarrow> string" where
  "get_board_name_from_class IV_BOARD_CLASS_MB = ''Main Board''"
| "get_board_name_from_class IV_BOARD_CLASS_IO = ''IO Board''"
| "get_board_name_from_class IV_BOARD_CLASS_BP = ''BP Board''"
| "get_board_name_from_class IV_BOARD_CLASS_NONE = ''Unknown Board''"

section \<open>Board fields in the environment\<close>

text \<open>\<open>strsep\<close>: the token before the delimiter and what is left, \<open>None\<close> for the null pointer.
  \<open>env_set\<close> to an empty string deletes the variable.\<close>

definition strsep :: "char \<Rightarrow> string option \<Rightarrow> string option \<times> string option" where
  "strsep c s = (case s of None \<Rightarrow> (None, None)
   | Some t \<Rightarrow> (Some (takeWhile (\<lambda>x. x \<noteq> c) t),
       (case dropWhile (\<lambda>x. x \<noteq> c) t of [] \<Rightarrow> None | _ # r \<Rightarrow> Some r)))"

type_synonym env = "string \<Rightarrow> string option"

definition env_set :: "string \<Rightarrow> string option \<Rightarrow> env \<Rightarrow> env" where
  "env_set v s vars = vars(v := (if s = Some [] then None else s))"

definition iv_board_get_field ::
  "env \<Rightarrow> iv_board_class \<Rightarrow> iv_board_field \<Rightarrow> iv_board_subfield \<Rightarrow> string option"
where
  "iv_board_get_field vars cls field subfield =
     (case class2string cls of None \<Rightarrow> None | Some board \<Rightarrow>
      let buf = (case vars board of None \<Rightarrow> [] | Some p \<Rightarrow> take (MAX_KERN_CMDLINE_FIELD_LEN - 1) p) in
      if field = IV_BOARD_FIELD_NONE then Some buf
      else let (pfield, s) = strsep CHR '','' (Some buf) in
        if field = IV_BOARD_FIELD_PN
        then (if subfield = IV_BOARD_SUBFIELD_NONE then pfield
              else let (_, s) = strsep CHR ''-'' pfield;
                       (p1, s) = strsep CHR ''-'' s;
                       (p2, s) = strsep CHR ''-'' s;
                       (p3, s) = strsep CHR ''-'' s
                   in case subfield of
                        IV_BOARD_SUBFIELD_PN_ORDINAL \<Rightarrow> p1
                      | IV_BOARD_SUBFIELD_PN_VARIANT \<Rightarrow> p2
                      | _ \<Rightarrow> p3)
        else let (p1, s) = strsep CHR '','' s;
                 (p2, s) = strsep CHR '','' s
             in if field = IV_BOARD_FIELD_SN then p1 else p2)"

definition iv_board_match ::
  "env \<Rightarrow> iv_board_class \<Rightarrow> iv_board_field \<Rightarrow> iv_board_subfield \<Rightarrow> string \<Rightarrow> bool"
where
  "iv_board_match vars cls field subfield s \<longleftrightarrow> iv_board_get_field vars cls field subfield = Some s"

definition iv_mb_board_ord_match :: "env \<Rightarrow> string \<Rightarrow> bool" where
  "iv_mb_board_ord_match vars s = iv_board_match vars IV_BOARD_CLASS_MB IV_BOARD_FIELD_PN IV_BOARD_SUBFIELD_PN_ORDINAL s"

definition iv_io_board_ord_match :: "env \<Rightarrow> string \<Rightarrow> bool" where
  "iv_io_board_ord_match vars s = iv_board_match vars IV_BOARD_CLASS_IO IV_BOARD_FIELD_PN IV_BOARD_SUBFIELD_PN_ORDINAL s"

text \<open>The two loops of \<open>strcpy_ipmi_field\<close>: trailing spaces go, then characters are replaced up to
  the first NUL.\<close>

definition ipmi_char :: "char \<Rightarrow> char" where
  "ipmi_char c = (if c = CHR ''_'' then CHR ''-'' else if c = CHR '' '' then CHR ''_''
     else if c = CHR '','' then CHR ''/'' else c)"

definition strcpy_ipmi_field :: "nat \<Rightarrow> byte list \<Rightarrow> string option" where
  "strcpy_ipmi_field cap src =
     (if cap \<le> length src then None
      else let dest = rev (dropWhile (\<lambda>b. b = 0x20) (rev src))
           in Some (map (\<lambda>b. ipmi_char (char_of (unat b))) (takeWhile (\<lambda>b. b \<noteq> 0) dest)))"

definition print_board_info :: "env \<Rightarrow> iv_board_class \<Rightarrow> string \<times> string option list" where
  "print_board_info vars cls = (get_board_name_from_class cls,
     map (\<lambda>f. iv_board_get_field vars cls f IV_BOARD_SUBFIELD_NONE)
       [IV_BOARD_FIELD_NAME, IV_BOARD_FIELD_PN, IV_BOARD_FIELD_SN])"

text \<open>The spaces of a forced value are replaced in the environment's own copy of the string.\<close>

definition spaces_out :: "string \<Rightarrow> string" where
  "spaces_out s = map (\<lambda>c. if c = CHR '' '' then CHR ''_'' else c) s"

definition board_string_invalid :: "(char \<Rightarrow> bool) \<Rightarrow> string \<Rightarrow> bool" where
  "board_string_invalid isprint s \<longleftrightarrow> (\<exists>c \<in> set s. \<not> isprint c) \<or> length (filter (\<lambda>c. c = CHR '','') s) \<noteq> 2"

definition set_ipmi_env ::
  "(char \<Rightarrow> bool) \<Rightarrow> iv_board_class \<Rightarrow> byte list \<Rightarrow> byte list \<Rightarrow> byte list \<Rightarrow> env \<Rightarrow> env option"
where
  "set_ipmi_env isprint cls product_raw sn_raw pn_raw vars =
     (case class2string cls of None \<Rightarrow> None | Some varname \<Rightarrow> do {
      let vars = env_set varname None vars;
      let forced = varname @ ''_forced'';
      (ipmi_string, vars) \<leftarrow>
        (case vars forced of
           Some (c # s) \<Rightarrow> Some (spaces_out (c # s), vars(forced \<mapsto> spaces_out (c # s)))
         | _ \<Rightarrow> do {
             pn \<leftarrow> strcpy_ipmi_field MAX_KERN_CMDLINE_FIELD_LEN pn_raw;
             sn \<leftarrow> strcpy_ipmi_field MAX_KERN_CMDLINE_FIELD_LEN sn_raw;
             name \<leftarrow> strcpy_ipmi_field MAX_KERN_CMDLINE_FIELD_LEN product_raw;
             let s = pn @ '','' @ sn @ '','' @ name;
             if MAX_KERN_CMDLINE_FIELD_LEN \<le> length s then None else Some (spaces_out s, vars) });
      let ipmi_string = (if board_string_invalid isprint ipmi_string then DEFAULT_IPMI_STRING else ipmi_string);
      let vars = env_set varname (Some ipmi_string) vars;
      Some (case iv_board_get_field vars cls IV_BOARD_FIELD_PN IV_BOARD_SUBFIELD_PN_ORDINAL of
              None \<Rightarrow> vars
            | Some p \<Rightarrow> if length p + length varname < MAX_KERN_CMDLINE_FIELD_LEN
                then env_set (varname @ ''_ord'') (Some p) vars else vars) })"

section \<open>Ethernet addresses\<close>

definition toupper :: "char \<Rightarrow> char" where
  "toupper c = (let n = of_char c :: nat in if 97 \<le> n \<and> n \<le> 122 then char_of (n - 32) else c)"

text \<open>The inner loop: the index in \<open>CHARMAP\<close>, which is its length if there is none.\<close>

definition charmap_index :: "char \<Rightarrow> nat" where
  "charmap_index c = length (takeWhile (\<lambda>x. x \<noteq> toupper c) CHARMAP)"

fun sn_loop :: "string \<Rightarrow> u64 \<Rightarrow> u64 option" where
  "sn_loop [] n = Some n"
| "sn_loop (c # sn) n =
     (let j = charmap_index c in
      if length CHARMAP \<le> j then None else sn_loop sn (push_bit SN_LEN n + of_nat j))"

definition sn_to_mac :: "string \<Rightarrow> u64" where
  "sn_to_mac sn =
     (if length sn \<noteq> SN_LEN then 0
      else case sn_loop sn 0 of
             None \<Rightarrow> 0
           | Some numeric_sn \<Rightarrow>
               (let numeric_sn = push_bit 1 numeric_sn in
                if 0xFFFFFF < numeric_sn then 0
                else push_bit (8 * NIC_SPECIFIC_LEN) IVEIA_OUI OR numeric_sn))"

definition sn_to_mac_unittests :: bool where
  "sn_to_mac_unittests \<longleftrightarrow>
     sn_to_mac ''C6J36'' = 0x0021685C4678 \<and> sn_to_mac ''B9LYW'' = 0x0021683F55A8 \<and>
     sn_to_mac ''AAAAA'' = 0x002168000000 \<and> sn_to_mac ''H9999'' = 0x002168FFFFFE \<and>
     sn_to_mac ''JAAAA'' = 0 \<and> sn_to_mac ''ABCDE'' = sn_to_mac ''abcde'' \<and>
     sn_to_mac ''AA0AA'' = 0 \<and> sn_to_mac ''AA#AA'' = 0"

text \<open>The assignment of addresses to ports, for a Zynq and for a ZynqMP board.\<close>

definition port_macs :: "bool \<Rightarrow> u64 \<Rightarrow> u64 \<Rightarrow> u64 list" where
  "port_macs zynq mb_mac io_mac =
     (if zynq
      then (if mb_mac \<noteq> 0 then [mb_mac, mb_mac + 1, 0, 0]
            else if io_mac \<noteq> 0 then [io_mac, io_mac + 1, 0, 0] else [0, 0, 0, 0])
      else (if mb_mac \<noteq> 0 \<and> io_mac \<noteq> 0 then [mb_mac, mb_mac + 1, io_mac, io_mac + 1]
            else if mb_mac \<noteq> 0 then [0, 0, mb_mac, mb_mac + 1]
            else if io_mac \<noteq> 0 then [0, 0, io_mac, io_mac + 1] else [0, 0, 0, 0]))"

fun mac_bytes :: "nat \<Rightarrow> u64 \<Rightarrow> byte list" where
  "mac_bytes 0 mac = []"
| "mac_bytes (Suc n) mac = mac_bytes n (drop_bit 8 mac) @ [ucast (mac AND 0xFF)]"

definition eth_var :: "nat \<Rightarrow> string" where
  "eth_var m = (if m = 0 then ''ethaddr'' else ''eth'' @ show_int (int m) @ ''addr'')"

text \<open>\<open>%pM\<close>: the bytes in hexadecimal with colons.\<close>

fun mac_string :: "byte list \<Rightarrow> string" where
  "mac_string [] = []"
| "mac_string [b] = show_hex2 (ucast b)"
| "mac_string (b # bs) = show_hex2 (ucast b) @ '':'' @ mac_string bs"

definition set_port :: "nat \<Rightarrow> u64 \<Rightarrow> env \<Rightarrow> env" where
  "set_port m mac vars =
     (if mac = 0 then vars
      else if vars (eth_var m) = None then env_set (eth_var m) (Some (mac_string (mac_bytes MAC_LEN mac))) vars
      else vars)"

definition set_mac_addrs :: "bool \<Rightarrow> env \<Rightarrow> env" where
  "set_mac_addrs zynq vars =
     (let mac = (\<lambda>cls. case iv_board_get_field vars cls IV_BOARD_FIELD_SN IV_BOARD_SUBFIELD_NONE of
            None \<Rightarrow> 0 | Some sn \<Rightarrow> sn_to_mac sn);
          macs = port_macs zynq (mac IV_BOARD_CLASS_MB) (mac IV_BOARD_CLASS_IO)
      in fold (\<lambda>m. set_port m (macs ! m)) [0..<4] vars)"

section \<open>Scanning the boards\<close>

fun boardclass2board :: "iv_board_class \<Rightarrow> ivfru_board" where
  "boardclass2board IV_BOARD_CLASS_MB = IVFRU_BOARD_MB"
| "boardclass2board IV_BOARD_CLASS_IO = IVFRU_BOARD_IO"
| "boardclass2board IV_BOARD_CLASS_BP = IVFRU_BOARD_BP"
| "boardclass2board IV_BOARD_CLASS_NONE = MAX_IVFRU_BOARD"

text \<open>The array \<open>iv_ipmi\<close> lives on the stack, at address \<open>sp\<close> with arbitrary contents \<open>junk\<close>; it is the
  last object of the RAM while it is in use, so that an access beyond it is undefined, and it is
  gone after the function.\<close>

definition board_scan_ipmi ::
  "ub_env \<Rightarrow> (char \<Rightarrow> bool) \<Rightarrow> nat \<Rightarrow> (nat \<Rightarrow> byte list) \<Rightarrow> iv_board_class \<Rightarrow> ub \<Rightarrow>
   (int \<times> ub \<times> (string \<times> string option list) option) option"
where
  "board_scan_ipmi E isprint sp junk brd_class s = do {
     let board = boardclass2board brd_class;
     (_, ivfru_len) \<leftarrow> ivfru_get_size_from_storage (uboot_plat E) board s;
     if ivfru_len \<le> 0 then None else do {
     let ram = ub_ram s;
     let s = s\<lparr>ub_ram := take sp ram @ junk (nat ivfru_len)\<rparr>;
     let s = snd (ub_set_buffer sp s);
     (err, s) \<leftarrow> ivfru_read (uboot_plat E) board sp True s;
     if err \<noteq> IVFRU_RET_SUCCESS then Some (- EIO, s\<lparr>ub_ram := ram\<rparr>, None) else do {
     let mem = drop sp (ub_ram s);
     (err, _) \<leftarrow> ivfru_validate mem False;
     if err \<noteq> IVFRU_RET_SUCCESS then Some (- EBADMSG, s\<lparr>ub_ram := ram\<rparr>, None) else do {
     (product, sn, pn) \<leftarrow> ivfru_get_bia_predefined_fields mem;
     product_raw \<leftarrow> ldn mem (fst product) (snd product);
     sn_raw \<leftarrow> ldn mem (fst sn) (snd sn);
     pn_raw \<leftarrow> ldn mem (fst pn) (snd pn);
     vars \<leftarrow> set_ipmi_env isprint brd_class product_raw sn_raw pn_raw (ub_vars s);
     Some (0, s\<lparr>ub_ram := ram, ub_vars := vars\<rparr>, Some (print_board_info vars brd_class)) } } } }"

text \<open>\<open>chosen_node\<close> is what \<open>fdt_path_offset\<close> yields; the result lists the properties set.\<close>

definition iv_ipmi_chosen :: "int \<Rightarrow> env \<Rightarrow> int \<times> (string \<times> string) list" where
  "iv_ipmi_chosen chosen_node vars =
     (if chosen_node \<le> 0 then (- ENODEV, [])
      else (0, concat (map (\<lambda>v. case vars v of None \<Rightarrow> [] | Some x \<Rightarrow> [(v, x)])
        [''iv_mb'', ''iv_mb_ord'', ''iv_io'', ''iv_io_ord'', ''iv_mb'', ''iv_mb_ord''])))"

definition iv_ipmi_scan ::
  "ub_env \<Rightarrow> (char \<Rightarrow> bool) \<Rightarrow> bool \<Rightarrow> nat \<Rightarrow> (nat \<Rightarrow> byte list) \<Rightarrow> ub \<Rightarrow> (int \<times> ub) option"
where
  "iv_ipmi_scan E isprint zynq sp junk s = do {
     (_, s, _) \<leftarrow> board_scan_ipmi E isprint sp junk IV_BOARD_CLASS_MB s;
     (_, s, _) \<leftarrow> board_scan_ipmi E isprint sp junk IV_BOARD_CLASS_IO s;
     Some (0, if sn_to_mac_unittests then s\<lparr>ub_vars := set_mac_addrs zynq (ub_vars s)\<rparr> else s) }"

definition misc_init_r ::
  "ub_env \<Rightarrow> (char \<Rightarrow> bool) \<Rightarrow> bool \<Rightarrow> nat \<Rightarrow> (nat \<Rightarrow> byte list) \<Rightarrow> ub \<Rightarrow> (int \<times> ub) option"
where
  "misc_init_r E isprint zynq sp junk s =
     map_option (\<lambda>(_, s). (0, s)) (iv_ipmi_scan E isprint zynq sp junk s)"

lemma unittests_pass: "sn_to_mac_unittests"
  by code_simp

section \<open>Serial numbers and addresses\<close>

definition sn_value :: "nat \<Rightarrow> string \<Rightarrow> nat" where
  "sn_value n sn = foldl (\<lambda>n c. 32 * n + charmap_index c) n sn"

lemma length_CHARMAP: "length CHARMAP = 32" by (simp add: CHARMAP_def)

lemma sn_loop_value:
  "sn_loop sn (of_nat n) = Some v \<Longrightarrow> v = of_nat (sn_value n sn) \<and> (\<forall>c \<in> set sn. charmap_index c < 32)"
proof (induction sn arbitrary: n)
  case (Cons c sn)
  have "push_bit SN_LEN (of_nat n :: u64) + of_nat (charmap_index c) = of_nat (32 * n + charmap_index c)"
    by (simp add: push_bit_eq_mult SN_LEN_def)
  then show ?case
    using Cons.prems Cons.IH [of "32 * n + charmap_index c"]
    by (auto simp: length_CHARMAP sn_value_def Let_def split: if_splits)
qed (simp add: sn_value_def)

lemma sn_value_bound: "\<forall>c \<in> set sn. charmap_index c < 32 \<Longrightarrow> sn_value n sn < (n + 1) * 32 ^ length sn"
proof (induction sn arbitrary: n)
  case (Cons c sn)
  have "sn_value n (c # sn) < (32 * n + charmap_index c + 1) * 32 ^ length sn"
    using Cons by (simp add: sn_value_def)
  also have "\<dots> \<le> (32 * (n + 1)) * 32 ^ length sn" using Cons.prems by (intro mult_le_mono1) auto
  finally show ?case by (simp add: algebra_simps)
qed (simp add: sn_value_def)

lemma base32:
  assumes "x < 32" "y < 32" "32 * m + x = 32 * n + (y :: nat)"
  shows "m = n \<and> x = y"
proof -
  have "(32 * m + x) mod 32 = (32 * n + y) mod 32" using assms(3) by simp
  then have "x = y" using assms(1,2) by simp
  then show ?thesis using assms(3) by simp
qed

lemma sn_value_inj:
  assumes "length a = length b" "\<forall>c \<in> set a \<union> set b. charmap_index c < 32" "sn_value m a = sn_value n b"
  shows "m = n \<and> map charmap_index a = map charmap_index b"
  using assms
proof (induction a b arbitrary: m n rule: list_induct2)
  case (Cons c a d b)
  have "32 * m + charmap_index c = 32 * n + charmap_index d \<and> map charmap_index a = map charmap_index b"
    using Cons by (intro Cons.IH) (auto simp: sn_value_def)
  moreover have "charmap_index c < 32" "charmap_index d < 32" using Cons.prems by auto
  ultimately show ?case using base32 [of "charmap_index c" "charmap_index d" m n] by simp
qed (simp add: sn_value_def)

lemma charmap_inv: "charmap_index c < 32 \<Longrightarrow> CHARMAP ! charmap_index c = toupper c"
  using nth_length_takeWhile [of "\<lambda>x. x \<noteq> toupper c" CHARMAP] by (simp add: charmap_index_def length_CHARMAP)

lemma charmap_index_eq: "charmap_index c = charmap_index d \<Longrightarrow> charmap_index c < 32 \<Longrightarrow> toupper c = toupper d"
  using charmap_inv [of c] charmap_inv [of d] by simp

lemma map_toupper_eq:
  assumes "map charmap_index a = map charmap_index b" "\<forall>c \<in> set a. charmap_index c < 32"
  shows "map toupper a = map toupper b"
proof -
  have "length a = length b" using assms(1) by (rule map_eq_imp_length_eq)
  then show ?thesis using assms
    by (induction a b rule: list_induct2) (auto intro: charmap_index_eq)
qed

lemma or_disjoint: "x \<le> 0xFFFFFF \<Longrightarrow> push_bit 24 a OR x = push_bit 24 a + (x :: u64)"
proof -
  assume "x \<le> 0xFFFFFF"
  then have "unat x < 2 ^ 24" by (simp add: word_le_nat_alt)
  then have "take_bit 24 x = x" by (simp add: word_unat_eq_iff unsigned_take_bit_eq take_bit_nat_eq_self)
  then have "\<not> bit x n" if "24 \<le> n" for n using that bit_take_bit_iff [of 24 x n] by simp
  then have "\<not> bit (push_bit 24 a) n \<or> \<not> bit x n" for n by (cases "24 \<le> n") (auto simp: bit_push_bit_iff)
  then show "push_bit 24 a OR x = push_bit 24 a + x" by (simp add: disjunctive_add)
qed

lemma sn_to_mac_value:
  assumes "sn_to_mac sn \<noteq> 0"
  shows "length sn = 5 \<and> (\<forall>c \<in> set sn. charmap_index c < 32) \<and> 2 * sn_value 0 sn \<le> 0xFFFFFF \<and>
    unat (sn_to_mac sn) = 0x002168000000 + 2 * sn_value 0 sn"
proof -
  obtain v where l: "length sn = 5" and v: "sn_loop sn 0 = Some v" and b: "push_bit 1 v \<le> 0xFFFFFF"
    and m: "sn_to_mac sn = push_bit 24 IVEIA_OUI OR push_bit 1 v"
    using assms by (auto simp: sn_to_mac_def SN_LEN_def NIC_SPECIFIC_LEN_def Let_def not_less split: if_splits option.splits)
  have sv: "v = of_nat (sn_value 0 sn)" "\<forall>c \<in> set sn. charmap_index c < 32" using sn_loop_value [of sn 0 v] v by auto
  have lt: "sn_value 0 sn < 2 ^ 25" using sn_value_bound [OF sv(2), of 0] l by simp
  have "push_bit 1 v = of_nat (2 * sn_value 0 sn)" by (simp add: sv(1) push_bit_eq_mult)
  then have pv: "unat (push_bit 1 v) = 2 * sn_value 0 sn" using lt by (simp only: unat_of_nat) simp
  have "push_bit 24 IVEIA_OUI = (0x002168000000 :: u64)" by (simp add: IVEIA_OUI_def)
  then have "sn_to_mac sn = 0x002168000000 + push_bit 1 v" using m or_disjoint [OF b, of IVEIA_OUI] by simp
  also have "\<dots> = 0x002168000000 + of_nat (unat (push_bit 1 v))" by simp
  finally have s: "sn_to_mac sn = 0x002168000000 + of_nat (2 * sn_value 0 sn)" unfolding pv .
  have "unat (sn_to_mac sn) = 0x002168000000 + 2 * sn_value 0 sn"
    unfolding s using lt unat_plus_small [of "0x002168000000" "2 * sn_value 0 sn"] by simp
  moreover have "2 * sn_value 0 sn \<le> 0xFFFFFF" using b pv by (simp add: word_le_nat_alt)
  ultimately show ?thesis using l sv(2) by blast
qed

text \<open>
  C27: addresses are unique.  Two serial numbers that yield addresses at all, and share one of the two
  addresses each of them stands for, are the same up to upper and lower case; every such address
  carries the iVeia OUI in its upper 24 bits.
\<close>

theorem sn_to_mac_unique:
  assumes "sn_to_mac a \<noteq> 0" "sn_to_mac b \<noteq> 0"
    and "{sn_to_mac a, sn_to_mac a + 1} \<inter> {sn_to_mac b, sn_to_mac b + 1} \<noteq> {}"
  shows "map toupper a = map toupper b \<and> drop_bit 24 (sn_to_mac a) = IVEIA_OUI"
proof -
  note A = sn_to_mac_value [OF assms(1)] and B = sn_to_mac_value [OF assms(2)]
  have inc: "unat (sn_to_mac s + 1) = unat (sn_to_mac s) + 1" if "unat (sn_to_mac s) < 2 ^ 47" for s
    using that by (simp add: unat_word_ariths)
  have "unat (sn_to_mac a) < 2 ^ 47" "unat (sn_to_mac b) < 2 ^ 47" using A B by simp_all
  with inc have ia: "unat (sn_to_mac a + 1) = unat (sn_to_mac a) + 1" "unat (sn_to_mac b + 1) = unat (sn_to_mac b) + 1" by blast+
  have "sn_to_mac a = sn_to_mac b \<or> sn_to_mac a + 1 = sn_to_mac b + 1 \<or> sn_to_mac a = sn_to_mac b + 1 \<or> sn_to_mac a + 1 = sn_to_mac b"
    using assms(3) by auto
  then have "unat (sn_to_mac a) = unat (sn_to_mac b) \<or> unat (sn_to_mac a) = unat (sn_to_mac b) + 1 \<or> unat (sn_to_mac a) + 1 = unat (sn_to_mac b)"
    using ia by (metis add_right_cancel)
  moreover have "unat (sn_to_mac a) = 0x002168000000 + 2 * sn_value 0 a" "unat (sn_to_mac b) = 0x002168000000 + 2 * sn_value 0 b"
    using A B by blast+
  ultimately have "sn_value 0 a = sn_value 0 b" by presburger
  then have "map charmap_index a = map charmap_index b" using sn_value_inj [of a b 0 0] A B by auto
  then have "map toupper a = map toupper b"
    using A by (intro map_toupper_eq) blast+
  moreover have "unat (drop_bit 24 (sn_to_mac a)) = 0x2168"
  proof -
    have "unat (drop_bit 24 (sn_to_mac a)) = unat (sn_to_mac a) div 2 ^ 24"
      by (simp only: unsigned_drop_bit_eq drop_bit_eq_div take_bit_length_eq) (simp add: unat_div)
    moreover have "x \<le> 0xFFFFFF \<Longrightarrow> (0x002168000000 + x) div 2 ^ 24 = 0x2168" for x :: nat by simp
    ultimately show ?thesis using A by metis
  qed
  then have "drop_bit 24 (sn_to_mac a) = IVEIA_OUI" by (simp add: word_unat_eq_iff IVEIA_OUI_def)
  ultimately show ?thesis by blast
qed

theorem sn_to_mac_unique_witness:
  "map toupper ''c6j36'' = map toupper ''C6J36'' \<and> drop_bit 24 (sn_to_mac ''c6j36'') = IVEIA_OUI"
proof (rule sn_to_mac_unique)
  show "sn_to_mac ''c6j36'' \<noteq> 0" "sn_to_mac ''C6J36'' \<noteq> 0" by code_simp+
  have "sn_to_mac ''c6j36'' = sn_to_mac ''C6J36''" by code_simp
  then show "{sn_to_mac ''c6j36'', sn_to_mac ''c6j36'' + 1} \<inter> {sn_to_mac ''C6J36'', sn_to_mac ''C6J36'' + 1} \<noteq> {}" by simp
qed

section \<open>From the FRU image to the environment\<close>

text \<open>The form in which a field reaches the environment.\<close>

definition ipmi_norm :: "byte list \<Rightarrow> string" where
  "ipmi_norm raw = map (\<lambda>b. ipmi_char (char_of (unat b))) (takeWhile (\<lambda>b. b \<noteq> 0) (rev (dropWhile (\<lambda>b. b = 0x20) (rev raw))))"

definition printable :: "byte list \<Rightarrow> bool" where
  "printable raw \<longleftrightarrow> (\<forall>b \<in> set raw. 0x20 \<le> b \<and> b \<le> 0x7E)"

definition clean :: "char \<Rightarrow> bool" where
  "clean c \<longleftrightarrow> c \<noteq> CHR '','' \<and> c \<noteq> CHR '' '' \<and> 0x20 \<le> (of_char c :: nat) \<and> (of_char c :: nat) \<le> 0x7E"

lemma ipmi_char_clean:
  assumes "0x20 \<le> b" "b \<le> (0x7E :: byte)"
  shows "clean (ipmi_char (char_of (unat b)))"
proof -
  have n: "0x20 \<le> unat b" "unat b \<le> 0x7E" using assms by (simp_all add: word_le_nat_alt)
  then have "of_char (char_of (unat b) :: char) = unat b" by (simp add: of_char_of)
  then show ?thesis using n by (auto simp: clean_def ipmi_char_def)
qed

lemma ipmi_norm_clean: "printable raw \<Longrightarrow> list_all clean (ipmi_norm raw)"
  unfolding list_all_iff ipmi_norm_def printable_def
  using ipmi_char_clean by (auto dest!: set_takeWhileD set_dropWhileD)

lemma ipmi_norm_length: "length (ipmi_norm raw) \<le> length raw"
proof -
  have "length (ipmi_norm raw) \<le> length (dropWhile (\<lambda>b. b = 0x20) (rev raw))"
    using length_takeWhile_le [of "\<lambda>b. b \<noteq> 0" "rev (dropWhile (\<lambda>b. b = 0x20) (rev raw))"] by (simp add: ipmi_norm_def)
  then show ?thesis using length_dropWhile_le [of "\<lambda>b. b = 0x20" "rev raw"] by simp
qed

lemma strsep_hit: "c \<notin> set a \<Longrightarrow> strsep c (Some (a @ c # r)) = (Some a, Some r)"
  by (auto simp: strsep_def takeWhile_append dropWhile_append)

lemma strsep_end: "c \<notin> set a \<Longrightarrow> strsep c (Some a) = (Some a, None)"
proof -
  assume "c \<notin> set a"
  then have "takeWhile (\<lambda>x. x \<noteq> c) a = a" "dropWhile (\<lambda>x. x \<noteq> c) a = []"
    by (auto simp: takeWhile_eq_all_conv dropWhile_eq_Nil_conv)
  then show ?thesis by (simp only: strsep_def option.case list.case)
qed

lemma clean_no_comma: "list_all clean s \<Longrightarrow> CHR '','' \<notin> set s" "list_all clean s \<Longrightarrow> CHR '' '' \<notin> set s"
  by (auto simp: list_all_iff clean_def)

lemma get_fields:
  assumes "class2string cls = Some board" "vars board = Some (pn @ '','' @ sn @ '','' @ name)"
    and "length (pn @ '','' @ sn @ '','' @ name) < 64" "list_all clean pn" "list_all clean sn" "list_all clean name"
  shows "iv_board_get_field vars cls IV_BOARD_FIELD_PN IV_BOARD_SUBFIELD_NONE = Some pn"
    "iv_board_get_field vars cls IV_BOARD_FIELD_SN IV_BOARD_SUBFIELD_NONE = Some sn"
    "iv_board_get_field vars cls IV_BOARD_FIELD_NAME IV_BOARD_SUBFIELD_NONE = Some name"
proof -
  have t: "take (MAX_KERN_CMDLINE_FIELD_LEN - 1) (pn @ CHR '','' # sn @ CHR '','' # name) = pn @ CHR '','' # sn @ CHR '','' # name"
    using assms(3) by (intro take_all) (simp add: MAX_KERN_CMDLINE_FIELD_LEN_def)
  note c = clean_no_comma(1) [OF assms(4)] clean_no_comma(1) [OF assms(5)] clean_no_comma(1) [OF assms(6)]
  show "iv_board_get_field vars cls IV_BOARD_FIELD_PN IV_BOARD_SUBFIELD_NONE = Some pn"
    "iv_board_get_field vars cls IV_BOARD_FIELD_SN IV_BOARD_SUBFIELD_NONE = Some sn"
    "iv_board_get_field vars cls IV_BOARD_FIELD_NAME IV_BOARD_SUBFIELD_NONE = Some name"
    using assms(1,2) t c strsep_hit [OF c(1), of "sn @ CHR '','' # name"] strsep_hit [OF c(2), of name] strsep_end [OF c(3)]
    by (simp_all add: iv_board_get_field_def)
qed

text \<open>What is relied on of \<open>isprint\<close>: it holds of the printable ASCII characters.\<close>

definition isprint_ascii :: "(char \<Rightarrow> bool) \<Rightarrow> bool" where
  "isprint_ascii isprint \<longleftrightarrow> (\<forall>c. 0x20 \<le> (of_char c :: nat) \<and> (of_char c :: nat) \<le> 0x7E \<longrightarrow> isprint c)"

lemma filter_none: "c \<notin> set s \<Longrightarrow> filter (\<lambda>x. x = c) s = []"
  by (auto simp: filter_empty_conv)

lemma clean_isprint: "list_all clean s \<Longrightarrow> isprint_ascii isprint \<Longrightarrow> \<forall>c \<in> set s. isprint c"
  unfolding list_all_iff clean_def isprint_ascii_def by blast

lemma spaces_out_id: "CHR '' '' \<notin> set s \<Longrightarrow> spaces_out s = s"
  by (induction s) (auto simp: spaces_out_def)

lemma set_ipmi_env_fields:
  assumes v: "class2string cls = Some v" "vars (v @ ''_forced'') = None \<or> vars (v @ ''_forced'') = Some []"
    and p: "printable pn" "printable sn" "printable name" "length pn + length sn + length name \<le> 61"
    and i: "isprint_ascii isprint"
  shows "\<exists>vars'. set_ipmi_env isprint cls name sn pn vars = Some vars' \<and>
    vars' v = Some (ipmi_norm pn @ '','' @ ipmi_norm sn @ '','' @ ipmi_norm name)"
proof -
  let ?s = "ipmi_norm pn @ '','' @ ipmi_norm sn @ '','' @ ipmi_norm name"
  note cl = ipmi_norm_clean [OF p(1)] ipmi_norm_clean [OF p(2)] ipmi_norm_clean [OF p(3)]
  have "length pn < 64" "length sn < 64" "length name < 64" using p(4) by linarith+
  then have f: "strcpy_ipmi_field MAX_KERN_CMDLINE_FIELD_LEN pn = Some (ipmi_norm pn)"
    "strcpy_ipmi_field MAX_KERN_CMDLINE_FIELD_LEN sn = Some (ipmi_norm sn)"
    "strcpy_ipmi_field MAX_KERN_CMDLINE_FIELD_LEN name = Some (ipmi_norm name)"
    by (simp_all only: strcpy_ipmi_field_def MAX_KERN_CMDLINE_FIELD_LEN_def ipmi_norm_def Let_def not_le [symmetric] if_False)
  have len: "length ?s < 64" using ipmi_norm_length [of pn] ipmi_norm_length [of sn] ipmi_norm_length [of name] p(4) by simp
  have sp: "spaces_out ?s = ?s" by (rule spaces_out_id) (use clean_no_comma(2) [OF cl(1)] clean_no_comma(2) [OF cl(2)] clean_no_comma(2) [OF cl(3)] in simp)
  have "isprint (CHR '','')" using i by (simp add: isprint_ascii_def)
  then have "isprint c" if "c \<in> set ?s" for c
    using that clean_isprint [OF cl(1) i] clean_isprint [OF cl(2) i] clean_isprint [OF cl(3) i] by auto
  moreover have "length (filter (\<lambda>c. c = CHR '','') ?s) = 2" using cl by (simp add: filter_none clean_no_comma(1))
  ultimately have ok: "\<not> board_string_invalid isprint ?s" by (simp add: board_string_invalid_def)
  have ne: "v @ ''_ord'' \<noteq> v" "v @ ''_forced'' \<noteq> v" by simp_all
  have "(env_set v None vars) (v @ ''_forced'') = None \<or> (env_set v None vars) (v @ ''_forced'') = Some []"
    using v(2) by (auto simp: env_set_def)
  then show ?thesis
    using v(1) f len sp ok ne
    by (auto simp: set_ipmi_env_def MAX_KERN_CMDLINE_FIELD_LEN_def env_set_def Let_def split: option.split)
qed

text \<open>The storage of a board yields the bytes of an image.\<close>

definition board_holds :: "ub_env \<Rightarrow> ivfru_board \<Rightarrow> ub \<Rightarrow> byte list \<Rightarrow> bool" where
  "board_holds E board s img \<longleftrightarrow> (\<forall>off n. off + n \<le> length img \<longrightarrow>
     ub_read_from_board E board (int off) (int n) s = Some (IVFRU_RET_SUCCESS, take n (drop off img)))"

lemma board_holdsD:
  "board_holds E board s img \<Longrightarrow> off + n \<le> length img \<Longrightarrow>
   ub_read_from_board E board (int off) (int n) s = Some (IVFRU_RET_SUCCESS, take n (drop off img))"
  by (simp add: board_holds_def)

lemma board_holds_dev:
  "board_holds E board s img \<Longrightarrow> ub_roms s' = ub_roms s \<Longrightarrow> ub_flash s' = ub_flash s \<Longrightarrow> board_holds E board s' img"
  using ub_dev_read [of s' s E board] by (simp add: board_holds_def)

lemma ub_store_frame [simp]:
  "ub_roms (ub_store m s) = ub_roms s" "ub_flash (ub_store m s) = ub_flash s" "ub_vars (ub_store m s) = ub_vars s"
  "ub_image_buffer (ub_store m s) = ub_image_buffer s"
  by (simp_all add: ub_store_def Let_def)

lemma image_len_facts:
  assumes "image_of img ch lenb f pad []"
  shows "length img = 8 + 8 * unat lenb" "14 \<le> length img" "ld img 9 = Some lenb" "ld img 3 = Some 1"
proof -
  have img: "img = ch @ enc_bia lenb f pad" using assms by (simp add: image_of_def)
  show "length img = 8 + 8 * unat lenb" "14 \<le> length img" "ld img 9 = Some lenb"
    using image_size_bound [OF assms] image_lenb [OF assms] img by simp_all
  show "ld img 3 = Some 1" using assms by (auto simp: img image_of_def wf_header_def ld_def nth_append)
qed

lemma get_size_image:
  assumes i: "image_of img ch lenb f pad []" and h: "board_holds E board s img"
  shows "ivfru_get_size_from_storage (uboot_plat E) board s = Some (IVFRU_RET_SUCCESS, int (length img))"
proof -
  note L = image_len_facts [OF i]
  have r: "ub_read_from_board E board 0 8 s = Some (IVFRU_RET_SUCCESS, take 8 img)"
    "ub_read_from_board E board 8 6 s = Some (IVFRU_RET_SUCCESS, take 6 (drop 8 img))"
    using board_holdsD [OF h, of 0 8] board_holdsD [OF h, of 8 6] L(2) by simp_all
  have "ld (take 8 img) 3 = Some 1" "ld (take 6 (drop 8 img)) 1 = Some lenb"
    using L(2-4) by (simp_all add: ld_def)
  then show ?thesis using r L(1) by (simp add: ivfru_get_size_from_storage_def uboot_plat_def sizeof_ch_def sizeof_bia_def)
qed

lemma ub_read_into_array:
  assumes i: "image_of img ch lenb f pad []" "lenb \<noteq> 0x40" and h: "board_holds E board s img"
    and b: "ub_get_buffer s = Some (sp, J)" "length J = length img"
  shows "\<exists>s'. ivfru_read (uboot_plat E) board l True s = Some (IVFRU_RET_SUCCESS, s') \<and> ub_get_buffer s' = Some (sp, img) \<and>
    ub_vars s' = ub_vars s \<and> ub_roms s' = ub_roms s \<and> ub_flash s' = ub_flash s"
proof -
  note L = image_len_facts [OF i(1)]
  let ?m1 = "take 14 img @ drop 14 J"
  let ?s1 = "ub_store ?m1 s"
  have h1: "board_holds E board ?s1 img" by (rule board_holds_dev [OF h]) simp_all
  have r: "ub_read_from_board E board 0 14 s = Some (IVFRU_RET_SUCCESS, take 14 img)"
    "ub_read_from_board E board 14 (int (length img) - 14) ?s1 = Some (IVFRU_RET_SUCCESS, drop 14 img)"
    using board_holdsD [OF h, of 0 14] board_holdsD [OF h1, of 14 "length img - 14"] L(2) by (simp_all add: of_nat_diff)
  have b1: "ub_get_buffer ?s1 = Some (sp, ?m1)" using b L(2) by (intro ub_get_store [OF b(1)]) simp
  have b2: "ub_get_buffer (ub_store img ?s1) = Some (sp, img)" using b L(2) by (intro ub_get_store [OF b1]) simp
  have s1: "stn J 0 (take 14 img) = Some ?m1" using b(2) L(2) by (simp add: stn_def)
  have s2: "stn ?m1 14 (drop 14 img) = Some img" using b(2) L(2) by (simp add: stn_def)
  have l9: "ld ?m1 9 = Some lenb" using L(2,3) by (simp add: ld_def nth_append split: if_splits)
  have sz: "read_rem_size lenb = int (length img) - 14" using i(2) L(1) by (simp add: read_rem_size_def sizeof_bia_def)
  have "ivfru_read (uboot_plat E) board l True s = Some (IVFRU_RET_SUCCESS, ub_store img ?s1)"
    using b(1) b1 r s1 s2 l9 sz
    by (simp add: ivfru_read_def uboot_plat_simps read_into_buffer_def sizeof_ch_def sizeof_bia_def Let_def)
  then show ?thesis using b2 by simp
qed

text \<open>
  C26: a board is identified.  If the storage of a board holds the image of a record with printable
  fields of at most 61 characters together (length byte not 0x40) and no value is forced, then the
  scan succeeds and reports part number, serial number and name of exactly that record, in the form
  without spaces and commas; the RAM is as before.
\<close>

theorem board_scan_identifies:
  assumes i: "image_of img ch lenb f pad []" "lenb \<noteq> 0x40" and h: "board_holds E (boardclass2board cls) s img"
    and v: "class2string cls = Some v" "ub_vars s (v @ ''_forced'') = None"
    and m: "sp \<noteq> 0" "sp \<le> length (ub_ram s)" "\<And>n. length (junk n) = n" and pr: "isprint_ascii isprint"
    and f: "fru_predef f = [mfr, (tn, name), (ts, sn), (tp, pn)]"
    and p: "printable name" "printable sn" "printable pn" "length name + length sn + length pn \<le> 61"
  shows "\<exists>s' out. board_scan_ipmi E isprint sp junk cls s = Some (0, s', out) \<and> ub_ram s' = ub_ram s \<and>
    iv_board_get_field (ub_vars s') cls IV_BOARD_FIELD_PN IV_BOARD_SUBFIELD_NONE = Some (ipmi_norm pn) \<and>
    iv_board_get_field (ub_vars s') cls IV_BOARD_FIELD_SN IV_BOARD_SUBFIELD_NONE = Some (ipmi_norm sn) \<and>
    iv_board_get_field (ub_vars s') cls IV_BOARD_FIELD_NAME IV_BOARD_SUBFIELD_NONE = Some (ipmi_norm name)"
proof -
  let ?board = "boardclass2board cls"
  let ?s0 = "s\<lparr>ub_ram := take sp (ub_ram s) @ junk (length img), ub_image_buffer := sp\<rparr>"
  note L = image_len_facts [OF i(1)]
  have h0: "board_holds E ?board ?s0 img" by (rule board_holds_dev [OF h]) simp_all
  have b0: "ub_get_buffer ?s0 = Some (sp, junk (length img))" using m by (simp add: ub_get_buffer_def)
  obtain s1 where s1: "ivfru_read (uboot_plat E) ?board sp True ?s0 = Some (IVFRU_RET_SUCCESS, s1)"
    "ub_get_buffer s1 = Some (sp, img)" "ub_vars s1 = ub_vars ?s0" "ub_roms s1 = ub_roms ?s0" "ub_flash s1 = ub_flash ?s0"
    using ub_read_into_array [OF i h0 b0, of sp] m(3) by blast
  have mem: "drop sp (ub_ram s1) = img" using s1(2) by (auto simp: ub_get_buffer_def split: if_splits)
  obtain a b c where fs: "ivfru_get_bia_predefined_fields img = Some (a, b, c)" "ldn img (fst a) (snd a) = Some name"
    "ldn img (fst b) (snd b) = Some sn" "ldn img (fst c) (snd c) = Some pn"
    using predefined_fields_data [OF i(1)] f by auto
  obtain vars where e: "set_ipmi_env isprint cls name sn pn (ub_vars s) = Some vars"
    "vars v = Some (ipmi_norm pn @ '','' @ ipmi_norm sn @ '','' @ ipmi_norm name)"
    using set_ipmi_env_fields [OF v(1) _ p(3,2,1) _ pr, of "ub_vars s"] v(2) p(4) by auto
  have len: "length (ipmi_norm pn @ '','' @ ipmi_norm sn @ '','' @ ipmi_norm name) < 64"
    using ipmi_norm_length [of pn] ipmi_norm_length [of sn] ipmi_norm_length [of name] p(4) by simp
  have "img \<noteq> []" using L(2) by auto
  then have "board_scan_ipmi E isprint sp junk cls s =
      Some (0, s1\<lparr>ub_ram := ub_ram s, ub_vars := vars\<rparr>, Some (print_board_info vars cls))"
    using get_size_image [OF i(1) h] L(2) s1(1,3) mem image_validates [OF i(1)] fs e(1)
    by (simp add: board_scan_ipmi_def ub_set_buffer_def Let_def)
  then show ?thesis
    using get_fields [of cls v vars "ipmi_norm pn" "ipmi_norm sn" "ipmi_norm name", OF v(1) e(2) len ipmi_norm_clean [OF p(3)] ipmi_norm_clean [OF p(2)] ipmi_norm_clean [OF p(1)]]
    by simp
qed


text \<open>The EEPROM of the sample board holds the sample image at offset 2.\<close>

definition sample_scan_ub :: ub where
  "sample_scan_ub = sample_ub\<lparr>ub_ram := replicate 8 0, ub_roms := (\<lambda>_ _. [0xFF, 0xFF] @ sample_image)\<rparr>"

lemma sample_board_holds: "board_holds sample_ub_env IVFRU_BOARD_MB sample_scan_ub sample_image"
proof -
  have l: "length sample_image = 40" by code_simp
  have n: "ub_class_node sample_ub_env IVFRU_BOARD_MB = Inr 11" "ub_prop sample_ub_env 11 ''i2c'' = Some [1, 0x50, 2]"
    by (simp_all add: ub_class_node_def sample_ub_env_def)
  show ?thesis
    unfolding board_holds_def
    using l n by (auto simp: ub_read_from_board_def cell_def int32_def ub_read_i2c_def MAX_FRU_FIELD_SIZE_def sample_ub_env_def
        sample_scan_ub_def nat_add_distrib Let_def)
qed

theorem board_scan_identifies_witness:
  "\<exists>s' out. board_scan_ipmi sample_ub_env (\<lambda>_. True) 8 (\<lambda>n. replicate n 0xAA) IV_BOARD_CLASS_MB sample_scan_ub = Some (0, s', out) \<and>
    iv_board_get_field (ub_vars s') IV_BOARD_CLASS_MB IV_BOARD_FIELD_SN IV_BOARD_SUBFIELD_NONE = Some ''001''"
proof -
  have i: "image_of sample_image CH_DEFAULT 4 sample_fru 7 []" using sample_image_of [of "[]"] by simp
  have "ipmi_norm [0x30, 0x30, 0x31] = ''001''" by code_simp
  then show ?thesis
    using board_scan_identifies [OF i, of sample_ub_env IV_BOARD_CLASS_MB sample_scan_ub "''iv_mb''" 8 "\<lambda>n. replicate n 0xAA" "\<lambda>_. True"]
      sample_board_holds
    by (fastforce simp: sample_fru_def sample_scan_ub_def sample_ub_def isprint_ascii_def printable_def)
qed

end
