(* ===== verification/Ocp.thy ===== *)
theory Ocp
  imports Prelude
begin

text \<open>
  The OCP driver (\<open>recipes-kernel/iv-ocp/src/ocp.c\<close>): windows onto address spaces of the FPGA bus, one
  per pair of words in the \<open>reg\<close> property, as character nodes with read, write, seek and mmap.

  The bus is a parameter: a read of some bytes at a kernel address yields them and may change the state
  of the hardware, a write changes it.  A signal during \<open>down_interruptible\<close> and the number of bytes
  the user's buffer can take or give are arguments.  \<open>None\<close> is a call that does not return: an access
  outside the mapping array or through the null pointer, or a semaphore that is never given back.
\<close>

section \<open>State\<close>

record ocp_mapping =
  om_phys :: u64
  om_size :: u64
  om_virt :: u64

record 'h ocp =
  o_sem :: bool
  instance_count :: u32
  num_addr_spaces :: int
  mappings :: "ocp_mapping list option"
  o_bus :: 'h

record 'h ocp_bus =
  bus_rd :: "u64 \<Rightarrow> nat \<Rightarrow> 'h \<Rightarrow> byte list \<times> 'h"
  bus_wr :: "u64 \<Rightarrow> byte list \<Rightarrow> 'h \<Rightarrow> 'h"

definition minor_to_mapping_index :: "u32 \<Rightarrow> nat" where
  "minor_to_mapping_index minor = (if minor = 0 then 0 else unat (minor - 1))"

text \<open>\<open>dev->mappings[minor_to_mapping_index(minor)]\<close>\<close>

definition the_mapping :: "'h ocp \<Rightarrow> u32 \<Rightarrow> ocp_mapping option" where
  "the_mapping d minor = do {
     ms \<leftarrow> mappings d;
     let i = minor_to_mapping_index minor;
     if i < length ms then Some (ms ! i) else None }"

text \<open>\<open>minor > dev->num_addr_spaces\<close>, a comparison of \<open>unsigned int\<close> with \<open>int\<close>.\<close>

definition no_such_space :: "'h ocp \<Rightarrow> u32 \<Rightarrow> bool" where
  "no_such_space d minor \<longleftrightarrow> word_of_int (num_addr_spaces d) < minor"

text \<open>A body between \<open>down_interruptible\<close>, which yields \<open>r\<close> on a signal, and \<open>up\<close>.\<close>

definition with_ocp_sem :: "bool \<Rightarrow> 'r \<Rightarrow> ('h ocp \<Rightarrow> ('r \<times> 'h ocp) option) \<Rightarrow> 'h ocp \<Rightarrow> ('r \<times> 'h ocp) option" where
  "with_ocp_sem intr r body d =
     (if intr then Some (r, d)
      else if o_sem d then do { (x, d) \<leftarrow> body (d\<lparr>o_sem := False\<rparr>); Some (x, d\<lparr>o_sem := True\<rparr>) }
      else None)"

section \<open>File operations\<close>

definition ocp_open :: "bool \<Rightarrow> 'h ocp \<Rightarrow> (int \<times> 'h ocp) option" where
  "ocp_open intr = with_ocp_sem intr (- ERESTARTSYS) (\<lambda>d. Some (0, d\<lparr>instance_count := instance_count d + 1\<rparr>))"

definition ocp_release :: "bool \<Rightarrow> 'h ocp \<Rightarrow> (int \<times> 'h ocp) option" where
  "ocp_release intr = with_ocp_sem intr (- ERESTARTSYS) (\<lambda>d. Some (0, d\<lparr>instance_count := instance_count d - 1\<rparr>))"

text \<open>The checks of read and write: the number of bytes to transfer, or what to return at once.\<close>

definition ocp_check :: "ocp_mapping \<Rightarrow> u64 \<Rightarrow> u64 \<Rightarrow> u64 \<Rightarrow> int + u64" where
  "ocp_check m buf count f_pos =
     (if om_size m \<le> f_pos then Inl 0
      else let count = (if om_size m < f_pos + count then om_size m - f_pos else count) in
        if count mod 4 \<noteq> 0 \<or> (ucast buf :: u32) mod 4 \<noteq> 0 then Inl (- EFAULT) else Inr count)"

text \<open>\<open>u\<close> is how many bytes can be copied to or from the user at \<open>buf\<close>.  The result is the return value,
  the bytes delivered and the new position.\<close>

definition ocp_read ::
  "'h ocp_bus \<Rightarrow> bool \<Rightarrow> nat \<Rightarrow> u64 \<Rightarrow> u64 \<Rightarrow> u64 \<Rightarrow> u32 \<Rightarrow> 'h ocp \<Rightarrow> ((int \<times> byte list \<times> u64) \<times> 'h ocp) option"
where
  "ocp_read B intr u buf count f_pos minor d =
     (if no_such_space d minor then Some ((- ENODEV, [], f_pos), d)
      else with_ocp_sem intr (- ERESTARTSYS, [], f_pos) (\<lambda>d. do {
        m \<leftarrow> the_mapping d minor;
        case ocp_check m buf count f_pos of
          Inl r \<Rightarrow> Some ((r, [], f_pos), d)
        | Inr count \<Rightarrow>
            if om_virt m = 0 \<and> count \<noteq> 0 then None
            else let (xs, h) = bus_rd B (om_virt m + f_pos) (min u (unat count)) (o_bus d); d = d\<lparr>o_bus := h\<rparr> in
              if u < unat count then Some ((- EFAULT, xs, f_pos), d)
              else Some ((sint count, xs, f_pos + count), d) }) d)"

text \<open>\<open>data\<close> is what the user's buffer holds.\<close>

definition ocp_write ::
  "'h ocp_bus \<Rightarrow> bool \<Rightarrow> byte list \<Rightarrow> u64 \<Rightarrow> u64 \<Rightarrow> u64 \<Rightarrow> u32 \<Rightarrow> 'h ocp \<Rightarrow> ((int \<times> u64) \<times> 'h ocp) option"
where
  "ocp_write B intr data buf count f_pos minor d =
     (if no_such_space d minor then Some ((- ENODEV, f_pos), d)
      else with_ocp_sem intr (- ERESTARTSYS, f_pos) (\<lambda>d. do {
        m \<leftarrow> the_mapping d minor;
        case ocp_check m buf count f_pos of
          Inl r \<Rightarrow> Some ((r, f_pos), d)
        | Inr count \<Rightarrow>
            if om_virt m = 0 \<and> count \<noteq> 0 then None
            else let d = d\<lparr>o_bus := bus_wr B (om_virt m + f_pos) (take (unat count) data) (o_bus d)\<rparr> in
              if length data < unat count then Some ((- EFAULT, f_pos), d)
              else Some ((sint count, f_pos + count), d) }) d)"

definition OCP_IOC_MAGIC :: u32 where "OCP_IOC_MAGIC = 111"
definition OCP_IOC_R_INSTANCE_COUNT :: u32 where "OCP_IOC_R_INSTANCE_COUNT = IOR OCP_IOC_MAGIC 0"
definition OCP_IOC_MAXNR :: u32 where "OCP_IOC_MAXNR = 0"

text \<open>The second component is the value put at the user's address; a fault there is not noticed.\<close>

definition ocp_ioctl :: "bool \<Rightarrow> (u32 \<Rightarrow> bool) \<Rightarrow> u32 \<Rightarrow> 'h ocp \<Rightarrow> ((int \<times> u64 option) \<times> 'h ocp) option" where
  "ocp_ioctl intr access_ok cmd d =
     (if IOC_TYPE cmd \<noteq> OCP_IOC_MAGIC then Some ((- ENOTTY, None), d)
      else if OCP_IOC_MAXNR < IOC_NR cmd then Some ((- ENOTTY, None), d)
      else if (IOC_DIR cmd AND 2 \<noteq> 0 \<or> IOC_DIR cmd AND 1 \<noteq> 0) \<and> \<not> access_ok (IOC_SIZE cmd)
      then Some ((- EFAULT, None), d)
      else with_ocp_sem intr (- ERESTARTSYS, None) (\<lambda>d.
        if cmd = OCP_IOC_R_INSTANCE_COUNT then Some ((0, Some (ucast (instance_count d))), d)
        else Some ((- ENOTTY, None), d)) d)"

text \<open>The return value and the file position afterwards; positions are signed.\<close>

definition ocp_llseek :: "bool \<Rightarrow> u64 \<Rightarrow> int \<Rightarrow> u64 \<Rightarrow> u32 \<Rightarrow> 'h ocp \<Rightarrow> ((int \<times> u64) \<times> 'h ocp) option" where
  "ocp_llseek intr off whence f_pos minor d =
     (if no_such_space d minor then Some ((- ENODEV, f_pos), d)
      else with_ocp_sem intr (- ERESTARTSYS, f_pos) (\<lambda>d. do {
        newpos \<leftarrow>
          (if whence = 0 then Some (Some off)
           else if whence = 1 then Some (Some (f_pos + off))
           else if whence = 2 then do { m \<leftarrow> the_mapping d minor; Some (Some (om_size m + off)) }
           else Some None);
        case newpos of
          None \<Rightarrow> Some ((- EINVAL, f_pos), d)
        | Some newpos \<Rightarrow>
            if sint newpos < 0 then Some ((- EINVAL, f_pos), d)
            else if newpos mod 4 \<noteq> 0 then Some ((- EFAULT, f_pos), d)
            else Some ((sint newpos, newpos), d) }) d)"

text \<open>The second component is the range of physical pages given to \<open>remap_pfn_range\<close>, whose result is
  \<open>remap\<close>.  The page frame number is an \<open>unsigned int\<close>, computed from an \<open>unsigned int\<close> address.\<close>

definition ocp_mmap :: "int \<Rightarrow> u64 \<Rightarrow> u64 \<Rightarrow> u64 \<Rightarrow> u32 \<Rightarrow> 'h ocp \<Rightarrow> (int \<times> (u32 \<times> u64) option) option" where
  "ocp_mmap remap vm_start vm_end vm_pgoff minor d =
     (let sz = vm_end - vm_start in
      if no_such_space d minor then Some (- ENODEV, None)
      else do {
        m \<leftarrow> the_mapping d minor;
        let ulPhysStart = (ucast (om_phys m) :: u32);
        let ulPhysStart = (ucast (ucast ulPhysStart + push_bit 12 vm_pgoff) :: u32);
        let available_size = (ucast (om_size m) :: u32);
        if ucast available_size < push_bit 12 vm_pgoff + sz then Some (- EINVAL, None)
        else let pfn = drop_bit 12 ulPhysStart in
          Some (if remap \<noteq> 0 then - EAGAIN else 0, Some (pfn, sz)) })"

section \<open>Probe and removal\<close>

text \<open>What is acquired and released: the region of device numbers with its count, the character
  device, the class, the nodes by minor number, the mappings by kernel address and the two blocks of
  memory.\<close>

datatype ocp_res = Ocp_Region int | Ocp_Cdev | Ocp_Class | Ocp_Node nat | Ocp_Map u64 | Ocp_Mappings | Ocp_Dev

text \<open>What the kernel answers: allocation of the device and of the mappings, the number of 64-bit words in
  \<open>reg\<close> or an error, the words themselves, the results of the registrations (0, or an error) and the
  address of each mapping, 0 on failure.\<close>

record ocp_env =
  pe_kzalloc :: bool
  pe_count :: int
  pe_chrdev :: int
  pe_cdev :: int
  pe_mappings :: bool
  pe_class :: int
  pe_reg :: "nat \<Rightarrow> u64 option"
  pe_ioremap :: "u64 \<Rightarrow> u64 \<Rightarrow> u64"

text \<open>The releases of \<open>ocp_remove\<close>, in its order.\<close>

definition ocp_remove :: "'h ocp \<Rightarrow> ocp_res list" where
  "ocp_remove d =
     (case mappings d of None \<Rightarrow> []
      | Some ms \<Rightarrow> concat (map (\<lambda>i. (if om_virt (ms ! i) \<noteq> 0 then [Ocp_Map (om_virt (ms ! i))] else []) @ [Ocp_Node (i + 1)])
          [0..<nat (num_addr_spaces d)]) @ [Ocp_Mappings])
     @ [Ocp_Node 0, Ocp_Class, Ocp_Cdev, Ocp_Region (num_addr_spaces d), Ocp_Dev]"

text \<open>The loop over the address spaces from \<open>i\<close> with \<open>n\<close> to go: the mappings, what was acquired and whether a
  mapping failed.\<close>

fun probe_maps :: "ocp_env \<Rightarrow> nat \<Rightarrow> nat \<Rightarrow> ocp_mapping list \<Rightarrow> ocp_mapping list \<times> ocp_res list \<times> bool" where
  "probe_maps E 0 i ms = (ms, [], False)"
| "probe_maps E (Suc n) i ms =
     (case pe_reg E (i * 2) of None \<Rightarrow> (ms, [], False)
      | Some phys \<Rightarrow>
          (case pe_reg E (i * 2 + 1) of None \<Rightarrow> (ms[i := (ms ! i)\<lparr>om_phys := phys\<rparr>], [], False)
           | Some sz \<Rightarrow>
               let virt = pe_ioremap E phys sz; ms = ms[i := \<lparr>om_phys = phys, om_size = sz, om_virt = virt\<rparr>] in
               if virt = 0 then (ms, [], True)
               else let (ms, taken, failed) = probe_maps E n (i + 1) ms
                 in (ms, [Ocp_Map virt, Ocp_Node (i + 1)] @ taken, failed)))"

definition ocp_zero :: "int \<Rightarrow> 'h \<Rightarrow> 'h ocp" where
  "ocp_zero n h = \<lparr>o_sem = False, instance_count = 0, num_addr_spaces = n, mappings = None, o_bus = h\<rparr>"

definition zero_mapping :: ocp_mapping where
  "zero_mapping = \<lparr>om_phys = 0, om_size = 0, om_virt = 0\<rparr>"

text \<open>The error code, the device, and what was acquired and released.  The division of the count
  truncates towards zero.  A failed allocation of the device makes \<open>ocp_remove\<close> follow a null pointer.\<close>

definition ocp_probe :: "ocp_env \<Rightarrow> 'h \<Rightarrow> (int \<times> 'h ocp \<times> ocp_res list \<times> ocp_res list) option" where
  "ocp_probe E h =
     (if \<not> pe_kzalloc E then None
      else let n = (if pe_count E < 0 then - (- pe_count E div 2) else pe_count E div 2); d = ocp_zero n h; taken = [Ocp_Dev] in
      if pe_chrdev E \<noteq> 0 then Some (pe_chrdev E, d, taken, ocp_remove d)
      else let taken = taken @ [Ocp_Region (n + 1)] in
      if pe_cdev E \<noteq> 0 then Some (pe_cdev E, d, taken, ocp_remove d)
      else let taken = taken @ [Ocp_Cdev] @ (if pe_mappings E then [Ocp_Mappings] else []);
        d = d\<lparr>mappings := if pe_mappings E then Some (replicate (nat n) zero_mapping) else None\<rparr> in
      if pe_class E \<noteq> 0 then Some (pe_class E, d, taken, [])
      else if \<not> pe_mappings E \<and> 0 < n \<and> pe_reg E 0 \<noteq> None then None
      else let (ms, maps, failed) = probe_maps E (nat n) 0 (replicate (nat n) zero_mapping);
        d = d\<lparr>mappings := map_option (\<lambda>_. ms) (mappings d), o_sem := True\<rparr>; taken = taken @ [Ocp_Class, Ocp_Node 0] @ maps in
      if failed then Some (- ENOMEM, d, taken, ocp_remove d) else Some (0, d, taken, []))"

section \<open>Bounds\<close>

lemma check_bounds:
  assumes "ocp_check m buf count f_pos = Inr c" "unat f_pos + unat count < 2 ^ 64"
  shows "unat f_pos + unat c \<le> unat (om_size m) \<and> 4 dvd unat c"
proof -
  have s: "f_pos < om_size m" "c = (if om_size m < f_pos + count then om_size m - f_pos else count)" "c mod 4 = 0"
    using assms(1) by (auto simp: ocp_check_def Let_def not_le split: if_split_asm)
  have "unat (f_pos + count) = unat f_pos + unat count" using unat_plus_small [of f_pos "unat count"] assms(2) by simp
  then have "unat f_pos + unat c \<le> unat (om_size m)"
    using s(1,2) by (auto simp: word_less_nat_alt unat_sub word_le_nat_alt split: if_split_asm)
  moreover have "unat c mod 4 = 0" using arg_cong [OF s(3), of unat] by (simp add: unat_mod)
  ultimately show ?thesis by (simp add: dvd_eq_mod_eq_0)
qed

text \<open>A mapping that \<open>ocp_probe\<close> left empty, or one of the windows it opened.\<close>

definition good_mapping :: "ocp_env \<Rightarrow> ocp_mapping \<Rightarrow> bool" where
  "good_mapping E m \<longleftrightarrow> om_size m = 0 \<or> om_virt m \<noteq> 0 \<and> om_virt m = pe_ioremap E (om_phys m) (om_size m)"

lemma probe_maps_good:
  assumes "probe_maps E n i ms = (ms', taken, False)" "\<forall>m \<in> set ms. good_mapping E m" "\<forall>j \<ge> i. j < length ms \<longrightarrow> ms ! j = zero_mapping"
  shows "(\<forall>m \<in> set ms'. good_mapping E m) \<and> length ms' = length ms"
  using assms
proof (induction n arbitrary: i ms ms' taken)
  case (Suc n)
  show ?case
  proof (cases "pe_reg E (i * 2)")
    case None
    then show ?thesis using Suc.prems by simp
  next
    case (Some phys)
    show ?thesis
    proof (cases "pe_reg E (i * 2 + 1)")
      case None
      have "good_mapping E m" if "m \<in> set (ms[i := (ms ! i)\<lparr>om_phys := phys\<rparr>])" "i < length ms" for m
        using that Suc.prems(2) set_update_subset_insert [of ms i "(ms ! i)\<lparr>om_phys := phys\<rparr>"] Suc.prems(3)
        by (auto simp: zero_mapping_def good_mapping_def)
      then have "\<forall>m \<in> set (ms[i := (ms ! i)\<lparr>om_phys := phys\<rparr>]). good_mapping E m"
        using Suc.prems(2) by (cases "i < length ms") (auto simp: list_update_beyond)
      then show ?thesis using Suc.prems(1) Some None by auto
    next
      case (Some sz)
      let ?v = "pe_ioremap E phys sz" and ?ms = "ms[i := \<lparr>om_phys = phys, om_size = sz, om_virt = pe_ioremap E phys sz\<rparr>]"
      obtain t where t: "probe_maps E n (i + 1) ?ms = (ms', t, False)" "?v \<noteq> 0"
        using Suc.prems(1) \<open>pe_reg E (i * 2) = Some phys\<close> Some
        by (auto simp: Let_def split: if_split_asm prod.split_asm)
      have "\<forall>m \<in> set ?ms. good_mapping E m"
        using Suc.prems(2) t(2) set_update_subset_insert [of ms i "\<lparr>om_phys = phys, om_size = sz, om_virt = ?v\<rparr>"]
        by (auto simp: good_mapping_def)
      moreover have "\<forall>j \<ge> i + 1. j < length ?ms \<longrightarrow> ?ms ! j = zero_mapping" using Suc.prems(3) by simp
      ultimately show ?thesis using Suc.IH [OF t(1)] by simp
    qed
  qed
qed simp

lemma probe_good:
  assumes "ocp_probe E h = Some (0, d, taken, released)" "0 \<le> pe_count E"
  shows "o_sem d \<and> instance_count d = 0 \<and> num_addr_spaces d = pe_count E div 2 \<and> o_bus d = h \<and>
    (0 < pe_count E div 2 \<and> pe_mappings E \<longrightarrow> (\<exists>ms. mappings d = Some ms \<and> length ms = nat (pe_count E div 2) \<and> (\<forall>m \<in> set ms. good_mapping E m)))"
proof -
  let ?n = "pe_count E div 2"
  obtain ms t f where p: "probe_maps E (nat ?n) 0 (replicate (nat ?n) zero_mapping) = (ms, t, f)" by (metis prod_cases3)
  have f: "\<not> f" and d: "d = (ocp_zero ?n h)\<lparr>mappings := if pe_mappings E then Some ms else None, o_sem := True\<rparr>"
    using assms p by (auto simp: ocp_probe_def Let_def ENOMEM_def split: if_split_asm)
  have "(\<forall>m \<in> set ms. good_mapping E m) \<and> length ms = nat ?n"
    using probe_maps_good [of E "nat ?n" 0 "replicate (nat ?n) zero_mapping" ms t] p f
    by (simp add: good_mapping_def zero_mapping_def)
  then show ?thesis unfolding d by (simp add: ocp_zero_def)
qed

text \<open>A device as \<open>ocp_probe\<close> sets it up, with at least one address space.\<close>

definition ocp_ready :: "ocp_env \<Rightarrow> 'h ocp \<Rightarrow> bool" where
  "ocp_ready E d \<longleftrightarrow> o_sem d \<and> 0 < num_addr_spaces d \<and> num_addr_spaces d < 2 ^ 31 \<and>
     (\<exists>ms. mappings d = Some ms \<and> length ms = nat (num_addr_spaces d) \<and> (\<forall>m \<in> set ms. good_mapping E m))"

lemma ready_mapping:
  assumes "ocp_ready E d" "\<not> no_such_space d minor"
  shows "\<exists>m. the_mapping d minor = Some m \<and> good_mapping E m"
proof -
  obtain ms where ms: "mappings d = Some ms" "length ms = nat (num_addr_spaces d)" "\<forall>m \<in> set ms. good_mapping E m"
    and n: "0 < num_addr_spaces d" "num_addr_spaces d < 2 ^ 31" using assms(1) by (auto simp: ocp_ready_def)
  have "unat (word_of_int (num_addr_spaces d) :: u32) = nat (num_addr_spaces d)"
    using n by (simp add: unsigned_of_int take_bit_int_eq_self)
  then have "unat minor \<le> length ms" using assms(2) ms(2) by (simp add: no_such_space_def word_less_nat_alt)
  then have "unat minor - 1 < length ms" and l: "0 < length ms" using ms(2) n(1) by simp_all
  moreover have "unat (minor - 1) = unat minor - 1" if "minor \<noteq> 0" using that by (simp add: unat_minus_one)
  ultimately have "minor_to_mapping_index minor < length ms"
    using l by (simp add: minor_to_mapping_index_def)
  then show ?thesis using ms(1,3) by (simp add: the_mapping_def)
qed

lemma check_good:
  "good_mapping E m \<Longrightarrow> ocp_check m buf count f_pos = Inr c \<Longrightarrow>
    om_virt m \<noteq> 0 \<and> om_virt m = pe_ioremap E (om_phys m) (om_size m)"
  by (auto simp: good_mapping_def ocp_check_def)

text \<open>Whether a state of the bus results from the given one by at most one access, made within the
  window of the node.\<close>

definition within_window :: "ocp_env \<Rightarrow> 'h ocp \<Rightarrow> u32 \<Rightarrow> u64 \<Rightarrow> (u64 \<Rightarrow> nat \<Rightarrow> 'h \<Rightarrow> bool) \<Rightarrow> 'h \<Rightarrow> bool" where
  "within_window E d minor f_pos P h \<longleftrightarrow> h = o_bus d \<or>
     (\<exists>m n. the_mapping d minor = Some m \<and> om_virt m = pe_ioremap E (om_phys m) (om_size m) \<and>
       unat f_pos + n \<le> unat (om_size m) \<and> P (om_virt m + f_pos) n h)"

lemma the_mapping_sem [simp]: "the_mapping (d\<lparr>o_sem := b\<rparr>) minor = the_mapping d minor"
  by (simp add: the_mapping_def)

lemma ocp_read_bounded:
  assumes "ocp_ready E d" "unat f_pos + unat count < 2 ^ 64"
  shows "\<exists>r xs p d'. ocp_read B intr u buf count f_pos minor d = Some ((r, xs, p), d') \<and>
    within_window E d minor f_pos (\<lambda>a n h. h = snd (bus_rd B a n (o_bus d))) (o_bus d')"
proof (cases "no_such_space d minor \<or> intr")
  case True
  then show ?thesis by (auto simp: ocp_read_def with_ocp_sem_def within_window_def)
next
  case False
  then obtain m where m: "the_mapping d minor = Some m" "good_mapping E m" using ready_mapping [OF assms(1)] by blast
  show ?thesis
  proof (cases "ocp_check m buf count f_pos")
    case (Inl r)
    then show ?thesis using False m assms(1) by (simp add: ocp_read_def with_ocp_sem_def within_window_def ocp_ready_def)
  next
    case (Inr c)
    have b: "unat f_pos + min u (unat c) \<le> unat (om_size m)" "om_virt m \<noteq> 0"
      "om_virt m = pe_ioremap E (om_phys m) (om_size m)"
      using check_bounds [OF Inr assms(2)] check_good [OF m(2) Inr] by auto
    obtain xs h where r: "bus_rd B (om_virt m + f_pos) (min u (unat c)) (o_bus d) = (xs, h)" by force
    have "within_window E d minor f_pos (\<lambda>a n h. h = snd (bus_rd B a n (o_bus d))) h"
      unfolding within_window_def using m(1) b r by (metis snd_conv)
    then show ?thesis using False m(1) assms(1) Inr r b(2) by (auto simp: ocp_read_def with_ocp_sem_def ocp_ready_def Let_def)
  qed
qed

lemma ocp_write_bounded:
  assumes "ocp_ready E d" "unat f_pos + unat count < 2 ^ 64"
  shows "\<exists>r p d'. ocp_write B intr data buf count f_pos minor d = Some ((r, p), d') \<and>
    within_window E d minor f_pos (\<lambda>a n h. \<exists>xs. length xs = n \<and> h = bus_wr B a xs (o_bus d)) (o_bus d')"
proof (cases "no_such_space d minor \<or> intr")
  case True
  then show ?thesis by (auto simp: ocp_write_def with_ocp_sem_def within_window_def)
next
  case False
  then obtain m where m: "the_mapping d minor = Some m" "good_mapping E m" using ready_mapping [OF assms(1)] by blast
  show ?thesis
  proof (cases "ocp_check m buf count f_pos")
    case (Inl r)
    then show ?thesis using False m assms(1) by (simp add: ocp_write_def with_ocp_sem_def within_window_def ocp_ready_def)
  next
    case (Inr c)
    let ?xs = "take (unat c) data"
    have b: "unat f_pos + length ?xs \<le> unat (om_size m)" "om_virt m \<noteq> 0"
      "om_virt m = pe_ioremap E (om_phys m) (om_size m)"
      using check_bounds [OF Inr assms(2)] check_good [OF m(2) Inr] by auto
    have "within_window E d minor f_pos (\<lambda>a n h. \<exists>xs. length xs = n \<and> h = bus_wr B a xs (o_bus d))
        (bus_wr B (om_virt m + f_pos) ?xs (o_bus d))"
      unfolding within_window_def using m(1) b by metis
    then show ?thesis using False m(1) assms(1) Inr b(2) by (auto simp: ocp_write_def with_ocp_sem_def ocp_ready_def Let_def)
  qed
qed

section \<open>Reachable states\<close>

record ocp_file =
  oc_minor :: u32
  oc_pos :: u64

text \<open>The device, its open files, and the number of files whose release was interrupted.\<close>

type_synonym 'h ocp_sys = "'h ocp \<times> (nat \<rightharpoonup> ocp_file) \<times> nat"

text \<open>The calls of programs.  A transfer is below 2 GB, as the kernel sees to.  \<open>pread\<close> and \<open>pwrite\<close> bring a
  position of their own.  A file is gone after its release, whatever that returns.\<close>

inductive ocp_step :: "'h ocp_bus \<Rightarrow> 'h ocp_sys \<Rightarrow> 'h ocp_sys \<Rightarrow> bool" for B :: "'h ocp_bus" where
  os_open: "ocp_open intr d = Some (0, d') \<Longrightarrow> fs k = None \<Longrightarrow>
    ocp_step B (d, fs, n) (d', fs(k \<mapsto> \<lparr>oc_minor = minor, oc_pos = 0\<rparr>), n)"
| os_release: "ocp_release intr d = Some (r, d') \<Longrightarrow> fs k = Some f \<Longrightarrow>
    ocp_step B (d, fs, n) (d', fs(k := None), if r = 0 then n else n + 1)"
| os_read: "fs k = Some f \<Longrightarrow> unat count < 2 ^ 31 \<Longrightarrow>
    ocp_read B intr u buf count (oc_pos f) (oc_minor f) d = Some ((r, xs, p), d') \<Longrightarrow>
    ocp_step B (d, fs, n) (d', fs(k \<mapsto> f\<lparr>oc_pos := p\<rparr>), n)"
| os_write: "fs k = Some f \<Longrightarrow> unat count < 2 ^ 31 \<Longrightarrow>
    ocp_write B intr data buf count (oc_pos f) (oc_minor f) d = Some ((r, p), d') \<Longrightarrow>
    ocp_step B (d, fs, n) (d', fs(k \<mapsto> f\<lparr>oc_pos := p\<rparr>), n)"
| os_pread: "fs k = Some f \<Longrightarrow> ocp_read B intr u buf count pos (oc_minor f) d = Some ((r, xs, p), d') \<Longrightarrow>
    ocp_step B (d, fs, n) (d', fs, n)"
| os_pwrite: "fs k = Some f \<Longrightarrow> ocp_write B intr data buf count pos (oc_minor f) d = Some ((r, p), d') \<Longrightarrow>
    ocp_step B (d, fs, n) (d', fs, n)"
| os_llseek: "fs k = Some f \<Longrightarrow> ocp_llseek intr off whence (oc_pos f) (oc_minor f) d = Some ((r, p), d') \<Longrightarrow>
    ocp_step B (d, fs, n) (d', fs(k \<mapsto> f\<lparr>oc_pos := p\<rparr>), n)"
| os_ioctl: "ocp_ioctl intr access_ok cmd d = Some ((r, x), d') \<Longrightarrow> ocp_step B (d, fs, n) (d', fs, n)"

text \<open>A file position is not negative and a multiple of four.\<close>

definition good_pos :: "u64 \<Rightarrow> bool" where
  "good_pos p \<longleftrightarrow> unat p < 2 ^ 63 \<and> 4 dvd unat p"

lemma sem_frame:
  assumes "with_ocp_sem intr r0 body d = Some (r, d')"
    and "\<And>r d1 d2. body d1 = Some (r, d2) \<Longrightarrow> mappings d2 = mappings d1 \<and> num_addr_spaces d2 = num_addr_spaces d1 \<and> instance_count d2 = instance_count d1"
  shows "o_sem d' = o_sem d \<and> mappings d' = mappings d \<and> num_addr_spaces d' = num_addr_spaces d \<and> instance_count d' = instance_count d"
  using assms(1) by (auto simp: with_ocp_sem_def elim!: option_bindE dest!: assms(2) split: if_split_asm)

lemma ocp_frames:
  "ocp_read B intr u buf count pos minor d = Some ((r, xs, p), d') \<Longrightarrow> o_sem d' = o_sem d \<and> mappings d' = mappings d \<and>
    num_addr_spaces d' = num_addr_spaces d \<and> instance_count d' = instance_count d"
  "ocp_write B intr data buf count pos minor d = Some ((r, p), d') \<Longrightarrow> o_sem d' = o_sem d \<and> mappings d' = mappings d \<and>
    num_addr_spaces d' = num_addr_spaces d \<and> instance_count d' = instance_count d"
  "ocp_llseek intr off whence pos minor d = Some ((r, p), d') \<Longrightarrow> o_sem d' = o_sem d \<and> mappings d' = mappings d \<and>
    num_addr_spaces d' = num_addr_spaces d \<and> instance_count d' = instance_count d"
  "ocp_ioctl intr access_ok cmd d = Some ((r, x), d') \<Longrightarrow> o_sem d' = o_sem d \<and> mappings d' = mappings d \<and>
    num_addr_spaces d' = num_addr_spaces d \<and> instance_count d' = instance_count d"
  by (auto simp: ocp_read_def ocp_write_def ocp_llseek_def ocp_ioctl_def Let_def
      dest!: sem_frame elim!: option_bindE split: if_split_asm sum.split_asm option.split_asm prod.split_asm)

definition small_windows :: "'h ocp \<Rightarrow> bool" where
  "small_windows d \<longleftrightarrow> (\<forall>ms. mappings d = Some ms \<longrightarrow> (\<forall>m \<in> set ms. unat (om_size m) < 2 ^ 63))"

lemma small_windowsD: "small_windows d \<Longrightarrow> the_mapping d minor = Some m \<Longrightarrow> unat (om_size m) < 2 ^ 63"
  by (auto simp: small_windows_def the_mapping_def Let_def elim!: option_bindE split: if_split_asm)

lemma advance_good:
  assumes "ocp_check m buf count p = Inr c" "good_pos p" "unat count < 2 ^ 31" "unat (om_size m) < 2 ^ 63"
  shows "good_pos (p + c)"
proof -
  have "unat p + unat count < 2 ^ 64" using assms(2,3) by (simp add: good_pos_def)
  from check_bounds [OF assms(1) this] have c: "unat p + unat c \<le> unat (om_size m)" "4 dvd unat c" by auto
  then have "unat (p + c) = unat p + unat c" using unat_plus_small [of p "unat c"] assms(4) by simp
  then show ?thesis using c assms(2,4) by (simp add: good_pos_def)
qed

lemma sint_nonneg_bound: "0 \<le> sint (p :: u64) \<Longrightarrow> unat p < 2 ^ 63"
proof -
  assume "0 \<le> sint p"
  then have "\<not> bit p 63" by (simp add: sint_uint signed_take_bit_negative_iff not_less [symmetric] bit_uint_iff)
  then have "n < 63" if "bit p n" "n < 64" for n using that by (cases "n = 63") auto
  then have "take_bit 63 p = p" by (intro bit_eqI) (auto simp: bit_simps)
  then have "unat p = unat p mod 2 ^ 63" by (metis take_bit_eq_mod unsigned_take_bit_eq)
  then show ?thesis by (metis mod_less_divisor zero_less_numeral zero_less_power)
qed

lemma positions_good:
  assumes "small_windows d" "good_pos p"
  shows "unat count < 2 ^ 31 \<Longrightarrow> ocp_read B intr u buf count p minor d = Some ((r, xs, p'), d') \<Longrightarrow> good_pos p'"
    "unat count < 2 ^ 31 \<Longrightarrow> ocp_write B intr data buf count p minor d = Some ((r, p'), d') \<Longrightarrow> good_pos p'"
    "ocp_llseek intr off whence p minor d = Some ((r, p'), d') \<Longrightarrow> good_pos p'"
proof -
  have m: "unat (om_size m) < 2 ^ 63" if "the_mapping d minor = Some m" for m using small_windowsD [OF assms(1) that] .
  have g: "good_pos q" if "0 \<le> sint q" "q mod 4 = 0" for q
    using sint_nonneg_bound [OF that(1)] arg_cong [OF that(2), of unat] by (auto simp: good_pos_def unat_mod dvd_eq_mod_eq_0)
  show "good_pos p'" if "unat count < 2 ^ 31" "ocp_read B intr u buf count p minor d = Some ((r, xs, p'), d')"
    using that(2) assms(2) advance_good [OF _ assms(2) that(1) m]
    by (auto simp: ocp_read_def with_ocp_sem_def Let_def elim!: option_bindE split: if_split_asm sum.split_asm prod.split_asm)
  show "good_pos p'" if "unat count < 2 ^ 31" "ocp_write B intr data buf count p minor d = Some ((r, p'), d')"
    using that(2) assms(2) advance_good [OF _ assms(2) that(1) m]
    by (auto simp: ocp_write_def with_ocp_sem_def Let_def elim!: option_bindE split: if_split_asm sum.split_asm)
  show "good_pos p'" if "ocp_llseek intr off whence p minor d = Some ((r, p'), d')"
    using that assms(2) g
    by (auto simp: ocp_llseek_def with_ocp_sem_def not_less elim!: option_bindE split: if_split_asm option.split_asm)
qed

definition ocp_inv :: "'h ocp \<Rightarrow> 'h ocp_sys \<Rightarrow> bool" where
  "ocp_inv d0 s \<longleftrightarrow> (case s of (d, fs, n) \<Rightarrow>
     o_sem d \<and> mappings d = mappings d0 \<and> num_addr_spaces d = num_addr_spaces d0 \<and>
     finite (dom fs) \<and> instance_count d = of_nat (card (dom fs) + n) \<and> (\<forall>k f. fs k = Some f \<longrightarrow> good_pos (oc_pos f)))"

lemma small_windows_cong: "mappings d = mappings d0 \<Longrightarrow> small_windows d = small_windows d0"
  by (simp add: small_windows_def)

lemma dom_upd_same: "fs k = Some f \<Longrightarrow> dom (fs(k \<mapsto> g)) = dom fs"
  by auto

lemma ocp_inv_frame:
  assumes "ocp_inv d0 (d, fs, n)" "fs k = Some f" "good_pos p"
    and "o_sem d' = o_sem d \<and> mappings d' = mappings d \<and> num_addr_spaces d' = num_addr_spaces d \<and> instance_count d' = instance_count d"
  shows "ocp_inv d0 (d', fs(k \<mapsto> f\<lparr>oc_pos := p\<rparr>), n)"
  using assms dom_upd_same [of fs k f "f\<lparr>oc_pos := p\<rparr>"] by (auto simp: ocp_inv_def)

lemma ocp_step_inv:
  assumes "small_windows d0" "ocp_step B s s'" "ocp_inv d0 s"
  shows "ocp_inv d0 s'"
  using assms(2,3)
proof cases
  case (os_open intr d d' fs k n minor)
  have "k \<notin> dom fs" using os_open by auto
  then have c: "card (dom (fs(k \<mapsto> \<lparr>oc_minor = minor, oc_pos = 0\<rparr>))) = card (dom fs) + 1"
    using assms(3) os_open(1) by (simp add: ocp_inv_def)
  show ?thesis
    using os_open assms(3) c by (auto simp: ocp_open_def with_ocp_sem_def ocp_inv_def good_pos_def ERESTARTSYS_def split: if_split_asm)
next
  case (os_release intr d r d' fs k f n)
  have c: "card (dom fs) = card (dom (fs(k := None))) + 1" "finite (dom (fs(k := None)))"
  proof -
    have "k \<in> dom fs" "finite (dom fs)" using os_release assms(3) by (auto simp: ocp_inv_def)
    then show "card (dom fs) = card (dom (fs(k := None))) + 1" "finite (dom (fs(k := None)))"
      using card_Suc_Diff1 [of "dom fs" k] by simp_all
  qed
  then show ?thesis
    using os_release assms(3) by (auto simp: ocp_release_def with_ocp_sem_def ocp_inv_def ERESTARTSYS_def split: if_split_asm)
next
  case (os_read fs k f count intr u buf d r xs p d' n)
  have w: "small_windows d" "good_pos (oc_pos f)" using assms(1,3) os_read small_windows_cong [of d d0] by (auto simp: ocp_inv_def)
  show ?thesis unfolding os_read
    by (rule ocp_inv_frame [of d0 d fs n k f p d'])
       (use assms(3) os_read positions_good(1) [OF w os_read(4,5)] ocp_frames(1) [OF os_read(5)] in auto)
next
  case (os_write fs k f count intr data buf d r p d' n)
  have w: "small_windows d" "good_pos (oc_pos f)" using assms(1,3) os_write small_windows_cong [of d d0] by (auto simp: ocp_inv_def)
  show ?thesis unfolding os_write
    by (rule ocp_inv_frame [of d0 d fs n k f p d'])
       (use assms(3) os_write positions_good(2) [OF w os_write(4,5)] ocp_frames(2) [OF os_write(5)] in auto)
next
  case (os_llseek fs k f intr off whence d r p d' n)
  have w: "small_windows d" "good_pos (oc_pos f)" using assms(1,3) os_llseek small_windows_cong [of d d0] by (auto simp: ocp_inv_def)
  show ?thesis unfolding os_llseek
    by (rule ocp_inv_frame [of d0 d fs n k f p d'])
       (use assms(3) os_llseek positions_good(3) [OF w os_llseek(4)] ocp_frames(3) [OF os_llseek(4)] in auto)
qed (auto simp: ocp_inv_def dest!: ocp_frames)

lemma ocp_steps_inv: "(ocp_step B)\<^sup>*\<^sup>* s s' \<Longrightarrow> small_windows d0 \<Longrightarrow> ocp_inv d0 s \<Longrightarrow> ocp_inv d0 s'"
  by (induction rule: rtranclp_induct) (auto dest: ocp_step_inv)

section \<open>Properties\<close>

lemma probe_inv:
  assumes "ocp_probe E h = Some (0, d0, taken, released)" "0 \<le> pe_count E"
  shows "ocp_inv d0 (d0, Map.empty, 0)"
  using probe_good [OF assms] by (simp add: ocp_inv_def)

text \<open>An example: a bus that is a memory, and a device tree node with two address spaces.\<close>

definition sample_bus :: "(u64 \<Rightarrow> byte) ocp_bus" where
  "sample_bus = \<lparr>bus_rd = (\<lambda>a n h. (map (\<lambda>i. h (a + of_nat i)) [0..<n], h)),
     bus_wr = (\<lambda>a xs h x. if unat (x - a) < length xs then xs ! unat (x - a) else h x)\<rparr>"

definition sample_ocp_env :: ocp_env where
  "sample_ocp_env = \<lparr>pe_kzalloc = True, pe_count = 4, pe_chrdev = 0, pe_cdev = 0, pe_mappings = True, pe_class = 0,
     pe_reg = (\<lambda>i. if i < 4 then Some ([0x43C00000, 0x1000, 0x43C10000, 0x2000] ! i) else None),
     pe_ioremap = (\<lambda>phys sz. phys + 0xFFFF000000000000)\<rparr>"

definition sample_ocp :: "(u64 \<Rightarrow> byte) ocp" where
  "sample_ocp = \<lparr>o_sem = True, instance_count = 0, num_addr_spaces = 2,
     mappings = Some [\<lparr>om_phys = 0x43C00000, om_size = 0x1000, om_virt = 0xFFFF000043C00000\<rparr>,
       \<lparr>om_phys = 0x43C10000, om_size = 0x2000, om_virt = 0xFFFF000043C10000\<rparr>], o_bus = (\<lambda>_. 0)\<rparr>"

lemma sample_maps:
  "probe_maps sample_ocp_env 2 0 (replicate 2 zero_mapping) =
     ([\<lparr>om_phys = 0x43C00000, om_size = 0x1000, om_virt = 0xFFFF000043C00000\<rparr>,
       \<lparr>om_phys = 0x43C10000, om_size = 0x2000, om_virt = 0xFFFF000043C10000\<rparr>],
      [Ocp_Map 0xFFFF000043C00000, Ocp_Node 1, Ocp_Map 0xFFFF000043C10000, Ocp_Node 2], False)"
  by code_simp

lemma sample_probe:
  "ocp_probe sample_ocp_env (\<lambda>_. 0) = Some (0, sample_ocp, [Ocp_Dev, Ocp_Region 3, Ocp_Cdev, Ocp_Mappings, Ocp_Class, Ocp_Node 0,
     Ocp_Map 0xFFFF000043C00000, Ocp_Node 1, Ocp_Map 0xFFFF000043C10000, Ocp_Node 2], [])"
  using sample_maps by (simp add: ocp_probe_def sample_ocp_env_def sample_ocp_def ocp_zero_def)

lemma sample_small: "small_windows sample_ocp"
  by (simp add: small_windows_def sample_ocp_def)

lemma sample_open:
  "(ocp_step sample_bus)\<^sup>*\<^sup>* (sample_ocp, Map.empty, 0)
     (sample_ocp\<lparr>instance_count := 1\<rparr>, [5 \<mapsto> \<lparr>oc_minor = 2, oc_pos = 0\<rparr>], 0)"
  by (rule r_into_rtranclp, rule os_open [where intr = False]) (simp_all add: ocp_open_def with_ocp_sem_def sample_ocp_def)

lemma sample_windows:
  "the_mapping sample_ocp 2 = Some \<lparr>om_phys = 0x43C10000, om_size = 0x2000, om_virt = 0xFFFF000043C10000\<rparr>" "\<not> no_such_space sample_ocp 2"
  by (simp_all add: the_mapping_def sample_ocp_def minor_to_mapping_index_def no_such_space_def)



text \<open>
  C39: accesses stay within the window.  After a successful probe with at least one address space and
  any sequence of calls, a read or write on any node, at any position and with any length, returns,
  and has made at most one access to the bus, which lies within the window of that node.
\<close>

theorem ocp_stays_in_window:
  assumes "ocp_probe E h = Some (0, d0, taken, released)" "2 \<le> pe_count E" "pe_count E < 2 ^ 31" "pe_mappings E" "small_windows d0"
    and "(ocp_step B)\<^sup>*\<^sup>* (d0, Map.empty, 0) (d, fs, n)" "unat f_pos + unat count < 2 ^ 64"
  shows "(\<exists>r xs p d'. ocp_read B intr u buf count f_pos minor d = Some ((r, xs, p), d') \<and>
      within_window E d minor f_pos (\<lambda>a n h. h = snd (bus_rd B a n (o_bus d))) (o_bus d')) \<and>
    (\<exists>r p d'. ocp_write B intr data buf count f_pos minor d = Some ((r, p), d') \<and>
      within_window E d minor f_pos (\<lambda>a n h. \<exists>xs. length xs = n \<and> h = bus_wr B a xs (o_bus d)) (o_bus d'))"
proof -
  have c: "0 \<le> pe_count E" using assms(2) by simp
  have "ocp_ready E d"
    using ocp_steps_inv [OF assms(6,5) probe_inv [OF assms(1) c]] probe_good [OF assms(1) c] assms(2-4)
    by (auto simp: ocp_inv_def ocp_ready_def)
  then show ?thesis
    by (intro conjI ocp_read_bounded [OF _ assms(7)] ocp_write_bounded [OF _ assms(7)])
qed

theorem ocp_stays_in_window_witness:
  "\<exists>r xs p d'. ocp_read sample_bus False 4096 0x1000 4096 0x1800 2 (sample_ocp\<lparr>instance_count := 1\<rparr>) = Some ((r, xs, p), d') \<and>
    within_window sample_ocp_env (sample_ocp\<lparr>instance_count := 1\<rparr>) 2 0x1800 (\<lambda>a n h. h = snd (bus_rd sample_bus a n (\<lambda>_. 0))) (o_bus d')"
proof -
  have "2 \<le> pe_count sample_ocp_env" "pe_count sample_ocp_env < 2 ^ 31" "pe_mappings sample_ocp_env" by (simp_all add: sample_ocp_env_def)
  moreover have "unat (0x1800 :: u64) + unat (4096 :: u64) < 2 ^ 64" "o_bus (sample_ocp\<lparr>instance_count := 1\<rparr>) = (\<lambda>_. 0)"
    by (simp_all add: sample_ocp_def)
  ultimately show ?thesis
    using conjunct1 [OF ocp_stays_in_window [OF sample_probe _ _ _ sample_small sample_open, where f_pos = "0x1800" and count = 4096]] by simp
qed

text \<open>A bus that behaves as memory: \<open>mem\<close> is its contents.\<close>

definition plain_bus :: "'h ocp_bus \<Rightarrow> ('h \<Rightarrow> u64 \<Rightarrow> byte) \<Rightarrow> bool" where
  "plain_bus B mem \<longleftrightarrow>
     (\<forall>a n h. bus_rd B a n h = (map (\<lambda>i. mem h (a + of_nat i)) [0..<n], h)) \<and>
     (\<forall>a xs h x. mem (bus_wr B a xs h) x = (if unat (x - a) < length xs then xs ! unat (x - a) else mem h x))"

lemma sint_of_nat64: "n < 2 ^ 63 \<Longrightarrow> sint (of_nat n :: u64) = int n"
proof -
  assume n: "n < 2 ^ 63"
  then have "uint (of_nat n :: u64) = int n" by (simp add: unsigned_of_nat take_bit_nat_eq_self)
  then show ?thesis using n by (simp add: sint_uint signed_take_bit_int_eq_self_iff)
qed

lemma of_nat_mod4: "4 dvd n \<Longrightarrow> (of_nat n :: u64) mod 4 = 0"
proof (rule word_unat_eq_iff [THEN iffD2])
  assume "4 dvd n"
  moreover have "unat (of_nat n :: u64) = n mod 2 ^ 64" by (simp add: unsigned_of_nat take_bit_eq_mod)
  ultimately show "unat ((of_nat n :: u64) mod 4) = unat (0 :: u64)" by (simp add: unat_mod mod_mod_cancel)
qed

lemma check_fits:
  assumes "off + l \<le> unat (om_size m)" "0 < l" "4 dvd l" "(ucast buf :: u32) mod 4 = 0"
  shows "ocp_check m buf (of_nat l) (of_nat off) = Inr (of_nat l)"
proof -
  have s: "unat (om_size m) < 2 ^ LENGTH(64)" by (rule unsigned_less)
  have u: "unat (of_nat l :: u64) = l" "unat (of_nat off :: u64) = off" "unat (of_nat off + of_nat l :: u64) = off + l"
    using assms(1) s by (simp_all add: unat_of_nat of_nat_add [symmetric] del: of_nat_add)
  show ?thesis
    using assms of_nat_mod4 [OF assms(3)] u by (simp add: ocp_check_def Let_def word_le_nat_alt word_less_nat_alt)
qed

text \<open>
  C40: what is written is read back.  On a bus that behaves as memory, a program that seeks to an aligned
  offset, writes some words, seeks back and reads as many gets what it wrote, and nothing outside of the
  words written has changed.
\<close>

theorem ocp_write_read:
  assumes "plain_bus B mem" "o_sem d" "\<not> no_such_space d minor" "the_mapping d minor = Some m" "om_virt m \<noteq> 0"
    and "4 dvd off" "4 dvd length xs" "xs \<noteq> []" "off + length xs \<le> unat (om_size m)" "unat (om_size m) < 2 ^ 63"
    and "(ucast buf :: u32) mod 4 = 0" "(ucast buf' :: u32) mod 4 = 0"
  shows "\<exists>d1 d2 d3 d4. ocp_llseek False (of_nat off) 0 p minor d = Some ((int off, of_nat off), d1) \<and>
    ocp_write B False xs buf (of_nat (length xs)) (of_nat off) minor d1 = Some ((int (length xs), of_nat (off + length xs)), d2) \<and>
    ocp_llseek False (of_nat off) 0 (of_nat (off + length xs)) minor d2 = Some ((int off, of_nat off), d3) \<and>
    ocp_read B False (length xs) buf' (of_nat (length xs)) (of_nat off) minor d3 =
      Some ((int (length xs), xs, of_nat (off + length xs)), d4) \<and>
    (\<forall>a. length xs \<le> unat (a - (om_virt m + of_nat off)) \<longrightarrow> mem (o_bus d4) a = mem (o_bus d) a)"
proof -
  let ?a = "om_virt m + of_nat off" and ?l = "length xs"
  let ?d2 = "d\<lparr>o_bus := bus_wr B ?a xs (o_bus d)\<rparr>"
  have l: "off < 2 ^ 63" "?l < 2 ^ 63" "0 < ?l" using assms(8-10) by simp_all
  have u: "unat (of_nat ?l :: u64) = ?l" using l(2) by (simp add: unat_of_nat)
  have seek: "ocp_llseek False (of_nat off) 0 q minor e = Some ((int off, of_nat off), e)" if "o_sem e" "\<not> no_such_space e minor" for q e
    using that l(1) of_nat_mod4 [OF assms(6)] by (simp add: ocp_llseek_def with_ocp_sem_def sint_of_nat64)
  have ok: "o_sem ?d2" "\<not> no_such_space ?d2 minor" "the_mapping ?d2 minor = Some m"
    using assms(2-4) by (simp_all add: no_such_space_def the_mapping_def)
  note c = check_fits [OF assms(9) l(3) assms(7)]
  have w: "ocp_write B False xs buf (of_nat ?l) (of_nat off) minor d = Some ((int ?l, of_nat (off + ?l)), ?d2)"
    using assms(2-5) c [OF assms(11)] u l(2) by (simp add: ocp_write_def with_ocp_sem_def sint_of_nat64)
  have "unat (of_nat i :: u64) = i" if "i < ?l" for i using that l(2) by (simp add: unat_of_nat)
  then have "map (\<lambda>i. mem (bus_wr B ?a xs (o_bus d)) (?a + of_nat i)) [0..<?l] = xs"
    using assms(1) by (intro nth_equalityI) (simp_all add: plain_bus_def)
  then have r: "ocp_read B False ?l buf' (of_nat ?l) (of_nat off) minor ?d2 = Some ((int ?l, xs, of_nat (off + ?l)), ?d2)"
    using ok assms(1,5) c [OF assms(12)] u l(2) by (simp add: ocp_read_def with_ocp_sem_def sint_of_nat64 plain_bus_def)
  show ?thesis using seek [OF assms(2,3)] w seek [OF ok(1,2)] r assms(1) by (auto simp: plain_bus_def)
qed

theorem ocp_write_read_witness:
  "\<exists>d1 d2 d3 d4. ocp_llseek False 8 0 0 2 sample_ocp = Some ((8, 8), d1) \<and>
    ocp_write sample_bus False [1, 2, 3, 4] 0x1000 4 8 2 d1 = Some ((4, 12), d2) \<and>
    ocp_llseek False 8 0 12 2 d2 = Some ((8, 8), d3) \<and>
    ocp_read sample_bus False 4 0x2000 4 8 2 d3 = Some ((4, [1, 2, 3, 4], 12), d4) \<and> o_bus d4 0xFFFF000043C10000 = 0"
proof -
  let ?m = "\<lparr>om_phys = 0x43C10000, om_size = 0x2000, om_virt = 0xFFFF000043C10000\<rparr>"
  have 1: "plain_bus sample_bus (\<lambda>h. h)" "o_sem sample_ocp" by (auto simp: plain_bus_def sample_bus_def sample_ocp_def)
  have 2: "(ucast (0x1000 :: u64) :: u32) mod 4 = 0" "(ucast (0x2000 :: u64) :: u32) mod 4 = 0" by code_simp+
  have 4: "4 dvd length [1, 2, 3, 4 :: byte]" by (simp add: numeral_eq_Suc)
  have 3: "om_virt ?m \<noteq> 0" "4 dvd (8 :: nat)" "[1, 2, 3, 4 :: byte] \<noteq> []"
    "8 + length [1, 2, 3, 4 :: byte] \<le> unat (om_size ?m)" "unat (om_size ?m) < 2 ^ 63" by simp_all
  have l: "length [1, 2, 3, 4 :: byte] = 4" by simp
  have a: "4 \<le> unat (0xFFFF000043C10000 - (om_virt ?m + of_nat 8))" by simp
  obtain d1 d2 d3 d4 where
    "ocp_llseek False (of_nat 8) 0 0 2 sample_ocp = Some ((int 8, of_nat 8), d1)"
    "ocp_write sample_bus False [1, 2, 3, 4] 0x1000 (of_nat (4)) (of_nat 8) 2 d1 =
      Some ((int (4), of_nat (8 + 4)), d2)"
    "ocp_llseek False (of_nat 8) 0 (of_nat (8 + 4)) 2 d2 = Some ((int 8, of_nat 8), d3)"
    "ocp_read sample_bus False (4) 0x2000 (of_nat (4)) (of_nat 8) 2 d3 =
      Some ((int (4), [1, 2, 3, 4], of_nat (8 + 4)), d4)"
    "o_bus d4 0xFFFF000043C10000 = o_bus sample_ocp 0xFFFF000043C10000"
    using ocp_write_read [OF 1 sample_windows(2,1) 3(1,2) 4 3(3-5) 2, of 0, unfolded l] a by blast
  then show ?thesis by (simp add: sample_ocp_def)
qed

text \<open>
  A user mapping shows the window and nothing else.  For a window in the lower 4 GB that begins on a
  page, and a range of file offsets that does not wrap around, the physical pages handed to the
  kernel lie within the window.
\<close>

theorem ocp_mmap_within:
  assumes "the_mapping d minor = Some m" "ocp_mmap remap vm_start vm_end pgoff minor d = Some (r, Some (pfn, n))"
    and "4096 dvd unat (om_phys m)" "unat (om_phys m) + unat (om_size m) < 2 ^ 32"
    and "unat pgoff * 4096 + unat (vm_end - vm_start) < 2 ^ 64"
  shows "n = vm_end - vm_start \<and> unat (om_phys m) + unat pgoff * 4096 = unat pfn * 4096 \<and>
    unat pfn * 4096 + unat n \<le> unat (om_phys m) + unat (om_size m)"
proof -
  let ?off = "push_bit 12 pgoff" and ?n = "vm_end - vm_start"
  let ?start = "ucast (ucast (ucast (om_phys m) :: u32) + ?off) :: u32"
  have r: "n = ?n" "pfn = drop_bit 12 ?start" "\<not> (ucast (ucast (om_size m) :: u32) :: u64) < ?off + ?n"
    using assms(1,2) by (auto simp: ocp_mmap_def Let_def split: if_split_asm)
  have off: "unat ?off = unat pgoff * 4096"
    using assms(5) by (simp add: push_bit_eq_mult unat_word_ariths take_bit_eq_mod mult.commute)
  then have "unat (?off + ?n) = unat pgoff * 4096 + unat ?n"
    using unat_plus_small [of ?off "unat ?n"] assms(5) by simp
  moreover have c: "unat (ucast (ucast (om_size m) :: u32) :: u64) = unat (om_size m)" "unat (ucast (ucast (om_phys m) :: u32) :: u64) = unat (om_phys m)"
    using assms(4) by (simp_all add: unsigned_ucast_eq unsigned_take_bit_eq take_bit_nat_eq_self)
  ultimately have b: "unat pgoff * 4096 + unat ?n \<le> unat (om_size m)" using r(3) by (simp add: word_less_nat_alt)
  have "unat (ucast (ucast (om_phys m) :: u32) + ?off :: u64) = unat (om_phys m) + unat pgoff * 4096"
  proof -
    have "unat (ucast (ucast (om_phys m) :: u32) :: u64) + unat ?off < 2 ^ 64" unfolding off c(2) using b assms(4) by simp
    from unat_plus_small [OF this] show ?thesis unfolding of_nat_unat ucast_id unfolding off c(2) .
  qed
  then have "unat ?start = unat (om_phys m) + unat pgoff * 4096"
    using b assms(4) by (simp add: unsigned_ucast_eq take_bit_nat_eq_self)
  then have "unat pfn * 4096 = unat (om_phys m) + unat pgoff * 4096"
    unfolding r(2) using assms(3) by (simp add: drop_bit_eq_div unat_div)
  then show ?thesis using r(1) b by simp
qed

lemma ocp_mmap_ok:
  assumes "the_mapping d minor = Some m" "\<not> no_such_space d minor"
    and "\<not> (ucast (ucast (om_size m) :: u32) :: u64) < push_bit 12 pgoff + (vm_end - vm_start)"
  shows "ocp_mmap remap vm_start vm_end pgoff minor d = Some (if remap \<noteq> 0 then - EAGAIN else 0,
    Some (drop_bit 12 (ucast (ucast (ucast (om_phys m) :: u32) + push_bit 12 pgoff)), vm_end - vm_start))"
  using assms by (simp add: ocp_mmap_def Let_def)

theorem ocp_mmap_within_witness:
  "ocp_mmap 0 0x70000000 0x70001000 1 2 sample_ocp = Some (0, Some (0x43C11, 0x1000)) \<and>
    unat (0x43C11 :: u32) * 4096 + unat (0x1000 :: u64) \<le> unat (0x43C10000 :: u64) + unat (0x2000 :: u64)"
proof -
  have m: "ocp_mmap 0 0x70000000 0x70001000 1 2 sample_ocp = Some (0, Some (0x43C11, 0x1000))"
    by (subst ocp_mmap_ok [OF sample_windows]) code_simp+
  have "4096 dvd unat (om_phys \<lparr>om_phys = 0x43C10000, om_size = 0x2000, om_virt = 0xFFFF000043C10000\<rparr>)" by simp
  from ocp_mmap_within [OF sample_windows(1) m this] m show ?thesis by simp
qed

text \<open>A window above 4 GB is mapped to other memory: the address is truncated to 32 bits.\<close>

lemma ocp_mmap_truncates:
  assumes "the_mapping d minor = Some \<lparr>om_phys = 0x400000000, om_size = 0x1000, om_virt = v\<rparr>" "\<not> no_such_space d minor"
  shows "ocp_mmap 0 0 0x1000 0 minor d = Some (0, Some (0, 0x1000))"
proof -
  have "(ucast (0x400000000 :: u64) :: u32) = 0" "(ucast (ucast (0x1000 :: u64) :: u32) :: u64) = 0x1000" by code_simp+
  then show ?thesis using assms by (simp add: ocp_mmap_def)
qed

end
