(* ===== verification/Fsbl_Boot.thy ===== *)
theory Fsbl_Boot
  imports Prelude
begin

text \<open>
  The boot sequencer of the first stage boot loader
  (\<open>recipes-bsp/fsbl-firmware/files/iv_z8_sequence_boot.c\<close>, \<open>iv_z8_user_boot_sequence.c\<close>).  At power-up it
  tries the boot devices of a list in turn, each with a number of multi-boot values; the first device
  that has an image is selected in the boot mode register and the processor is reset, after which the
  sequencer lets the boot go on.

  The vendor's boot loader and its drivers are parameters, collected in the record \<open>fsbl_env\<close>: the boot
  modes and result codes, the initialisation of a device, which gets the boot mode and may look at the
  multi-boot register, and the I2C driver.  The four registers the code touches are fields of the
  state, the devices behind the drivers its last field.  \<open>None\<close> is a signed overflow, or a loop that does
  not end.
\<close>

section \<open>State and environment\<close>

record 'h fsbl =
  boot_mode_user :: u32
  multi_boot :: u32
  rpll_ctrl :: u32
  reset_ctrl :: u32
  devices :: 'h

record 'h fsbl_env =
  XFSBL_JTAG_BOOT_MODE :: u32
  XFSBL_QSPI24_BOOT_MODE :: u32
  XFSBL_QSPI32_BOOT_MODE :: u32
  XFSBL_SD0_BOOT_MODE :: u32
  XFSBL_SD1_BOOT_MODE :: u32
  XFSBL_SUCCESS :: u32
  XFSBL_ERROR_UNSUPPORTED_BOOT_MODE :: u32
  BOOT_MODE_USER_BOOT_MODE_MASK :: u32
  RPLL_CTRL_BYPASS_MASK :: u32
  RESET_CTRL_SOFT_RESET_MASK :: u32
  ps_version_1 :: bool
  XFsbl_SdInit :: "u32 \<Rightarrow> u32 \<Rightarrow> 'h \<Rightarrow> u32 \<times> 'h"
  XFsbl_Qspi24Init :: "u32 \<Rightarrow> u32 \<Rightarrow> 'h \<Rightarrow> u32 \<times> 'h"
  XFsbl_Qspi32Init :: "u32 \<Rightarrow> u32 \<Rightarrow> 'h \<Rightarrow> u32 \<times> 'h"
  iic_config :: bool
  iic_init :: bool
  iic_selftest :: bool
  iic_send :: "byte list \<Rightarrow> 'h \<Rightarrow> bool \<times> 'h"
  iic_recv :: "nat \<Rightarrow> 'h \<Rightarrow> bool \<times> byte list \<times> 'h"

record iv_boot_sequence =
  bs_mode :: u32
  bs_num_attempts :: int

definition MAX_MULTIBOOT_ATTEMPTS :: int where "MAX_MULTIBOOT_ATTEMPTS = 30"
definition USE_ALT_MASK :: u32 where "USE_ALT_MASK = 0x100"
definition USE_ALT_SHIFT :: nat where "USE_ALT_SHIFT = 8"
definition ALT_BOOT_MODE_SHIFT :: nat where "ALT_BOOT_MODE_SHIFT = 12"

text \<open>The order of \<open>iv_z8_user_boot_sequence.c\<close>.\<close>

definition boot_seq :: "'h fsbl_env \<Rightarrow> iv_boot_sequence list" where
  "boot_seq E =
    [\<lparr>bs_mode = XFSBL_SD0_BOOT_MODE E, bs_num_attempts = 1\<rparr>,
     \<lparr>bs_mode = XFSBL_SD0_BOOT_MODE E, bs_num_attempts = - 1\<rparr>,
     \<lparr>bs_mode = XFSBL_SD1_BOOT_MODE E, bs_num_attempts = 1\<rparr>,
     \<lparr>bs_mode = XFSBL_QSPI32_BOOT_MODE E, bs_num_attempts = 1\<rparr>]"

section \<open>The part number\<close>

text \<open>\<open>struct iv_ipmi\<close> is 72 bytes: the common header of 8, then the board area of 64 with the part number
  at its offset 46.\<close>

definition sizeof_iv_ipmi :: nat where "sizeof_iv_ipmi = 72"
definition sizeof_iv_common_header :: nat where "sizeof_iv_common_header = 8"
definition board_part_number_offset :: nat where "board_part_number_offset = 54"
definition BOARD_PART_NUMBER_FIELD_SIZE :: nat where "BOARD_PART_NUMBER_FIELD_SIZE = 15"

definition validate_ipmi :: "byte list \<Rightarrow> int" where
  "validate_ipmi ipmi =
     (if sum_list (take sizeof_iv_common_header ipmi) \<noteq> 0 then - 1
      else if sum_list (drop sizeof_iv_common_header ipmi) \<noteq> 0 then - 1
      else if ipmi ! sizeof_iv_common_header \<noteq> 1 then - 1
      else 0)"

text \<open>Received bytes overwrite a cleared structure.\<close>

definition read_ipmi :: "'h fsbl_env \<Rightarrow> 'h \<Rightarrow> int \<times> byte list \<times> 'h" where
  "read_ipmi E h =
     (if \<not> iic_config E \<or> \<not> iic_init E \<or> \<not> iic_selftest E then (- 1, [], h)
      else let (ok, h) = iic_send E [0, 0] h in
        if \<not> ok then (- 1, [], h)
        else let (ok, xs, h) = iic_recv E sizeof_iv_ipmi h;
          ipmi = take sizeof_iv_ipmi (xs @ replicate sizeof_iv_ipmi 0)
        in if \<not> ok then (- 1, ipmi, h)
          else if validate_ipmi ipmi \<noteq> 0 then (- 1, ipmi, h) else (0, ipmi, h))"

text \<open>\<open>atoi\<close> is \<open>(int) strtol\<close>, 0 if there is no number.\<close>

definition atoi :: "string \<Rightarrow> int" where
  "atoi s = (case strtol 10 s of None \<Rightarrow> 0 | Some (v, _) \<Rightarrow> to_int32 v)"

definition get_pn_ord :: "byte list \<Rightarrow> int" where
  "get_pn_ord ipmi =
     (let pn = takeWhile (\<lambda>b. b \<noteq> 0) (take BOARD_PART_NUMBER_FIELD_SIZE (drop board_part_number_offset ipmi));
          pord = dropWhile (\<lambda>c. c \<noteq> CHR ''-'') (map (\<lambda>b. char_of (unat b)) pn)
      in if pord = [] then - 1 else atoi (tl pord))"

section \<open>The sequencer\<close>

definition soft_reset :: "'h fsbl_env \<Rightarrow> 'h fsbl \<Rightarrow> 'h fsbl" where
  "soft_reset E s =
     (let s = (if ps_version_1 E then s\<lparr>rpll_ctrl := rpll_ctrl s OR RPLL_CTRL_BYPASS_MASK E\<rparr> else s)
      in s\<lparr>reset_ctrl := reset_ctrl s OR RESET_CTRL_SOFT_RESET_MASK E\<rparr>)"

text \<open>The switch over the boot mode.\<close>

definition device_init :: "'h fsbl_env \<Rightarrow> u32 \<Rightarrow> u32 \<Rightarrow> 'h \<Rightarrow> u32 \<times> 'h" where
  "device_init E mode mb h =
     (if mode = XFSBL_SD0_BOOT_MODE E \<or> mode = XFSBL_SD1_BOOT_MODE E then XFsbl_SdInit E mode mb h
      else if mode = XFSBL_QSPI24_BOOT_MODE E then XFsbl_Qspi24Init E mode mb h
      else if mode = XFSBL_QSPI32_BOOT_MODE E then XFsbl_Qspi32Init E mode mb h
      else (XFSBL_ERROR_UNSUPPORTED_BOOT_MODE E, h))"

text \<open>The number of attempts and the value of \<open>boot_by_pn\<close> for an entry.\<close>

definition entry_attempts :: "'h fsbl_env \<Rightarrow> int \<Rightarrow> 'h fsbl \<Rightarrow> int \<times> int \<times> 'h fsbl" where
  "entry_attempts E num_attempts s =
     (if MAX_MULTIBOOT_ATTEMPTS < num_attempts then (MAX_MULTIBOOT_ATTEMPTS, 0, s)
      else if num_attempts < 0
      then let (err, ipmi, h) = read_ipmi E (devices s); s = s\<lparr>devices := h\<rparr> in
        if err \<noteq> 0 then (0, 0, s)
        else let boot_by_pn = get_pn_ord ipmi in
          (if 0 < boot_by_pn then (1, boot_by_pn, s) else (num_attempts, boot_by_pn, s))
      else (num_attempts, 0, s))"

text \<open>The inner loop from \<open>multi_boot\<close> on.  \<open>True\<close> marks the reset, after which nothing runs.\<close>

partial_function (option) attempt_loop ::
  "'h fsbl_env \<Rightarrow> u32 \<Rightarrow> int \<Rightarrow> int \<Rightarrow> int \<Rightarrow> 'h fsbl \<Rightarrow> (bool \<times> 'h fsbl) option"
where
  "attempt_loop E mode boot_by_pn num_attempts mb s =
     (if \<not> mb < num_attempts then Some (False, s)
      else let mb = (if boot_by_pn \<noteq> 0 then boot_by_pn else mb);
        s = s\<lparr>multi_boot := word_of_int mb\<rparr>;
        r = device_init E mode (multi_boot s) (devices s);
        s = s\<lparr>devices := snd r\<rparr> in
        if fst r = XFSBL_SUCCESS E
        then Some (True, soft_reset E (s\<lparr>boot_mode_user := push_bit ALT_BOOT_MODE_SHIFT mode OR push_bit USE_ALT_SHIFT 1\<rparr>))
        else if \<not> mb + 1 < 2 ^ 31 then None
        else attempt_loop E mode boot_by_pn num_attempts (mb + 1) s)"

fun device_loop :: "'h fsbl_env \<Rightarrow> iv_boot_sequence list \<Rightarrow> 'h fsbl \<Rightarrow> (bool \<times> 'h fsbl) option" where
  "device_loop E [] s = Some (False, s)"
| "device_loop E (e # es) s =
     (let (num_attempts, boot_by_pn, s) = entry_attempts E (bs_num_attempts e) s in do {
        (reset, s) \<leftarrow> attempt_loop E (bs_mode e) boot_by_pn num_attempts 0 s;
        if reset then Some (True, s) else device_loop E es s })"

datatype 'h boot_result = Boot_Returns "'h fsbl" | Boot_Resets "'h fsbl"

definition iv_sequence_boot :: "'h fsbl_env \<Rightarrow> iv_boot_sequence list \<Rightarrow> 'h fsbl \<Rightarrow> 'h boot_result option" where
  "iv_sequence_boot E seq s =
     (let boot_mode = boot_mode_user s AND BOOT_MODE_USER_BOOT_MODE_MASK E;
          alt_boot = drop_bit USE_ALT_SHIFT (boot_mode_user s AND USE_ALT_MASK)
      in if alt_boot \<noteq> 0 \<or> boot_mode = XFSBL_JTAG_BOOT_MODE E then Some (Boot_Returns s)
         else do {
           (reset, s) \<leftarrow> device_loop E seq s;
           if reset then Some (Boot_Resets s) else Some (Boot_Returns (s\<lparr>multi_boot := 0\<rparr>)) })"

section \<open>The attempts as a list\<close>

text \<open>What the sequencer tries, given the part number ordinal the EEPROM yields: each boot mode with each of its
  multi-boot values.\<close>

definition entry_plan :: "int option \<Rightarrow> iv_boot_sequence \<Rightarrow> (u32 \<times> int) list" where
  "entry_plan ord e =
     (if bs_num_attempts e < 0
      then (case ord of Some n \<Rightarrow> if 0 < n then [(bs_mode e, n)] else [] | None \<Rightarrow> [])
      else map (\<lambda>k. (bs_mode e, k)) [0..min MAX_MULTIBOOT_ATTEMPTS (bs_num_attempts e) - 1])"

definition boot_plan :: "int option \<Rightarrow> iv_boot_sequence list \<Rightarrow> (u32 \<times> int) list" where
  "boot_plan ord seq = concat (map (entry_plan ord) seq)"

text \<open>Devices whose answers do not change: \<open>good\<close> tells where there is an image, \<open>ord\<close> is the ordinal in the
  EEPROM, \<open>None\<close> if it cannot be read.\<close>

definition steady :: "'h fsbl_env \<Rightarrow> (u32 \<Rightarrow> u32 \<Rightarrow> bool) \<Rightarrow> int option \<Rightarrow> bool" where
  "steady E good ord \<longleftrightarrow>
     (\<forall>mode mb h. fst (device_init E mode mb h) = XFSBL_SUCCESS E \<longleftrightarrow> good mode mb) \<and>
     (\<forall>h. case read_ipmi E h of (err, ipmi, h') \<Rightarrow>
       (case ord of None \<Rightarrow> err \<noteq> 0 | Some n \<Rightarrow> err = 0 \<and> get_pn_ord ipmi = n \<and> n < 2 ^ 31 - 1))"

definition selected :: "'h fsbl_env \<Rightarrow> 'h fsbl \<Rightarrow> u32 \<Rightarrow> int \<Rightarrow> 'h fsbl \<Rightarrow> bool" where
  "selected E s mode k s' \<longleftrightarrow> multi_boot s' = word_of_int k \<and> boot_mode_user s' = push_bit 12 mode OR 0x100 \<and>
     reset_ctrl s' = reset_ctrl s OR RESET_CTRL_SOFT_RESET_MASK E \<and>
     rpll_ctrl s' = (if ps_version_1 E then rpll_ctrl s OR RPLL_CTRL_BYPASS_MASK E else rpll_ctrl s)"

definition untouched :: "'h fsbl \<Rightarrow> 'h fsbl \<Rightarrow> bool" where
  "untouched s s' \<longleftrightarrow> boot_mode_user s' = boot_mode_user s \<and> reset_ctrl s' = reset_ctrl s \<and> rpll_ctrl s' = rpll_ctrl s"

text \<open>The first entry of a plan that has an image is selected; if there is none, the registers are untouched.\<close>

definition outcome :: "'h fsbl_env \<Rightarrow> (u32 \<Rightarrow> u32 \<Rightarrow> bool) \<Rightarrow> 'h fsbl \<Rightarrow> (u32 \<times> int) list \<Rightarrow> (bool \<times> 'h fsbl) option \<Rightarrow> bool" where
  "outcome E good s plan r \<longleftrightarrow>
     (case find (\<lambda>(mode, k). good mode (word_of_int k)) plan of
        None \<Rightarrow> \<exists>s'. r = Some (False, s') \<and> untouched s s'
      | Some (mode, k) \<Rightarrow> \<exists>s'. r = Some (True, s') \<and> selected E s mode k s')"

lemma outcome_frame: "outcome E good s1 plan r \<Longrightarrow> untouched s s1 \<Longrightarrow> outcome E good s plan r"
  by (fastforce simp: outcome_def untouched_def selected_def split: option.splits)

lemma find_append: "find P (xs @ ys) = (case find P xs of None \<Rightarrow> find P ys | Some x \<Rightarrow> Some x)"
  by (induction xs) auto

lemma steady_init: "steady E good ord \<Longrightarrow> fst (device_init E mode mb h) = XFSBL_SUCCESS E \<longleftrightarrow> good mode mb"
  by (simp add: steady_def)

lemma attempt_selects:
  assumes "steady E good ord" "good mode (word_of_int k)" "mb < n" "k = (if pn \<noteq> 0 then pn else mb)"
  shows "\<exists>s'. attempt_loop E mode pn n mb s = Some (True, s') \<and> selected E s mode k s'"
  using assms(2-4) steady_init [OF assms(1)]
  by (subst attempt_loop.simps)
     (auto simp: Let_def soft_reset_def selected_def ALT_BOOT_MODE_SHIFT_def USE_ALT_SHIFT_def push_bit_eq_mult)

lemma attempt_fails:
  assumes "steady E good ord" "\<not> good mode (word_of_int k)" "mb < n" "k = (if pn \<noteq> 0 then pn else mb)" "k < 2 ^ 31 - 1"
  shows "\<exists>s1. attempt_loop E mode pn n mb s = attempt_loop E mode pn n (k + 1) s1 \<and> untouched s s1"
proof -
  let ?s1 = "s\<lparr>multi_boot := word_of_int k, devices := snd (device_init E mode (word_of_int k) (devices s))\<rparr>"
  have "attempt_loop E mode pn n mb s = attempt_loop E mode pn n (k + 1) ?s1"
    using assms(2-5) steady_init [OF assms(1)] by (subst attempt_loop.simps) (auto simp: Let_def)
  moreover have "untouched s ?s1" by (simp add: untouched_def)
  ultimately show ?thesis by blast
qed

lemma attempt_loop_end: "n \<le> mb \<Longrightarrow> attempt_loop E mode pn n mb s = Some (False, s)"
  by (subst attempt_loop.simps) simp

lemma attempts_outcome:
  assumes "steady E good ord" "n \<le> 30"
  shows "outcome E good s (map (\<lambda>k. (mode, k)) [mb..n - 1]) (attempt_loop E mode 0 n mb s)"
proof (induction "nat (n - mb)" arbitrary: mb s)
  case 0
  then show ?case by (simp add: attempt_loop_end outcome_def untouched_def)
next
  case (Suc m)
  then have l: "mb < n" "m = nat (n - (mb + 1))" by simp_all
  then have p: "[mb..n - 1] = mb # [mb + 1..n - 1]" by (simp add: upto_rec1)
  show ?case
  proof (cases "good mode (word_of_int mb)")
    case True
    then show ?thesis using attempt_selects [OF assms(1) True l(1), of 0 s] unfolding p by (simp add: outcome_def)
  next
    case False
    obtain s1 where s1: "attempt_loop E mode 0 n mb s = attempt_loop E mode 0 n (mb + 1) s1" "untouched s s1"
      using attempt_fails [OF assms(1) False l(1), of 0 s] l(1) assms(2) by auto
    have "outcome E good s (map (\<lambda>k. (mode, k)) [mb + 1..n - 1]) (attempt_loop E mode 0 n (mb + 1) s1)"
      by (rule outcome_frame [OF Suc.hyps(1) [OF l(2)] s1(2)])
    then show ?thesis using False unfolding p s1(1) by (simp add: outcome_def)
  qed
qed

lemma attempt_pn_outcome:
  assumes "steady E good ord" "0 < pn" "pn < 2 ^ 31 - 1"
  shows "outcome E good s [(mode, pn)] (attempt_loop E mode pn 1 0 s)"
proof (cases "good mode (word_of_int pn)")
  case True
  then show ?thesis using attempt_selects [OF assms(1) True, of 0 1 pn s] assms(2) by (simp add: outcome_def)
next
  case False
  obtain s1 where "attempt_loop E mode pn 1 0 s = attempt_loop E mode pn 1 (pn + 1) s1" "untouched s s1"
    using attempt_fails [OF assms(1) False, of 0 1 pn s] assms(2,3) by auto
  then show ?thesis using False assms(2) by (simp add: outcome_def attempt_loop_end)
qed

lemma entry_outcome:
  assumes "steady E good ord" "entry_attempts E (bs_num_attempts e) s = (n, pn, s1)"
  shows "untouched s s1 \<and> outcome E good s1 (entry_plan ord e) (attempt_loop E (bs_mode e) pn n 0 s1)"
proof (cases "bs_num_attempts e < 0")
  case False
  then have "s1 = s" "pn = 0" "n = min 30 (bs_num_attempts e)"
    using assms(2) by (auto simp: entry_attempts_def MAX_MULTIBOOT_ATTEMPTS_def split: if_split_asm)
  then show ?thesis
    using False attempts_outcome [OF assms(1), of n s "bs_mode e" 0]
    by (simp add: entry_plan_def untouched_def MAX_MULTIBOOT_ATTEMPTS_def)
next
  case True
  obtain err ipmi h where r: "read_ipmi E (devices s) = (err, ipmi, h)" by (metis prod_cases3)
  have o: "case ord of None \<Rightarrow> err \<noteq> 0 | Some k \<Rightarrow> err = 0 \<and> get_pn_ord ipmi = k \<and> k < 2 ^ 31 - 1"
  proof -
    have "case read_ipmi E (devices s) of (err, ipmi, h') \<Rightarrow>
        (case ord of None \<Rightarrow> err \<noteq> 0 | Some n \<Rightarrow> err = 0 \<and> get_pn_ord ipmi = n \<and> n < 2 ^ 31 - 1)"
      by (rule spec [OF conjunct2 [OF assms(1) [unfolded steady_def]]])
    then show ?thesis by (simp add: r)
  qed
  have nil: "outcome E good s2 [] (attempt_loop E (bs_mode e) p k 0 s2)" if "k \<le> 0" for s2 p k
    using that by (simp add: outcome_def untouched_def attempt_loop_end)
  have u: "untouched s (s\<lparr>devices := h\<rparr>)" by (simp add: untouched_def)
  show ?thesis
    using True assms(2) r o u nil attempt_pn_outcome [OF assms(1)]
    by (auto simp: entry_attempts_def entry_plan_def MAX_MULTIBOOT_ATTEMPTS_def Let_def split: option.splits if_split_asm)
qed

lemma devices_outcome:
  assumes "steady E good ord"
  shows "outcome E good s (boot_plan ord seq) (device_loop E seq s)"
proof (induction seq arbitrary: s)
  case Nil
  then show ?case by (simp add: boot_plan_def outcome_def untouched_def)
next
  case (Cons e es)
  obtain n pn s1 where a: "entry_attempts E (bs_num_attempts e) s = (n, pn, s1)" by (metis prod_cases3)
  note o = entry_outcome [OF assms a]
  let ?r = "attempt_loop E (bs_mode e) pn n 0 s1" and ?f = "find (\<lambda>(mode, k). good mode (word_of_int k))"
  have p: "boot_plan ord (e # es) = entry_plan ord e @ boot_plan ord es" by (simp add: boot_plan_def)
  show ?case
  proof (cases "?f (entry_plan ord e)")
    case None
    then obtain s2 where s2: "?r = Some (False, s2)" "untouched s s2" using o by (auto simp: outcome_def untouched_def)
    then have "device_loop E (e # es) s = device_loop E es s2" using a by simp
    then show ?thesis using outcome_frame [OF Cons.IH [of s2] s2(2)] None unfolding p by (simp add: outcome_def find_append)
  next
    case (Some x)
    obtain mode k where x: "x = (mode, k)" by force
    then obtain s2 where "?r = Some (True, s2)" "selected E s1 mode k s2" using o Some by (auto simp: outcome_def)
    moreover from this have "selected E s mode k s2" using o by (simp add: selected_def untouched_def)
    ultimately show ?thesis using a Some x unfolding p by (simp add: outcome_def find_append)
  qed
qed

lemma alt_boot_bit: "drop_bit USE_ALT_SHIFT (x AND USE_ALT_MASK) = 0 \<longleftrightarrow> \<not> bit x 8"
proof -
  have "(0x100 :: u32) = push_bit 8 1" by code_simp
  then have "drop_bit USE_ALT_SHIFT (x AND USE_ALT_MASK) = (if bit x 8 then 1 else 0)"
    by (intro bit_eqI) (auto simp: USE_ALT_SHIFT_def USE_ALT_MASK_def bit_simps intro!: gr0I)
  then show ?thesis by simp
qed

lemma sequence_boot:
  assumes "steady E good ord" "\<not> bit (boot_mode_user s) 8"
    and "boot_mode_user s AND BOOT_MODE_USER_BOOT_MODE_MASK E \<noteq> XFSBL_JTAG_BOOT_MODE E"
  shows "case find (\<lambda>(mode, k). good mode (word_of_int k)) (boot_plan ord seq) of
      None \<Rightarrow> \<exists>s'. iv_sequence_boot E seq s = Some (Boot_Returns s') \<and> untouched s s' \<and> multi_boot s' = 0
    | Some (mode, k) \<Rightarrow> \<exists>s'. iv_sequence_boot E seq s = Some (Boot_Resets s') \<and> selected E s mode k s' \<and>
        iv_sequence_boot E seq' s' = Some (Boot_Returns s')"
proof -
  have r: "iv_sequence_boot E seq s = device_loop E seq s \<bind> (\<lambda>(reset, s).
      if reset then Some (Boot_Resets s) else Some (Boot_Returns (s\<lparr>multi_boot := 0\<rparr>)))"
    using assms(2,3) alt_boot_bit [of "boot_mode_user s"] by (simp add: iv_sequence_boot_def)
  have again: "iv_sequence_boot E seq' s' = Some (Boot_Returns s')" if "selected E s mode k s'" for mode k s'
  proof -
    have "(0x100 :: u32) = push_bit 8 1" by code_simp
    then have "bit (boot_mode_user s') 8" using that by (simp only: selected_def) (simp add: bit_simps)
    then show ?thesis using alt_boot_bit [of "boot_mode_user s'"] by (simp add: iv_sequence_boot_def)
  qed
  show ?thesis using devices_outcome [OF assms(1), of s seq] again
    by (auto simp: outcome_def r untouched_def split: option.split)
qed


text \<open>An example: no EEPROM, and an image on the second SD device only.\<close>

definition sample_fsbl_env :: "unit fsbl_env" where
  "sample_fsbl_env = \<lparr>XFSBL_JTAG_BOOT_MODE = 0, XFSBL_QSPI24_BOOT_MODE = 1, XFSBL_QSPI32_BOOT_MODE = 2, XFSBL_SD0_BOOT_MODE = 3,
     XFSBL_SD1_BOOT_MODE = 5, XFSBL_SUCCESS = 0, XFSBL_ERROR_UNSUPPORTED_BOOT_MODE = 7, BOOT_MODE_USER_BOOT_MODE_MASK = 0xF,
     RPLL_CTRL_BYPASS_MASK = 8, RESET_CTRL_SOFT_RESET_MASK = 0x10, ps_version_1 = False,
     XFsbl_SdInit = (\<lambda>mode mb h. (if mode = 5 \<and> mb = 0 then 0 else 9, h)), XFsbl_Qspi24Init = (\<lambda>mode mb h. (9, h)),
     XFsbl_Qspi32Init = (\<lambda>mode mb h. (9, h)), iic_config = False, iic_init = True, iic_selftest = True,
     iic_send = (\<lambda>xs h. (True, h)), iic_recv = (\<lambda>n h. (True, [], h))\<rparr>"


section \<open>The ordinal of a part number\<close>

lemma char_of_byte [simp]: "char_of (unat (of_char c :: byte)) = c"
  by (simp add: of_char_def unsigned_of_nat take_bit_nat_eq_self char_of_eq_iff)

lemma char_of_of_char: "map (\<lambda>b. char_of (unat b)) (cstr s) = s"
  by (simp add: cstr_def comp_def)

lemma of_char_zero: "(of_char c :: byte) = 0 \<Longrightarrow> c = CHR 0x00"
  using char_of_byte [of c] by (simp del: char_of_byte add: char_of_def)

lemma digits_bound: "\<forall>d \<in> set ds. d < 10 \<Longrightarrow> foldl (\<lambda>n d. 10 * n + d) a ds < (a + 1) * 10 ^ length ds" for a :: nat
proof (induction ds arbitrary: a)
  case (Cons d ds)
  have "foldl (\<lambda>n d. 10 * n + d) (10 * a + d) ds < (10 * a + d + 1) * 10 ^ length ds" using Cons by simp
  also have "\<dots> \<le> (10 * (a + 1)) * 10 ^ length ds" using Cons.prems by (intro mult_right_mono) auto
  finally show ?case by (simp add: algebra_simps)
qed simp

text \<open>A part number field as on the labels, e.g. \<open>205-00127-01-02\<close>: the ordinal is between the first dash and
  the next character that is no digit.\<close>

lemma get_pn_ord_value:
  assumes "take 15 (drop 54 ipmi) = cstr (pre @ CHR ''-'' # map digit_char ds @ rest)"
    and "CHR ''-'' \<notin> set pre" "\<forall>b \<in> set (take 15 (drop 54 ipmi)). b \<noteq> 0" "ds \<noteq> []" "length ds \<le> 9" "\<forall>d \<in> set ds. d < 10"
    and "rest = [] \<or> 10 \<le> digit_val (hd rest)"
  shows "get_pn_ord ipmi = int (foldl (\<lambda>n d. 10 * n + d) 0 ds)"
proof -
  let ?v = "foldl (\<lambda>n d. 10 * n + d) 0 ds"
  have "?v < 10 ^ length ds" using digits_bound [OF assms(6), of 0] by simp
  also have "\<dots> \<le> 10 ^ 9" using assms(5) by (intro power_increasing) auto
  finally have b: "?v < 10 ^ 9" .
  have "takeWhile (\<lambda>b. b \<noteq> 0) (take 15 (drop 54 ipmi)) = cstr (pre @ CHR ''-'' # map digit_char ds @ rest)"
    using assms(1,3) by (simp add: takeWhile_eq_all_conv)
  moreover have "dropWhile (\<lambda>c. c \<noteq> CHR ''-'') (pre @ CHR ''-'' # map digit_char ds @ rest) = CHR ''-'' # map digit_char ds @ rest"
    using assms(2) by (subst dropWhile_append2) auto
  ultimately have "get_pn_ord ipmi = atoi (map digit_char ds @ rest)"
    by (simp add: get_pn_ord_def BOARD_PART_NUMBER_FIELD_SIZE_def board_part_number_offset_def char_of_of_char Let_def
        del: dropWhile_eq_Nil_conv)
  also have "\<dots> = to_int32 (int ?v)" using strtol_digits [OF assms(4,6,7)] b by (simp add: atoi_def)
  also have "\<dots> = int ?v" using b by (intro to_int32_id) simp_all
  finally show ?thesis .
qed

end
