(* ===== verification/Fsbl_Init.thy ===== *)
theory Fsbl_Init
  imports Prelude
begin

text \<open>
  The board initialisation of the first stage boot loader
  (\<open>recipes-bsp/fsbl-firmware/files/iv_z8_init.c\<close> with the register table of
  \<open>clkinit_100_125_26_125.h\<close>, and the machine hooks \<open>00104.c\<close>, \<open>00108.c\<close>, \<open>00114.c\<close>, \<open>00126.c\<close> and \<open>00127.c\<close>): a polled driver for the
  I2C controller, and the programming of the clock generator through it.

  The hardware is a parameter: a read of a register yields a value and may change the state of the
  hardware, a write changes it.  The writes are logged.  \<open>None\<close> is a store outside the caller's buffer, or
  a loop that does not end.  The time that \<open>usleep\<close> takes has no effect in the model.
\<close>

section \<open>Register access\<close>

record 'h z8_io =
  io_in :: "u64 \<Rightarrow> 'h \<Rightarrow> u32 \<times> 'h"
  io_out :: "u64 \<Rightarrow> u32 \<Rightarrow> 'h \<Rightarrow> 'h"

record 'h z8 =
  z8_hw :: 'h
  z8_writes :: "(u64 \<times> u32) list"

definition Xil_In32 :: "'h z8_io \<Rightarrow> u64 \<Rightarrow> 'h z8 \<Rightarrow> u32 \<times> 'h z8" where
  "Xil_In32 IO a s = (fst (io_in IO a (z8_hw s)), s\<lparr>z8_hw := snd (io_in IO a (z8_hw s))\<rparr>)"

definition Xil_Out32 :: "'h z8_io \<Rightarrow> u64 \<Rightarrow> u32 \<Rightarrow> 'h z8 \<Rightarrow> 'h z8" where
  "Xil_Out32 IO a v s = s\<lparr>z8_hw := io_out IO a v (z8_hw s), z8_writes := z8_writes s @ [(a, v)]\<rparr>"

definition PSU_Mask_Write :: "'h z8_io \<Rightarrow> u64 \<Rightarrow> u64 \<Rightarrow> u64 \<Rightarrow> 'h z8 \<Rightarrow> 'h z8" where
  "PSU_Mask_Write IO offset m val s =
     (let (v, s) = Xil_In32 IO offset s;
          RegVal = (ucast v AND NOT m) OR (val AND m)
      in Xil_Out32 IO offset (ucast RegVal) s)"

definition writel :: "'h z8_io \<Rightarrow> u32 \<Rightarrow> u32 \<Rightarrow> 'h z8 \<Rightarrow> 'h z8" where
  "writel IO data addr = Xil_Out32 IO (ucast addr) data"

definition readl :: "'h z8_io \<Rightarrow> u32 \<Rightarrow> 'h z8 \<Rightarrow> u32 \<times> 'h z8" where
  "readl IO addr = Xil_In32 IO (ucast addr)"

definition jsm_setbits_le32 :: "'h z8_io \<Rightarrow> u32 \<Rightarrow> u32 \<Rightarrow> 'h z8 \<Rightarrow> 'h z8" where
  "jsm_setbits_le32 IO addr m s = (let (temp, s) = readl IO addr s in writel IO (temp OR m) addr s)"

definition jsm_clrbits_le32 :: "'h z8_io \<Rightarrow> u32 \<Rightarrow> u32 \<Rightarrow> 'h z8 \<Rightarrow> 'h z8" where
  "jsm_clrbits_le32 IO addr m s = (let (temp, s) = readl IO addr s in writel IO (temp AND NOT m) addr s)"

section \<open>The I2C controller\<close>

text \<open>The registers of \<open>struct zynq_i2c_registers\<close> at \<open>0xff030000\<close>.\<close>

definition i2c_control :: u32 where "i2c_control = 0xff030000"
definition i2c_address :: u32 where "i2c_address = 0xff030008"
definition i2c_data :: u32 where "i2c_data = 0xff03000c"
definition i2c_interrupt_status :: u32 where "i2c_interrupt_status = 0xff030010"
definition i2c_transfer_size :: u32 where "i2c_transfer_size = 0xff030014"

definition ZYNQ_I2C_CONTROL_RW :: u32 where "ZYNQ_I2C_CONTROL_RW = 0x1"
definition ZYNQ_I2C_CONTROL_MS :: u32 where "ZYNQ_I2C_CONTROL_MS = 0x2"
definition ZYNQ_I2C_CONTROL_NEA :: u32 where "ZYNQ_I2C_CONTROL_NEA = 0x4"
definition ZYNQ_I2C_CONTROL_ACKEN :: u32 where "ZYNQ_I2C_CONTROL_ACKEN = 0x8"
definition ZYNQ_I2C_CONTROL_HOLD :: u32 where "ZYNQ_I2C_CONTROL_HOLD = 0x10"
definition ZYNQ_I2C_CONTROL_CLR_FIFO :: u32 where "ZYNQ_I2C_CONTROL_CLR_FIFO = 0x40"
definition ZYNQ_I2C_CONTROL_DIV_B_SHIFT :: nat where "ZYNQ_I2C_CONTROL_DIV_B_SHIFT = 8"
definition ZYNQ_I2C_CONTROL_DIV_A_SHIFT :: nat where "ZYNQ_I2C_CONTROL_DIV_A_SHIFT = 14"
definition ZYNQ_I2C_INTERRUPT_COMP :: u32 where "ZYNQ_I2C_INTERRUPT_COMP = 0x1"
definition ZYNQ_I2C_INTERRUPT_DATA :: u32 where "ZYNQ_I2C_INTERRUPT_DATA = 0x2"
definition ZYNQ_I2C_FIFO_DEPTH :: u32 where "ZYNQ_I2C_FIFO_DEPTH = 16"
definition ZYNQ_I2C_TRANSFERT_SIZE_MAX :: int where "ZYNQ_I2C_TRANSFERT_SIZE_MAX = 255"
definition I2C_EINVAL :: int where "I2C_EINVAL = 1"
definition I2C_ETIMEDOUT :: int where "I2C_ETIMEDOUT = 2"

lemmas i2c_reg_defs = i2c_control_def i2c_address_def i2c_data_def i2c_interrupt_status_def i2c_transfer_size_def
lemmas i2c_bit_defs = ZYNQ_I2C_CONTROL_RW_def ZYNQ_I2C_CONTROL_MS_def ZYNQ_I2C_CONTROL_NEA_def ZYNQ_I2C_CONTROL_ACKEN_def
  ZYNQ_I2C_CONTROL_HOLD_def ZYNQ_I2C_CONTROL_CLR_FIFO_def ZYNQ_I2C_INTERRUPT_COMP_def ZYNQ_I2C_INTERRUPT_DATA_def

text \<open>The polling loop with \<open>n\<close> rounds to go, then the whole wait with its 100 rounds.\<close>

fun wait_loop :: "'h z8_io \<Rightarrow> nat \<Rightarrow> u32 \<Rightarrow> u32 \<Rightarrow> 'h z8 \<Rightarrow> u32 \<times> 'h z8" where
  "wait_loop IO 0 m int_status s = (int_status, s)"
| "wait_loop IO (Suc n) m int_status s =
     (let (int_status, s) = readl IO i2c_interrupt_status s in
      if int_status AND m \<noteq> 0 then (int_status, s) else wait_loop IO n m int_status s)"

definition zynq_i2c_wait :: "'h z8_io \<Rightarrow> u32 \<Rightarrow> 'h z8 \<Rightarrow> u32 \<times> 'h z8" where
  "zynq_i2c_wait IO m s =
     (let (int_status, s) = wait_loop IO 100 m 0 s in
      (int_status AND m, writel IO (int_status AND m) i2c_interrupt_status s))"

definition release_bus :: "'h z8_io \<Rightarrow> 'h z8 \<Rightarrow> 'h z8" where
  "release_bus IO = jsm_clrbits_le32 IO i2c_control ZYNQ_I2C_CONTROL_HOLD"

text \<open>\<open>while (alen--) writel(addr >> (8 * alen), ...)\<close>\<close>

primrec addr_loop :: "'h z8_io \<Rightarrow> u32 \<Rightarrow> nat \<Rightarrow> 'h z8 \<Rightarrow> 'h z8" where
  "addr_loop IO addr 0 s = s"
| "addr_loop IO addr (Suc alen) s = addr_loop IO addr alen (writel IO (drop_bit (8 * alen) addr) i2c_data s)"

text \<open>The inner loop that empties the FIFO into a buffer of \<open>cap\<close> bytes, filled with \<open>data\<close> so far.\<close>

partial_function (option) fifo_loop ::
  "'h z8_io \<Rightarrow> nat \<Rightarrow> u32 \<Rightarrow> u32 \<Rightarrow> byte list \<Rightarrow> 'h z8 \<Rightarrow> (u32 \<times> byte list \<times> 'h z8) option"
where
  "fifo_loop IO cap len i data s =
     (let r = readl IO i2c_transfer_size s in
      if i < len - fst r
      then if length data < cap
        then let d = readl IO i2c_data (snd r) in fifo_loop IO cap len (i + 1) (data @ [ucast (fst d)]) (snd d)
        else None
      else Some (i, data, snd r))"

partial_function (option) recv_loop ::
  "'h z8_io \<Rightarrow> nat \<Rightarrow> u32 \<Rightarrow> u32 \<Rightarrow> byte list \<Rightarrow> 'h z8 \<Rightarrow> (int \<times> byte list \<times> 'h z8) option"
where
  "recv_loop IO cap len i data s =
     (let w = zynq_i2c_wait IO (ZYNQ_I2C_INTERRUPT_COMP OR ZYNQ_I2C_INTERRUPT_DATA) s in
      if fst w = 0 then Some (- I2C_ETIMEDOUT, data, release_bus IO (snd w))
      else fifo_loop IO cap len i data (snd w) \<bind> (\<lambda>f.
        let t = readl IO i2c_transfer_size (snd (snd f)) in
        if fst t \<noteq> 0 then recv_loop IO cap len (fst f) (fst (snd f)) (snd t)
        else Some (0, fst (snd f), release_bus IO (snd t))))"

text \<open>The return value and the bytes received into a buffer of \<open>cap\<close> bytes.\<close>

definition zynq_i2c_read ::
  "'h z8_io \<Rightarrow> byte \<Rightarrow> u32 \<Rightarrow> nat \<Rightarrow> nat \<Rightarrow> int \<Rightarrow> 'h z8 \<Rightarrow> (int \<times> byte list \<times> 'h z8) option"
where
  "zynq_i2c_read IO dev addr alen cap len s =
     (if len < 0 \<or> ZYNQ_I2C_TRANSFERT_SIZE_MAX < len then Some (- I2C_EINVAL, [], s)
      else let s = jsm_setbits_le32 IO i2c_control (ZYNQ_I2C_CONTROL_CLR_FIFO OR ZYNQ_I2C_CONTROL_HOLD) s;
        s = jsm_clrbits_le32 IO i2c_control ZYNQ_I2C_CONTROL_HOLD s;
        s = writel IO 0xFF i2c_interrupt_status s;
        (ok, s) = (if alen \<noteq> 0
          then let s = jsm_clrbits_le32 IO i2c_control ZYNQ_I2C_CONTROL_RW s;
            s = writel IO (ucast dev) i2c_address s;
            s = addr_loop IO addr alen s;
            (r, s) = zynq_i2c_wait IO ZYNQ_I2C_INTERRUPT_COMP s
            in (r \<noteq> 0, s)
          else (True, s)) in
        if \<not> ok then Some (- I2C_ETIMEDOUT, [], release_bus IO s)
        else let s = jsm_setbits_le32 IO i2c_control (ZYNQ_I2C_CONTROL_CLR_FIFO OR ZYNQ_I2C_CONTROL_RW) s;
          s = writel IO (ucast dev) i2c_address s;
          s = writel IO (word_of_int len) i2c_transfer_size s
          in recv_loop IO cap (word_of_int len) 0 [] s)"

text \<open>The loop over the bytes to send: whether none of its waits timed out.\<close>

fun send_loop :: "'h z8_io \<Rightarrow> byte list \<Rightarrow> 'h z8 \<Rightarrow> bool \<times> 'h z8" where
  "send_loop IO [] s = (True, s)"
| "send_loop IO (b # bs) s =
     (let s = writel IO (ucast b) i2c_data s;
          (t, s) = readl IO i2c_transfer_size s in
      if t = ZYNQ_I2C_FIFO_DEPTH
      then let (r, s) = zynq_i2c_wait IO ZYNQ_I2C_INTERRUPT_COMP s in
        if r = 0 then (False, release_bus IO s) else send_loop IO bs s
      else send_loop IO bs s)"

text \<open>The buffer \<open>data\<close> is sent as a whole, as all callers do.\<close>

definition zynq_i2c_write :: "'h z8_io \<Rightarrow> byte \<Rightarrow> u32 \<Rightarrow> nat \<Rightarrow> byte list \<Rightarrow> 'h z8 \<Rightarrow> int \<times> 'h z8" where
  "zynq_i2c_write IO dev addr alen data s =
     (let s = jsm_setbits_le32 IO i2c_control (ZYNQ_I2C_CONTROL_CLR_FIFO OR ZYNQ_I2C_CONTROL_HOLD) s;
        s = jsm_clrbits_le32 IO i2c_control ZYNQ_I2C_CONTROL_RW s;
        s = writel IO 0xFF i2c_interrupt_status s;
        s = writel IO (ucast dev) i2c_address s;
        (ok, s) = (if alen \<noteq> 0
          then let (r, s) = zynq_i2c_wait IO ZYNQ_I2C_INTERRUPT_COMP (addr_loop IO addr alen s) in (r \<noteq> 0, s)
          else (True, s)) in
      if \<not> ok then (- I2C_ETIMEDOUT, release_bus IO s)
      else let (ok, s) = send_loop IO data s in
        if \<not> ok then (- I2C_ETIMEDOUT, s)
        else let s = release_bus IO s;
          (r, s) = zynq_i2c_wait IO ZYNQ_I2C_INTERRUPT_COMP s
          in (if r = 0 then - I2C_ETIMEDOUT else 0, s))"

definition zynq_i2c_init :: "'h z8_io \<Rightarrow> 'h z8 \<Rightarrow> 'h z8" where
  "zynq_i2c_init IO s =
     (let s = writel IO (push_bit ZYNQ_I2C_CONTROL_DIV_B_SHIFT 16 OR push_bit ZYNQ_I2C_CONTROL_DIV_A_SHIFT 2) i2c_control s
      in jsm_setbits_le32 IO i2c_control (ZYNQ_I2C_CONTROL_MS OR ZYNQ_I2C_CONTROL_ACKEN OR ZYNQ_I2C_CONTROL_NEA) s)"

section \<open>The clock generator\<close>

definition ClockGenWrite :: "'h z8_io \<Rightarrow> byte \<Rightarrow> byte \<Rightarrow> byte \<Rightarrow> 'h z8 \<Rightarrow> (int \<times> 'h z8) option" where
  "ClockGenWrite IO nDev nReg nVal s = Some (zynq_i2c_write IO nDev (ucast nReg) 1 [nVal] s)"

text \<open>The byte is read where the first one received was stored; without one it is unspecified, here 0.\<close>

definition ClockGenRead :: "'h z8_io \<Rightarrow> byte \<Rightarrow> byte \<Rightarrow> 'h z8 \<Rightarrow> (int \<times> byte \<times> 'h z8) option" where
  "ClockGenRead IO nDev nReg s = do {
     (r, data, s) \<leftarrow> zynq_i2c_read IO nDev (ucast nReg) 1 1 1 s;
     Some (r, (case data of b # _ \<Rightarrow> b | [] \<Rightarrow> 0), s) }"

text \<open>\<open>iRetVal = ...; if (iRetVal) return iRetVal;\<close> before the rest of a function, for a call with and without a
  value.\<close>

definition or_fail :: "(int \<times> 'h z8) option \<Rightarrow> ('h z8 \<Rightarrow> (int \<times> 'h z8) option) \<Rightarrow> (int \<times> 'h z8) option" where
  "or_fail m k = do { (r, s) \<leftarrow> m; if r \<noteq> 0 then Some (r, s) else k s }"

definition get_or_fail ::
  "(int \<times> byte \<times> 'h z8) option \<Rightarrow> (byte \<Rightarrow> 'h z8 \<Rightarrow> (int \<times> 'h z8) option) \<Rightarrow> (int \<times> 'h z8) option"
where
  "get_or_fail m k = do { (r, v, s) \<leftarrow> m; if r \<noteq> 0 then Some (r, s) else k v s }"

definition ClockGenWriteMasked :: "'h z8_io \<Rightarrow> byte \<Rightarrow> byte \<Rightarrow> byte \<Rightarrow> byte \<Rightarrow> 'h z8 \<Rightarrow> (int \<times> 'h z8) option" where
  "ClockGenWriteMasked IO nDev nReg nVal nMask s =
     get_or_fail (ClockGenRead IO nDev nReg s) (\<lambda>data s.
       ClockGenWrite IO nDev nReg ((data AND NOT nMask) OR (nVal AND nMask)) s)"

definition PLL_TRIES :: nat where "PLL_TRIES = 1000000"

text \<open>The loop that waits for the lock, with \<open>n\<close> tries to go and the value read last.\<close>

fun lock_loop :: "'h z8_io \<Rightarrow> byte \<Rightarrow> nat \<Rightarrow> byte \<Rightarrow> 'h z8 \<Rightarrow> (int \<times> byte \<times> 'h z8) option" where
  "lock_loop IO nDev 0 ucTemp s = Some (0, ucTemp, s)"
| "lock_loop IO nDev (Suc n) ucTemp s = do {
     (r, ucTemp, s) \<leftarrow> ClockGenRead IO nDev 218 s;
     if r \<noteq> 0 then Some (r, ucTemp, s)
     else if ucTemp AND 0x15 \<noteq> 0 then lock_loop IO nDev n ucTemp s else Some (0, ucTemp, s) }"

text \<open>After the lock: the calibration values are copied to the active registers and the outputs enabled.\<close>

definition pll_finish :: "'h z8_io \<Rightarrow> byte \<Rightarrow> 'h z8 \<Rightarrow> (int \<times> 'h z8) option" where
  "pll_finish IO nDev s =
     get_or_fail (ClockGenRead IO nDev 237 s) (\<lambda>ucTemp s.
     or_fail (ClockGenWrite IO nDev 47 (ucTemp AND 0x03 OR 0x14) s) (\<lambda>s.
     get_or_fail (ClockGenRead IO nDev 236 s) (\<lambda>ucTemp s.
     or_fail (ClockGenWrite IO nDev 46 ucTemp s) (\<lambda>s.
     get_or_fail (ClockGenRead IO nDev 235 s) (\<lambda>ucTemp s.
     or_fail (ClockGenWrite IO nDev 45 ucTemp s) (\<lambda>s.
     or_fail (ClockGenWriteMasked IO nDev 49 0x80 0x80 s) (\<lambda>s.
     or_fail (ClockGenWriteMasked IO nDev 230 0x00 0x10 s) (\<lambda>s. Some (0, s)))))))))"

definition IV_ResetSi5338Pll :: "'h z8_io \<Rightarrow> byte \<Rightarrow> bool \<Rightarrow> 'h z8 \<Rightarrow> (int \<times> 'h z8) option" where
  "IV_ResetSi5338Pll IO nDev bClkIn s =
     or_fail (ClockGenWriteMasked IO nDev 230 0x10 0x10 s) (\<lambda>s.
     or_fail (ClockGenWriteMasked IO nDev 241 0x80 0x80 s) (\<lambda>s.
     or_fail (ClockGenWriteMasked IO nDev 50 0xC0 0xC0 s) (\<lambda>s.
     get_or_fail (ClockGenRead IO nDev 218 s) (\<lambda>ucTemp s.
       if ucTemp AND 0x04 \<noteq> 0 \<and> bClkIn then Some (- 1, s)
       else if ucTemp AND 0x08 \<noteq> 0 \<and> \<not> bClkIn then Some (- 2, s)
       else
     or_fail (ClockGenWriteMasked IO nDev 49 0x00 0x80 s) (\<lambda>s.
     or_fail (ClockGenWrite IO nDev 246 0x02 s) (\<lambda>s.
     or_fail (ClockGenWriteMasked IO nDev 241 0x00 0x80 s) (\<lambda>s.
     or_fail (ClockGenWrite IO nDev 241 0x65 s) (\<lambda>s.
     get_or_fail (lock_loop IO nDev PLL_TRIES 0 s) (\<lambda>ucTemp s.
       if ucTemp AND 0x15 \<noteq> 0 then Some (- 3, s) else pll_finish IO nDev s)))))))))"

text \<open>An entry of the register table: address, value and mask.\<close>

type_synonym Reg_Data = "byte \<times> byte \<times> byte"

text \<open>The loop over the table; it stops at the first error.\<close>

fun table_loop :: "'h z8_io \<Rightarrow> byte \<Rightarrow> Reg_Data list \<Rightarrow> 'h z8 \<Rightarrow> (int \<times> 'h z8) option" where
  "table_loop IO ucDev [] s = Some (0, s)"
| "table_loop IO ucDev ((a, v, m) # es) s =
     (if m \<noteq> 0x00
      then or_fail (ClockGenWriteMasked IO ucDev a v m s) (\<lambda>s. table_loop IO ucDev es s)
      else table_loop IO ucDev es s)"

definition init_gt_clks :: "'h z8_io \<Rightarrow> Reg_Data list \<Rightarrow> byte \<Rightarrow> 'h z8 \<Rightarrow> 'h z8 option" where
  "init_gt_clks IO Reg_Store ucDev s = do {
     (err, s) \<leftarrow> table_loop IO ucDev Reg_Store (zynq_i2c_init IO s);
     if err \<noteq> 0 then Some s
     else do { (err, s) \<leftarrow> IV_ResetSi5338Pll IO ucDev True s; Some s } }"

text \<open>The register table: page 0 in two parts, then page 1.\<close>

definition Reg_Store_0 :: "Reg_Data list" where
  "Reg_Store_0 =
    [(0, 0x00, 0x00), (1, 0x00, 0x00), (2, 0x00, 0x00), (3, 0x00, 0x00), (4, 0x00, 0x00), (5, 0x00, 0x00),
     (6, 0x00, 0xDF), (7, 0x00, 0x00), (8, 0x70, 0x00), (9, 0x0F, 0x00), (10, 0x00, 0x00), (11, 0x00, 0x00),
     (12, 0x00, 0x00), (13, 0x00, 0x00), (14, 0x00, 0x00), (15, 0x00, 0x00), (16, 0x00, 0x00), (17, 0x00, 0x00),
     (18, 0x00, 0x00), (19, 0x00, 0x00), (20, 0x00, 0x00), (21, 0x00, 0x00), (22, 0x00, 0x00), (23, 0x00, 0x00),
     (24, 0x00, 0x00), (25, 0x00, 0x00), (26, 0x00, 0x00), (27, 0x70, 0x80), (28, 0x83, 0xFF), (29, 0x42, 0xFF),
     (30, 0xB0, 0xFF), (31, 0xC0, 0xFF), (32, 0xC0, 0xFF), (33, 0xC0, 0xFF), (34, 0xC0, 0xFF), (35, 0xAA, 0xFF),
     (36, 0x06, 0xFF), (37, 0x06, 0xFF), (38, 0x06, 0xFF), (39, 0x06, 0xFF), (40, 0x84, 0xFF), (41, 0x10, 0xFF),
     (42, 0x24, 0x3F), (43, 0x00, 0x00), (44, 0x00, 0x00), (45, 0x00, 0x00), (46, 0x00, 0x00), (47, 0x3C, 0x3C),
     (48, 0x25, 0xFF), (49, 0x00, 0x7F), (50, 0xC4, 0xFF), (51, 0x07, 0xF7), (52, 0x10, 0xFF), (53, 0x80, 0xFF),
     (54, 0x0A, 0xFF), (55, 0x00, 0xFF), (56, 0x00, 0xFF), (57, 0x00, 0xFF), (58, 0x00, 0xFF), (59, 0x01, 0xFF),
     (60, 0x00, 0xFF), (61, 0x00, 0xFF), (62, 0x00, 0x3F), (63, 0x10, 0xFF), (64, 0x00, 0xFF), (65, 0x08, 0xFF),
     (66, 0x00, 0xFF), (67, 0x00, 0xFF), (68, 0x00, 0xFF), (69, 0x00, 0xFF), (70, 0x01, 0xFF), (71, 0x00, 0xFF),
     (72, 0x00, 0xFF), (73, 0x00, 0x3F), (74, 0x10, 0xFF), (75, 0x13, 0xFF), (76, 0x2E, 0xFF), (77, 0x24, 0xFF),
     (78, 0x00, 0xFF), (79, 0x00, 0xFF), (80, 0x00, 0xFF), (81, 0x0D, 0xFF), (82, 0x00, 0xFF), (83, 0x00, 0xFF),
     (84, 0x00, 0x3F), (85, 0x10, 0xFF), (86, 0x00, 0xFF), (87, 0x08, 0xFF), (88, 0x00, 0xFF), (89, 0x00, 0xFF),
     (90, 0x00, 0xFF), (91, 0x00, 0xFF), (92, 0x01, 0xFF), (93, 0x00, 0xFF), (94, 0x00, 0xFF), (95, 0x00, 0x3F),
     (96, 0x10, 0x00), (97, 0x00, 0xFF), (98, 0x1E, 0xFF), (99, 0x00, 0xFF), (100, 0x00, 0xFF), (101, 0x00, 0xFF),
     (102, 0x00, 0xFF), (103, 0x01, 0xFF), (104, 0x00, 0xFF), (105, 0x00, 0xFF), (106, 0x80, 0xBF), (107, 0x00, 0xFF),
     (108, 0x00, 0xFF), (109, 0x00, 0xFF), (110, 0x40, 0xFF), (111, 0x00, 0xFF), (112, 0x00, 0xFF), (113, 0x00, 0xFF),
     (114, 0x40, 0xFF), (115, 0x00, 0xFF), (116, 0x80, 0xFF), (117, 0x00, 0xFF), (118, 0x40, 0xFF), (119, 0x00, 0xFF),
     (120, 0x00, 0x7F), (121, 0x00, 0xFF), (122, 0x40, 0xFF), (123, 0x00, 0xFF), (124, 0x00, 0xFF), (125, 0x00, 0xFF),
     (126, 0x00, 0xFF), (127, 0x00, 0xFF)]"

definition Reg_Store_1 :: "Reg_Data list" where
  "Reg_Store_1 =
    [(128, 0x00, 0xFF), (129, 0x00, 0x0F), (130, 0x00, 0x7F), (131, 0x00, 0xFF), (132, 0x00, 0xFF), (133, 0x00, 0xFF),
     (134, 0x00, 0xFF), (135, 0x00, 0xFF), (136, 0x00, 0xFF), (137, 0x00, 0xFF), (138, 0x00, 0xFF), (139, 0x00, 0xFF),
     (140, 0x00, 0xFF), (141, 0x00, 0xFF), (142, 0x00, 0xFF), (143, 0x00, 0xFF), (144, 0x00, 0xFF), (145, 0x00, 0x00),
     (146, 0xFF, 0x00), (147, 0x00, 0x00), (148, 0x00, 0x00), (149, 0x00, 0x00), (150, 0x00, 0x00), (151, 0x00, 0x00),
     (152, 0x00, 0xFF), (153, 0x00, 0xFF), (154, 0x00, 0xFF), (155, 0x00, 0xFF), (156, 0x00, 0xFF), (157, 0x00, 0xFF),
     (158, 0x00, 0xFF), (159, 0x00, 0xFF), (160, 0x00, 0xFF), (161, 0x00, 0xFF), (162, 0x00, 0xFF), (163, 0x00, 0xFF),
     (164, 0x00, 0xFF), (165, 0x00, 0xFF), (166, 0x00, 0xFF), (167, 0x00, 0xFF), (168, 0x00, 0xFF), (169, 0x00, 0xFF),
     (170, 0x00, 0xFF), (171, 0x00, 0xFF), (172, 0x00, 0xFF), (173, 0x00, 0xFF), (174, 0x00, 0xFF), (175, 0x00, 0xFF),
     (176, 0x00, 0xFF), (177, 0x00, 0xFF), (178, 0x00, 0xFF), (179, 0x00, 0xFF), (180, 0x00, 0xFF), (181, 0x00, 0xFF),
     (182, 0x00, 0xFF), (183, 0x00, 0xFF), (184, 0x00, 0xFF), (185, 0x00, 0xFF), (186, 0x00, 0xFF), (187, 0x00, 0xFF),
     (188, 0x00, 0xFF), (189, 0x00, 0xFF), (190, 0x00, 0xFF), (191, 0x00, 0xFF), (192, 0x00, 0xFF), (193, 0x00, 0xFF),
     (194, 0x00, 0xFF), (195, 0x00, 0xFF), (196, 0x00, 0xFF), (197, 0x00, 0xFF), (198, 0x00, 0xFF), (199, 0x00, 0xFF),
     (200, 0x00, 0xFF), (201, 0x00, 0xFF), (202, 0x00, 0xFF), (203, 0x00, 0xFF), (204, 0x00, 0xFF), (205, 0x00, 0xFF),
     (206, 0x00, 0xFF), (207, 0x00, 0xFF), (208, 0x00, 0xFF), (209, 0x00, 0xFF), (210, 0x00, 0xFF), (211, 0x00, 0xFF),
     (212, 0x00, 0xFF), (213, 0x00, 0xFF), (214, 0x00, 0xFF), (215, 0x00, 0xFF), (216, 0x00, 0xFF), (217, 0x00, 0x7F),
     (218, 0x00, 0x00), (219, 0x00, 0x00), (220, 0x00, 0x00), (221, 0x0D, 0x00), (222, 0x00, 0x00), (223, 0x00, 0x00),
     (224, 0xF4, 0x00), (225, 0xF0, 0x00), (226, 0x00, 0x00), (227, 0x00, 0x00), (228, 0x00, 0x00), (229, 0x00, 0x00),
     (230, 0x00, 0x00), (231, 0x00, 0x00), (232, 0x00, 0x00), (233, 0x00, 0x00), (234, 0x00, 0x00), (235, 0x00, 0x00),
     (236, 0x00, 0x00), (237, 0x00, 0x00), (238, 0x14, 0x00), (239, 0x00, 0x00), (240, 0x00, 0x00), (241, 0x85, 0x00),
     (242, 0x02, 0x00), (243, 0xF0, 0x00), (244, 0x00, 0x00), (245, 0x00, 0x00), (246, 0x00, 0x00), (247, 0x00, 0x00),
     (248, 0x00, 0x00), (249, 0xA8, 0x00), (250, 0x00, 0x00), (251, 0x84, 0x00), (252, 0x00, 0x00), (253, 0x00, 0x00),
     (254, 0x00, 0x00)]"

definition Reg_Store_2 :: "Reg_Data list" where
  "Reg_Store_2 =
    [(0, 0x00, 0x00), (1, 0x00, 0x00), (2, 0x00, 0x00), (3, 0x00, 0x00), (4, 0x00, 0x00), (5, 0x00, 0x00),
     (6, 0x00, 0x00), (7, 0x00, 0x00), (8, 0x00, 0x00), (9, 0x00, 0x00), (10, 0x00, 0x00), (11, 0x00, 0x00),
     (12, 0x00, 0x00), (13, 0x00, 0x00), (14, 0x00, 0x00), (15, 0x00, 0x00), (16, 0x00, 0x00), (17, 0x01, 0x00),
     (18, 0x00, 0x00), (19, 0x00, 0x00), (20, 0x90, 0x00), (21, 0x31, 0x00), (22, 0x00, 0x00), (23, 0x00, 0x00),
     (24, 0x01, 0x00), (25, 0x00, 0x00), (26, 0x00, 0x00), (27, 0x00, 0x00), (28, 0x00, 0x00), (29, 0x00, 0x00),
     (30, 0x00, 0x00), (31, 0x00, 0xFF), (32, 0x00, 0x7F), (33, 0x01, 0xFF), (34, 0x00, 0x7F), (35, 0x00, 0xFF),
     (36, 0x90, 0xFF), (37, 0x31, 0xFF), (38, 0x00, 0xFF), (39, 0x00, 0x7F), (40, 0x01, 0xFF), (41, 0x00, 0x7F),
     (42, 0x00, 0xFF), (43, 0x00, 0xFF), (44, 0x00, 0x00), (45, 0x00, 0x00), (46, 0x00, 0x00), (47, 0x00, 0xFF),
     (48, 0x00, 0x7F), (49, 0x01, 0xFF), (50, 0x00, 0x7F), (51, 0x00, 0xFF), (52, 0x90, 0xFF), (53, 0x31, 0xFF),
     (54, 0x00, 0xFF), (55, 0x00, 0x7F), (56, 0x01, 0xFF), (57, 0x00, 0x7F), (58, 0x00, 0xFF), (59, 0x00, 0xFF),
     (60, 0x00, 0x00), (61, 0x00, 0x00), (62, 0x00, 0x00), (63, 0x00, 0xFF), (64, 0x00, 0x7F), (65, 0x01, 0xFF),
     (66, 0x00, 0x7F), (67, 0x00, 0xFF), (68, 0x90, 0xFF), (69, 0x31, 0xFF), (70, 0x00, 0xFF), (71, 0x00, 0x7F),
     (72, 0x01, 0xFF), (73, 0x00, 0x7F), (74, 0x00, 0xFF), (75, 0x00, 0xFF), (76, 0x00, 0x00), (77, 0x00, 0x00),
     (78, 0x00, 0x00), (79, 0x00, 0xFF), (80, 0x00, 0x7F), (81, 0x00, 0xFF), (82, 0x00, 0x7F), (83, 0x00, 0xFF),
     (84, 0x90, 0xFF), (85, 0x31, 0xFF), (86, 0x00, 0xFF), (87, 0x00, 0x7F), (88, 0x01, 0xFF), (89, 0x00, 0x7F),
     (90, 0x00, 0xFF), (91, 0x00, 0xFF), (92, 0x00, 0x00), (93, 0x00, 0x00), (94, 0x00, 0x00)]"

definition Reg_Store :: "Reg_Data list" where
  "Reg_Store = Reg_Store_0 @ Reg_Store_1 @ (255, 1, 0xFF) # Reg_Store_2 @ [(255, 0, 0xFF)]"

section \<open>Initialisation of a board\<close>

text \<open>The weak functions a machine may override.\<close>

record 'h z8_hooks =
  iv_z8_init_before_hook :: "'h z8 \<Rightarrow> 'h z8"
  iv_z8_init_after_hook :: "'h z8 \<Rightarrow> 'h z8"
  iv_z8_has_clock_chip :: bool

definition default_before_hook :: "'h z8_io \<Rightarrow> 'h z8 \<Rightarrow> 'h z8" where
  "default_before_hook IO s =
     (let s = PSU_Mask_Write IO 0xFF180208 0x0003DFC3 0x00000082 s;
          s = PSU_Mask_Write IO 0xFF5E0238 0x00100000 0x00000000 s;
          s = PSU_Mask_Write IO 0xFF5E0238 0x00000600 0x00000000 s;
          s = PSU_Mask_Write IO 0xff180020 0x000000FE 0x00000040 s;
          s = PSU_Mask_Write IO 0xff180024 0x000000FE 0x00000040 s
      in jsm_clrbits_le32 IO 0xff5e0238 (push_bit 10 1) s)"

definition default_hooks :: "'h z8_io \<Rightarrow> 'h z8_hooks" where
  "default_hooks IO = \<lparr>iv_z8_init_before_hook = default_before_hook IO, iv_z8_init_after_hook = (\<lambda>s. s), iv_z8_has_clock_chip = True\<rparr>"

definition before_hook_00104 :: "'h z8_io \<Rightarrow> 'h z8 \<Rightarrow> 'h z8" where
  "before_hook_00104 IO = PSU_Mask_Write IO 0xFF5E0238 0x00000600 0x00000000"

definition hooks_00104 :: "'h z8_io \<Rightarrow> 'h z8_hooks" where
  "hooks_00104 IO = (default_hooks IO)\<lparr>iv_z8_init_before_hook := before_hook_00104 IO\<rparr>"

definition iv_00108_enable_clocks :: "'h z8_io \<Rightarrow> 'h z8 \<Rightarrow> 'h z8" where
  "iv_00108_enable_clocks IO s =
     (let pins = (push_bit 1 1 OR push_bit 2 1 OR push_bit 3 1 OR push_bit 4 1 :: u32);
          dirm = push_bit 16 pins;
          s = PSU_Mask_Write IO 0x00FF0A0204 (ucast dirm) (ucast dirm) s;
          s = PSU_Mask_Write IO 0x00FF0A0208 (ucast dirm) (ucast dirm) s;
          m = push_bit 16 pins
      in Xil_Out32 IO 0x00FF0A0004 ((0xFFFF0000 AND NOT m) OR pins) s)"

definition hooks_00108 :: "'h z8_io \<Rightarrow> 'h z8_hooks" where
  "hooks_00108 IO = (default_hooks IO)\<lparr>iv_z8_init_before_hook := iv_00108_enable_clocks IO, iv_z8_has_clock_chip := False\<rparr>"

text \<open>The addresses are those of the vendor's \<open>psu_init.h\<close>.  The hook of \<open>00127.c\<close> makes the same accesses.\<close>

record psu_addresses =
  IOU_SLCR_MIO_MST_TRI1_OFFSET :: u64
  IOU_SLCR_MIO_PIN_36_OFFSET :: u64
  IOU_SLCR_MIO_PIN_37_OFFSET :: u64
  CRL_APB_I2C0_REF_CTRL_OFFSET :: u64
  CRL_APB_I2C1_REF_CTRL_OFFSET :: u64
  CRL_APB_TIMESTAMP_REF_CTRL_OFFSET :: u64

definition CRL_APB_RST_LPD_IOU2_OFFSET :: u64 where "CRL_APB_RST_LPD_IOU2_OFFSET = 0xFF5E0238"

definition before_hook_00114 :: "'h z8_io \<Rightarrow> psu_addresses \<Rightarrow> 'h z8 \<Rightarrow> 'h z8" where
  "before_hook_00114 IO A s =
     (let s = PSU_Mask_Write IO (IOU_SLCR_MIO_MST_TRI1_OFFSET A) 0x00000030 0x00000000 s;
          s = Xil_Out32 IO (IOU_SLCR_MIO_PIN_36_OFFSET A) 0x00000040 s;
          s = Xil_Out32 IO (IOU_SLCR_MIO_PIN_37_OFFSET A) 0x00000040 s;
          s = PSU_Mask_Write IO (CRL_APB_I2C0_REF_CTRL_OFFSET A) 0x013F3F07 0x01010F00 s;
          s = PSU_Mask_Write IO (CRL_APB_I2C1_REF_CTRL_OFFSET A) 0x013F3F07 0x01010F00 s;
          s = PSU_Mask_Write IO (CRL_APB_TIMESTAMP_REF_CTRL_OFFSET A) 0x01003F07 0x01000104 s;
          s = PSU_Mask_Write IO CRL_APB_RST_LPD_IOU2_OFFSET 0x00100000 0x00000000 s;
          s = PSU_Mask_Write IO CRL_APB_RST_LPD_IOU2_OFFSET 0x00000060 0x00000000 s
      in PSU_Mask_Write IO CRL_APB_RST_LPD_IOU2_OFFSET 0x00000600 0x00000000 s)"

definition before_hook_00127 :: "'h z8_io \<Rightarrow> psu_addresses \<Rightarrow> 'h z8 \<Rightarrow> 'h z8" where
  "before_hook_00127 = before_hook_00114"

definition hooks_00126 :: "'h z8_io \<Rightarrow> 'h z8_hooks" where
  "hooks_00126 IO = (default_hooks IO)\<lparr>iv_z8_has_clock_chip := False\<rparr>"

definition iv_z8_init :: "'h z8_io \<Rightarrow> 'h z8_hooks \<Rightarrow> 'h z8 \<Rightarrow> 'h z8 option" where
  "iv_z8_init IO K s = do {
     s \<leftarrow> (let s = iv_z8_init_before_hook K s in
       if iv_z8_has_clock_chip K then init_gt_clks IO Reg_Store 0x70 s else Some s);
     Some (iv_z8_init_after_hook K s) }"

section \<open>The bus is released\<close>

text \<open>Whether the last value written to the control register asks to hold the bus.\<close>

definition bus_held :: "'h z8 \<Rightarrow> bool" where
  "bus_held s \<longleftrightarrow> (case find (\<lambda>(a, _). a = ucast i2c_control) (rev (z8_writes s)) of
     None \<Rightarrow> False | Some (_, v) \<Rightarrow> v AND ZYNQ_I2C_CONTROL_HOLD \<noteq> 0)"

lemma bus_held_read [simp]: "bus_held (snd (readl IO a s)) = bus_held s"
  by (simp add: bus_held_def readl_def Xil_In32_def)

lemma ucast_addr_eq: "ucast (a :: u32) = (ucast b :: u64) \<longleftrightarrow> a = b"
proof -
  have "(ucast (ucast a :: u64) :: u32) = a" for a :: u32 by (rule bit_word_eqI) (simp add: bit_simps)
  then show ?thesis by metis
qed

lemma bus_held_write: "bus_held (writel IO v a s) = (if a = i2c_control then v AND ZYNQ_I2C_CONTROL_HOLD \<noteq> 0 else bus_held s)"
  by (simp add: bus_held_def writel_def Xil_Out32_def ucast_addr_eq)

lemma bus_held_other [simp]: "a \<noteq> i2c_control \<Longrightarrow> bus_held (writel IO v a s) = bus_held s"
  by (simp add: bus_held_write)

lemma other_regs [simp]:
  "i2c_address \<noteq> i2c_control" "i2c_data \<noteq> i2c_control" "i2c_interrupt_status \<noteq> i2c_control" "i2c_transfer_size \<noteq> i2c_control"
  by (simp_all add: i2c_reg_defs)

lemma bus_held_wait_loop [simp]: "bus_held (snd (wait_loop IO n m v s)) = bus_held s"
  by (induction n arbitrary: v s) (simp_all add: Let_def case_prod_beta)

lemma bus_held_wait [simp]: "bus_held (snd (zynq_i2c_wait IO m s)) = bus_held s"
  by (simp add: zynq_i2c_wait_def Let_def case_prod_beta)

lemma bus_released [simp]: "\<not> bus_held (release_bus IO s)"
proof -
  have "(v AND NOT ZYNQ_I2C_CONTROL_HOLD) AND ZYNQ_I2C_CONTROL_HOLD = 0" for v by (rule bit_eqI) (simp add: bit_simps)
  then show ?thesis by (simp add: release_bus_def jsm_clrbits_le32_def Let_def case_prod_beta bus_held_write)
qed

lemma send_loop_released: "\<not> fst (send_loop IO bs s) \<Longrightarrow> \<not> bus_held (snd (send_loop IO bs s))"
  by (induction bs arbitrary: s) (simp_all add: Let_def case_prod_beta split: if_split_asm)

lemma write_released: "\<not> bus_held (snd (zynq_i2c_write IO dev addr alen data s))"
  by (simp add: zynq_i2c_write_def Let_def case_prod_beta send_loop_released)

lemma recv_loop_released: "recv_loop IO cap len i data s = Some (r, xs, s') \<Longrightarrow> \<not> bus_held s'"
proof -
  have "case y of (r, xs, s') \<Rightarrow> \<not> bus_held s'" if "recv_loop IO cap len i data s = Some y" for y
  proof (rule recv_loop.raw_induct [where P = "\<lambda>IO cap len i data s y. case y of (r, xs, s') \<Rightarrow> \<not> bus_held s'", OF _ that])
    fix recv and IO :: "'a z8_io" and cap len i data s y
    assume IH: "\<And>IO cap len i data s y. recv IO cap len i data s = Some y \<Longrightarrow> case y of (r, xs, s' :: 'a z8) \<Rightarrow> \<not> bus_held s'"
      and body: "(let w = zynq_i2c_wait IO (ZYNQ_I2C_INTERRUPT_COMP OR ZYNQ_I2C_INTERRUPT_DATA) s in
        if fst w = 0 then Some (- I2C_ETIMEDOUT, data, release_bus IO (snd w))
        else fifo_loop IO cap len i data (snd w) \<bind> (\<lambda>f.
          let t = readl IO i2c_transfer_size (snd (snd f)) in
          if fst t \<noteq> 0 then recv IO cap len (fst f) (fst (snd f)) (snd t)
          else Some (0, fst (snd f), release_bus IO (snd t)))) = Some y"
    show "case y of (r, xs, s') \<Rightarrow> \<not> bus_held s'"
      using body by (auto simp: Let_def elim!: option_bindE dest: IH split: if_split_asm)
  qed
  then show "recv_loop IO cap len i data s = Some (r, xs, s') \<Longrightarrow> \<not> bus_held s'" by fastforce
qed

lemma read_released:
  assumes "zynq_i2c_read IO dev addr alen cap len s = Some (r, xs, s')" "0 \<le> len" "len \<le> 255"
  shows "\<not> bus_held s'"
  using assms
  by (auto simp: zynq_i2c_read_def ZYNQ_I2C_TRANSFERT_SIZE_MAX_def Let_def case_prod_beta dest: recv_loop_released split: if_split_asm)

text \<open>Every call of the clock generator ends with the bus released.\<close>

definition leaves_free :: "(int \<times> 'h z8) option \<Rightarrow> bool" where
  "leaves_free m \<longleftrightarrow> (\<forall>r s. m = Some (r, s) \<longrightarrow> \<not> bus_held s)"

lemma clock_write_free: "leaves_free (ClockGenWrite IO d r v s)"
  using write_released [of IO d "ucast r" 1 "[v]" s] by (auto simp: leaves_free_def ClockGenWrite_def)

lemma clock_read_free: "ClockGenRead IO d r s = Some (x, v, s') \<Longrightarrow> \<not> bus_held s'"
  by (auto simp: ClockGenRead_def elim!: option_bindE dest: read_released)

lemma get_or_fail_free:
  assumes "\<And>v s. leaves_free (k v s)"
  shows "leaves_free (get_or_fail (ClockGenRead IO d r s) k)"
  using assms
  by (auto simp: leaves_free_def get_or_fail_def elim!: option_bindE dest: clock_read_free split: if_split_asm)

lemma or_fail_free: "leaves_free m \<Longrightarrow> (\<And>s. \<not> bus_held s \<Longrightarrow> leaves_free (k s)) \<Longrightarrow> leaves_free (or_fail m k)"
  by (auto simp: leaves_free_def or_fail_def elim!: option_bindE split: if_split_asm)

lemma masked_free: "leaves_free (ClockGenWriteMasked IO d r v m s)"
  unfolding ClockGenWriteMasked_def by (intro get_or_fail_free clock_write_free)

lemma lock_loop_free: "\<not> bus_held s \<Longrightarrow> lock_loop IO d n t s = Some (r, v, s') \<Longrightarrow> \<not> bus_held s'"
  by (induction n arbitrary: t s)
     (auto elim!: option_bindE dest!: clock_read_free split: if_split_asm)

lemma return_free: "\<not> bus_held s \<Longrightarrow> leaves_free (Some (r, s))"
  by (simp add: leaves_free_def)

lemma pll_finish_free: "leaves_free (pll_finish IO d s)"
  unfolding pll_finish_def by (intro get_or_fail_free or_fail_free clock_write_free masked_free return_free)

lemma reset_free: "leaves_free (IV_ResetSi5338Pll IO d b s)"
proof -
  have lock: "leaves_free (get_or_fail (lock_loop IO d n t s) k)" if "\<not> bus_held s" "\<And>v s. \<not> bus_held s \<Longrightarrow> leaves_free (k v s)" for n t s k
    using that by (auto simp: leaves_free_def get_or_fail_def elim!: option_bindE dest: lock_loop_free split: if_split_asm)
  have read: "leaves_free (get_or_fail (ClockGenRead IO d r s) k)" if "\<And>v s. \<not> bus_held s \<Longrightarrow> leaves_free (k v s)" for r s k
    using that by (auto simp: leaves_free_def get_or_fail_def elim!: option_bindE dest: clock_read_free split: if_split_asm)
  show ?thesis
    unfolding IV_ResetSi5338Pll_def
    by (intro or_fail_free masked_free clock_write_free read lock) (auto intro!: or_fail_free masked_free clock_write_free lock return_free pll_finish_free)
qed

lemma table_loop_free: "\<not> bus_held s \<Longrightarrow> leaves_free (table_loop IO d es s)"
  by (induction es arbitrary: s) (auto intro!: or_fail_free masked_free return_free)

lemma table_loop_error_free: "table_loop IO d es s = Some (r, s') \<Longrightarrow> r \<noteq> 0 \<Longrightarrow> \<not> bus_held s'"
proof (induction es arbitrary: s)
  case (Cons e es)
  obtain a v m where e: "e = (a, v, m)" by (metis prod_cases3)
  show ?case
  proof (cases "m = 0")
    case False
    have "leaves_free (or_fail (ClockGenWriteMasked IO d a v m s) (\<lambda>s. table_loop IO d es s))"
      by (intro or_fail_free masked_free table_loop_free)
    then show ?thesis using Cons.prems False by (simp add: e leaves_free_def)
  qed (use Cons e in simp)
qed simp

text \<open>
  C37: the I2C bus is not left blocked.  Whatever the hardware does, and whether the clock generator answers,
  times out or reports an error: if the initialisation of the clocks returns, the last value written to the
  control register of the I2C controller releases the bus.
\<close>

theorem init_releases_bus:
  assumes "init_gt_clks IO table dev s = Some s'"
  shows "\<not> bus_held s'"
  using assms reset_free [of IO dev True]
  by (auto simp: init_gt_clks_def leaves_free_def elim!: option_bindE dest: table_loop_error_free split: if_split_asm)

section \<open>A working controller and clock generator\<close>

text \<open>What a program sees of a controller and the clock generator behind it: the direction, the register address of
  the clock generator, if one was sent, and its registers by page and address.  Register 255 selects the page and
  is the same on all pages.\<close>

record i2c_view =
  iv_rw :: bool
  iv_ptr :: "byte option"
  iv_regs :: "byte \<times> byte \<Rightarrow> byte"

definition chip_loc :: "(byte \<times> byte \<Rightarrow> byte) \<Rightarrow> byte \<Rightarrow> byte \<times> byte" where
  "chip_loc regs r = (if r = 255 then (0, 255) else (regs (0, 255), r))"

definition put_reg :: "byte \<Rightarrow> byte \<Rightarrow> (byte \<times> byte \<Rightarrow> byte) \<Rightarrow> byte \<times> byte \<Rightarrow> byte" where
  "put_reg r v regs = regs(chip_loc regs r := v)"

definition get_reg :: "byte \<Rightarrow> (byte \<times> byte \<Rightarrow> byte) \<Rightarrow> byte" where
  "get_reg r regs = regs (chip_loc regs r)"

text \<open>The controller completes each transfer before it is polled, and the clock generator acknowledges: the first
  byte of a write is a register address, further bytes are stored from there on, and a read delivers from there on.\<close>

definition i2c_works :: "'h z8_io \<Rightarrow> byte \<Rightarrow> ('h \<Rightarrow> i2c_view) \<Rightarrow> bool" where
  "i2c_works IO dev view \<longleftrightarrow>
     (\<forall>h. bit (fst (io_in IO (ucast i2c_control) h)) 0 = iv_rw (view h) \<and> view (snd (io_in IO (ucast i2c_control) h)) = view h) \<and>
     (\<forall>h v. view (io_out IO (ucast i2c_control) v h) = (view h)\<lparr>iv_rw := bit v 0\<rparr>) \<and>
     (\<forall>h. view (io_out IO (ucast i2c_address) (ucast dev) h) = (if iv_rw (view h) then view h else (view h)\<lparr>iv_ptr := None\<rparr>)) \<and>
     (\<forall>h v. \<not> iv_rw (view h) \<longrightarrow> view (io_out IO (ucast i2c_data) v h) = (case iv_ptr (view h) of
        None \<Rightarrow> (view h)\<lparr>iv_ptr := Some (ucast v)\<rparr>
      | Some p \<Rightarrow> (view h)\<lparr>iv_ptr := Some (p + 1), iv_regs := put_reg p (ucast v) (iv_regs (view h))\<rparr>)) \<and>
     (\<forall>h p. iv_rw (view h) \<and> iv_ptr (view h) = Some p \<longrightarrow>
        ucast (fst (io_in IO (ucast i2c_data) h)) = get_reg p (iv_regs (view h)) \<and>
        view (snd (io_in IO (ucast i2c_data) h)) = (view h)\<lparr>iv_ptr := Some (p + 1)\<rparr>) \<and>
     (\<forall>h. bit (fst (io_in IO (ucast i2c_interrupt_status) h)) 0 \<and> view (snd (io_in IO (ucast i2c_interrupt_status) h)) = view h) \<and>
     (\<forall>h v. view (io_out IO (ucast i2c_interrupt_status) v h) = view h) \<and>
     (\<forall>h. fst (io_in IO (ucast i2c_transfer_size) h) = 0 \<and> view (snd (io_in IO (ucast i2c_transfer_size) h)) = view h) \<and>
     (\<forall>h v. view (io_out IO (ucast i2c_transfer_size) v h) = view h)"

abbreviation sv :: "('h \<Rightarrow> i2c_view) \<Rightarrow> 'h z8 \<Rightarrow> i2c_view" where
  "sv view s \<equiv> view (z8_hw s)"

lemma z8_hw_write [simp]: "z8_hw (writel IO v a s) = io_out IO (ucast a) v (z8_hw s)"
  by (simp add: writel_def Xil_Out32_def)

lemma readl_parts [simp]: "fst (readl IO a s) = fst (io_in IO (ucast a) (z8_hw s))" "z8_hw (snd (readl IO a s)) = snd (io_in IO (ucast a) (z8_hw s))"
  by (simp_all add: readl_def Xil_In32_def)

lemma works_bits:
  assumes "i2c_works IO dev view"
  shows "sv view (jsm_setbits_le32 IO i2c_control m s) = (sv view s)\<lparr>iv_rw := iv_rw (sv view s) \<or> bit m 0\<rparr>"
    "sv view (jsm_clrbits_le32 IO i2c_control m s) = (sv view s)\<lparr>iv_rw := iv_rw (sv view s) \<and> \<not> bit m 0\<rparr>"
  using assms by (simp_all add: i2c_works_def jsm_setbits_le32_def jsm_clrbits_le32_def Let_def case_prod_beta bit_simps)

lemma i2c_low_bits:
  "bit ZYNQ_I2C_CONTROL_RW 0" "\<not> bit ZYNQ_I2C_CONTROL_HOLD 0" "\<not> bit (ZYNQ_I2C_CONTROL_CLR_FIFO OR ZYNQ_I2C_CONTROL_HOLD) 0"
  "bit (ZYNQ_I2C_CONTROL_CLR_FIFO OR ZYNQ_I2C_CONTROL_RW) 0" "bit ZYNQ_I2C_INTERRUPT_COMP 0" "bit (ZYNQ_I2C_INTERRUPT_COMP OR ZYNQ_I2C_INTERRUPT_DATA) 0"
  by (simp_all add: i2c_bit_defs bit_simps)

lemma works_release:
  assumes "i2c_works IO dev view"
  shows "sv view (release_bus IO s) = sv view s"
  by (simp add: release_bus_def works_bits [OF assms] i2c_low_bits)

lemma works_wait:
  assumes "i2c_works IO dev view" "bit m 0"
  shows "fst (zynq_i2c_wait IO m s) \<noteq> 0 \<and> sv view (snd (zynq_i2c_wait IO m s)) = sv view s"
proof -
  let ?v = "fst (io_in IO (ucast i2c_interrupt_status) (z8_hw s))"
  have "bit (?v AND m) 0" using assms by (simp add: i2c_works_def bit_simps)
  then have nz: "?v AND m \<noteq> 0" by (metis bit_0_eq bot_apply bot_bool_def)
  then have "wait_loop IO (Suc n) m 0 s = (?v, snd (readl IO i2c_interrupt_status s))" for n
    by (simp add: Let_def case_prod_beta)
  from this [of 99] show ?thesis using nz assms(1) by (simp add: zynq_i2c_wait_def i2c_works_def)
qed

lemma works_write:
  assumes "i2c_works IO dev view"
  shows "\<exists>s'. ClockGenWrite IO dev r v s = Some (0, s') \<and> iv_regs (sv view s') = put_reg r v (iv_regs (sv view s))"
proof -
  note W = works_bits [OF assms] i2c_low_bits and wait = works_wait [OF assms i2c_low_bits(5)]
  let ?s0 = "jsm_clrbits_le32 IO i2c_control ZYNQ_I2C_CONTROL_RW
    (jsm_setbits_le32 IO i2c_control (ZYNQ_I2C_CONTROL_CLR_FIFO OR ZYNQ_I2C_CONTROL_HOLD) s)"
  let ?s1 = "writel IO (ucast dev) i2c_address (writel IO 0xFF i2c_interrupt_status ?s0)"
  let ?s2 = "snd (zynq_i2c_wait IO ZYNQ_I2C_INTERRUPT_COMP (writel IO (ucast r) i2c_data ?s1))"
  let ?s3 = "snd (readl IO i2c_transfer_size (writel IO (ucast v) i2c_data ?s2))"
  let ?s4 = "snd (zynq_i2c_wait IO ZYNQ_I2C_INTERRUPT_COMP (release_bus IO ?s3))"
  have rv: "ucast (ucast x :: u32) = x" for x :: byte by (rule bit_word_eqI) (simp add: bit_simps)
  have "sv view ?s0 = (sv view s)\<lparr>iv_rw := False\<rparr>" by (simp add: W)
  then have "sv view ?s1 = (sv view s)\<lparr>iv_rw := False, iv_ptr := None\<rparr>" using assms by (simp add: i2c_works_def)
  then have "sv view (writel IO (ucast r) i2c_data ?s1) = (sv view s)\<lparr>iv_rw := False, iv_ptr := Some r\<rparr>"
    using assms rv [of r] by (simp add: i2c_works_def)
  then have "sv view ?s2 = (sv view s)\<lparr>iv_rw := False, iv_ptr := Some r\<rparr>" using wait by simp
  then have "iv_regs (sv view (writel IO (ucast v) i2c_data ?s2)) = put_reg r v (iv_regs (sv view s))"
    using assms rv [of v] by (simp add: i2c_works_def)
  then have "iv_regs (sv view ?s3) = put_reg r v (iv_regs (sv view s))" using assms by (simp add: i2c_works_def)
  then have "iv_regs (sv view ?s4) = put_reg r v (iv_regs (sv view s))" using wait works_release [OF assms] by simp
  moreover have "zynq_i2c_write IO dev (ucast r) 1 [v] s = (0, ?s4)"
  proof -
    have "fst (readl IO i2c_transfer_size x) \<noteq> ZYNQ_I2C_FIFO_DEPTH" for x
      using assms by (simp add: i2c_works_def ZYNQ_I2C_FIFO_DEPTH_def)
    then show ?thesis using wait by (simp add: zynq_i2c_write_def Let_def case_prod_beta del: readl_parts)
  qed
  ultimately show ?thesis by (simp add: ClockGenWrite_def)
qed

lemma works_fifo:
  assumes "i2c_works IO dev view" "iv_rw (sv view s)" "iv_ptr (sv view s) = Some p"
  shows "\<exists>s'. fifo_loop IO 1 1 0 [] s = Some (1, [get_reg p (iv_regs (sv view s))], s') \<and> iv_regs (sv view s') = iv_regs (sv view s)"
proof -
  let ?s1 = "snd (readl IO i2c_transfer_size s)"
  let ?s2 = "snd (readl IO i2c_data ?s1)"
  have t: "fst (readl IO i2c_transfer_size x) = 0" for x using assms(1) by (simp add: i2c_works_def)
  have v: "sv view ?s1 = sv view s" using assms(1) by (simp add: i2c_works_def)
  then have d: "ucast (fst (readl IO i2c_data ?s1)) = get_reg p (iv_regs (sv view s))" "sv view ?s2 = (sv view s)\<lparr>iv_ptr := Some (p + 1)\<rparr>"
    using assms by (simp_all add: i2c_works_def)
  have "fifo_loop IO 1 1 0 [] s = fifo_loop IO 1 1 1 [get_reg p (iv_regs (sv view s))] ?s2"
    by (subst fifo_loop.simps) (simp add: t d(1) Let_def del: readl_parts)
  moreover have "fifo_loop IO 1 1 1 xs ?s2 = Some (1, xs, snd (readl IO i2c_transfer_size ?s2))" for xs
    by (subst fifo_loop.simps) (simp add: t Let_def del: readl_parts)
  moreover have "iv_regs (sv view (snd (readl IO i2c_transfer_size ?s2))) = iv_regs (sv view s)"
    using d(2) assms(1) by (simp add: i2c_works_def)
  ultimately show ?thesis by simp
qed

lemma works_read:
  assumes "i2c_works IO dev view"
  shows "\<exists>s'. ClockGenRead IO dev r s = Some (0, get_reg r (iv_regs (sv view s)), s') \<and> iv_regs (sv view s') = iv_regs (sv view s)"
proof -
  note W = works_bits [OF assms] i2c_low_bits and wait = works_wait [OF assms]
  let ?s0 = "jsm_clrbits_le32 IO i2c_control ZYNQ_I2C_CONTROL_HOLD
    (jsm_setbits_le32 IO i2c_control (ZYNQ_I2C_CONTROL_CLR_FIFO OR ZYNQ_I2C_CONTROL_HOLD) s)"
  let ?s1 = "writel IO (ucast dev) i2c_address (jsm_clrbits_le32 IO i2c_control ZYNQ_I2C_CONTROL_RW (writel IO 0xFF i2c_interrupt_status ?s0))"
  let ?s2 = "snd (zynq_i2c_wait IO ZYNQ_I2C_INTERRUPT_COMP (writel IO (ucast r) i2c_data ?s1))"
  let ?s3 = "writel IO 1 i2c_transfer_size (writel IO (ucast dev) i2c_address
    (jsm_setbits_le32 IO i2c_control (ZYNQ_I2C_CONTROL_CLR_FIFO OR ZYNQ_I2C_CONTROL_RW) ?s2))"
  let ?s4 = "snd (zynq_i2c_wait IO (ZYNQ_I2C_INTERRUPT_COMP OR ZYNQ_I2C_INTERRUPT_DATA) ?s3)"
  have rv: "ucast (ucast x :: u32) = x" for x :: byte by (rule bit_word_eqI) (simp add: bit_simps)
  have "sv view (writel IO 0xFF i2c_interrupt_status ?s0) = (sv view s)"
    using assms by (simp add: W i2c_works_def)
  then have "sv view (jsm_clrbits_le32 IO i2c_control ZYNQ_I2C_CONTROL_RW (writel IO 0xFF i2c_interrupt_status ?s0)) = (sv view s)\<lparr>iv_rw := False\<rparr>"
    unfolding W(2) by (simp add: i2c_low_bits)
  then have "sv view ?s1 = (sv view s)\<lparr>iv_rw := False, iv_ptr := None\<rparr>" using assms by (simp add: i2c_works_def)
  then have "sv view (writel IO (ucast r) i2c_data ?s1) = (sv view s)\<lparr>iv_rw := False, iv_ptr := Some r\<rparr>"
    using assms rv [of r] by (simp add: i2c_works_def)
  then have s2: "sv view ?s2 = (sv view s)\<lparr>iv_rw := False, iv_ptr := Some r\<rparr>" using wait [OF i2c_low_bits(5)] by simp
  have "sv view ?s3 = (sv view s)\<lparr>iv_rw := True, iv_ptr := Some r\<rparr>" using assms s2 by (simp add: W i2c_works_def)
  then have s4: "sv view ?s4 = (sv view s)\<lparr>iv_rw := True, iv_ptr := Some r\<rparr>" using wait [OF i2c_low_bits(6)] by simp
  then obtain s5 where s5: "fifo_loop IO 1 1 0 [] ?s4 = Some (1, [get_reg r (iv_regs (sv view s))], s5)" "iv_regs (sv view s5) = iv_regs (sv view s)"
    using works_fifo [OF assms, of ?s4 r] by auto
  let ?s6 = "snd (readl IO i2c_transfer_size s5)"
  have t: "fst (readl IO i2c_transfer_size s5) = 0" "sv view ?s6 = sv view s5" using assms by (simp_all add: i2c_works_def)
  have "recv_loop IO 1 1 0 [] ?s3 = Some (0, [get_reg r (iv_regs (sv view s))], release_bus IO ?s6)"
    using wait [OF i2c_low_bits(6)] by (subst recv_loop.simps) (simp add: s5 t(1) Let_def del: readl_parts One_nat_def)
  then have "zynq_i2c_read IO dev (ucast r) 1 1 1 s = Some (0, [get_reg r (iv_regs (sv view s))], release_bus IO ?s6)"
    using wait [OF i2c_low_bits(5)] by (simp add: zynq_i2c_read_def ZYNQ_I2C_TRANSFERT_SIZE_MAX_def Let_def case_prod_beta del: readl_parts)
  then show ?thesis using works_release [OF assms] t(2) s5(2) by (simp add: ClockGenRead_def)
qed

section \<open>Programming the clock generator\<close>

definition masked_set :: "Reg_Data \<Rightarrow> (byte \<times> byte \<Rightarrow> byte) \<Rightarrow> byte \<times> byte \<Rightarrow> byte" where
  "masked_set e regs = (case e of (r, v, m) \<Rightarrow> put_reg r ((get_reg r regs AND NOT m) OR (v AND m)) regs)"

lemma masked_set_0: "masked_set (r, v, 0) regs = regs"
  by (simp add: masked_set_def put_reg_def get_reg_def)

lemma works_masked:
  assumes "i2c_works IO dev view"
  shows "\<exists>s'. ClockGenWriteMasked IO dev r v m s = Some (0, s') \<and> iv_regs (sv view s') = masked_set (r, v, m) (iv_regs (sv view s))"
proof -
  obtain s1 where 1: "ClockGenRead IO dev r s = Some (0, get_reg r (iv_regs (sv view s)), s1)" "iv_regs (sv view s1) = iv_regs (sv view s)"
    using works_read [OF assms] by blast
  show ?thesis
    using 1 works_write [OF assms, of r "(get_reg r (iv_regs (sv view s)) AND NOT m) OR (v AND m)" s1]
    by (simp add: ClockGenWriteMasked_def get_or_fail_def masked_set_def)
qed

lemma works_table:
  assumes "i2c_works IO dev view"
  shows "\<exists>s'. table_loop IO dev es s = Some (0, s') \<and> iv_regs (sv view s') = fold masked_set es (iv_regs (sv view s))"
proof (induction es arbitrary: s)
  case (Cons e es)
  obtain r v m where e: "e = (r, v, m)" by (metis prod_cases3)
  obtain s1 where s1: "ClockGenWriteMasked IO dev r v m s = Some (0, s1)" "iv_regs (sv view s1) = masked_set (r, v, m) (iv_regs (sv view s))"
    using works_masked [OF assms] by blast
  show ?case using Cons.IH [of s] Cons.IH [of s1] s1 by (simp add: e or_fail_def masked_set_0)
qed simp

lemma page_put [simp]: "r \<noteq> 255 \<Longrightarrow> put_reg r v regs (0, 255) = regs (0, 255)"
  by (simp add: put_reg_def chip_loc_def)

lemma get_put [simp]: "r \<noteq> 255 \<Longrightarrow> get_reg q (put_reg r v regs) = (if q = r then v else get_reg q regs)"
  by (auto simp: get_reg_def put_reg_def chip_loc_def)

lemma get_masked [simp]:
  "r \<noteq> 255 \<Longrightarrow> get_reg q (masked_set (r, v, m) regs) = (if q = r then (get_reg r regs AND NOT m) OR (v AND m) else get_reg q regs)"
  by (simp add: masked_set_def)

text \<open>The effect of the reset sequence on the registers.\<close>

definition pll_regs :: "(byte \<times> byte \<Rightarrow> byte) \<Rightarrow> byte \<times> byte \<Rightarrow> byte" where
  "pll_regs regs =
     (let regs = fold masked_set [(230, 0x10, 0x10), (241, 0x80, 0x80), (50, 0xC0, 0xC0), (49, 0x00, 0x80)] regs;
          regs = put_reg 241 0x65 (masked_set (241, 0x00, 0x80) (put_reg 246 0x02 regs));
          regs = put_reg 47 (get_reg 237 regs AND 0x03 OR 0x14) regs;
          regs = put_reg 46 (get_reg 236 regs) regs;
          regs = put_reg 45 (get_reg 235 regs) regs
      in fold masked_set [(49, 0x80, 0x80), (230, 0x00, 0x10)] regs)"

lemma works_lock:
  assumes "i2c_works IO dev view" "get_reg 218 (iv_regs (sv view s)) AND 0x15 = 0"
  shows "\<exists>s'. lock_loop IO dev PLL_TRIES t s = Some (0, get_reg 218 (iv_regs (sv view s)), s') \<and> iv_regs (sv view s') = iv_regs (sv view s)"
proof -
  have "lock_loop IO dev (Suc n) t s = lock_loop IO dev (Suc 0) t s" for n
    using works_read [OF assms(1), of 218 s] assms(2) by auto
  moreover have "PLL_TRIES = Suc 999999" by (simp add: PLL_TRIES_def)
  ultimately have "lock_loop IO dev PLL_TRIES t s = lock_loop IO dev (Suc 0) t s" by metis
  then show ?thesis using works_read [OF assms(1), of 218 s] assms(2) by auto
qed

text \<open>A call that succeeds and leaves the given register contents.\<close>

definition performs :: "('h \<Rightarrow> i2c_view) \<Rightarrow> (int \<times> 'h z8) option \<Rightarrow> (byte \<times> byte \<Rightarrow> byte) \<Rightarrow> bool" where
  "performs view m regs \<longleftrightarrow> (\<exists>s'. m = Some (0, s') \<and> iv_regs (sv view s') = regs)"

lemma performs_return: "iv_regs (sv view s) = regs \<Longrightarrow> performs view (Some (0, s)) regs"
  by (simp add: performs_def)

lemma performs_or_fail:
  "performs view m R \<Longrightarrow> (\<And>s. iv_regs (sv view s) = R \<Longrightarrow> performs view (k s) R') \<Longrightarrow> performs view (or_fail m k) R'"
  by (auto simp: performs_def or_fail_def)

lemma performs_get:
  assumes "i2c_works IO dev view" "\<And>s1. iv_regs (sv view s1) = iv_regs (sv view s) \<Longrightarrow> performs view (k (get_reg r (iv_regs (sv view s))) s1) R"
  shows "performs view (get_or_fail (ClockGenRead IO dev r s) k) R"
  using works_read [OF assms(1), of r s] assms(2) by (auto simp: get_or_fail_def)

lemma performs_ops:
  assumes "i2c_works IO dev view"
  shows "performs view (ClockGenWriteMasked IO dev r v m s) (masked_set (r, v, m) (iv_regs (sv view s)))"
    "performs view (ClockGenWrite IO dev r v s) (put_reg r v (iv_regs (sv view s)))"
  using works_masked [OF assms, of r v m s] works_write [OF assms, of r v s] by (auto simp: performs_def)

lemma works_reset:
  assumes W: "i2c_works IO dev view" and l: "get_reg 218 (iv_regs (sv view s)) AND 0x15 = 0"
  shows "performs view (IV_ResetSi5338Pll IO dev True s) (pll_regs (iv_regs (sv view s)))"
proof -
  have l4: "get_reg 218 (iv_regs (sv view s)) AND 0x04 = 0"
  proof -
    have "x AND 0x04 = (x AND 0x15) AND 0x04" for x :: byte by (simp add: and.assoc)
    from this [of "get_reg 218 (iv_regs (sv view s))"] show ?thesis by (simp only: l and_zero_eq zero_and_eq)
  qed
  have finish: "performs view (pll_finish IO dev s) (let regs = iv_regs (sv view s);
      regs = put_reg 47 (get_reg 237 regs AND 0x03 OR 0x14) regs;
      regs = put_reg 46 (get_reg 236 regs) regs;
      regs = put_reg 45 (get_reg 235 regs) regs
    in fold masked_set [(49, 0x80, 0x80), (230, 0x00, 0x10)] regs)" for s
    unfolding pll_finish_def
    by (rule performs_get [OF W], (rule performs_or_fail, rule performs_ops [OF W], rule performs_get [OF W])+)
       (rule performs_or_fail, rule performs_ops [OF W], rule performs_or_fail, rule performs_ops [OF W], rule performs_or_fail, rule performs_ops [OF W],
        rule performs_return, simp add: Let_def)
  have lock: "performs view (get_or_fail (lock_loop IO dev PLL_TRIES t s1) k) R"
    if "get_reg 218 (iv_regs (sv view s1)) AND 0x15 = 0"
      "\<And>s2. iv_regs (sv view s2) = iv_regs (sv view s1) \<Longrightarrow> performs view (k (get_reg 218 (iv_regs (sv view s1))) s2) R" for t s1 k R
    using works_lock [OF W that(1), of t] that(2) by (auto simp: get_or_fail_def)
  show ?thesis
    unfolding IV_ResetSi5338Pll_def
    apply (rule performs_or_fail, rule performs_ops [OF W])
    apply (rule performs_or_fail, rule performs_ops [OF W])
    apply (rule performs_or_fail, rule performs_ops [OF W])
    apply (rule performs_get [OF W])
    apply (simp add: l l4)
    apply (rule performs_or_fail, rule performs_ops [OF W])
    apply (rule performs_or_fail, rule performs_ops [OF W])
    apply (rule performs_or_fail, rule performs_ops [OF W])
    apply (rule performs_or_fail, rule performs_ops [OF W])
    apply (rule lock)
    subgoal by (simp add: l)
    subgoal for s1 s2 s3 s4 s5 s6 s7 s8 s9 using finish [of s9] by (simp add: l pll_regs_def Let_def)
    done
qed

section \<open>The result for the table\<close>

lemma masked_set_plain:
  "r \<noteq> 255 \<Longrightarrow> masked_set (r, v, m) regs = regs((regs (0, 255), r) := (regs (regs (0, 255), r) AND NOT m) OR (v AND m))"
  by (simp add: masked_set_def put_reg_def get_reg_def chip_loc_def)

text \<open>A run of entries on one page with distinct addresses sets each register once.\<close>

lemma fold_masked_page:
  assumes "255 \<notin> fst ` set es" "distinct (map fst es)"
  shows "fold masked_set es regs (0, 255) = regs (0, 255) \<and>
    (\<forall>q a. q \<noteq> regs (0, 255) \<or> a \<notin> fst ` set es \<longrightarrow> fold masked_set es regs (q, a) = regs (q, a)) \<and>
    (\<forall>(a, v, m) \<in> set es. fold masked_set es regs (regs (0, 255), a) = (regs (regs (0, 255), a) AND NOT m) OR (v AND m))"
  using assms
proof (induction es arbitrary: regs)
  case (Cons e es)
  obtain r v m where e: "e = (r, v, m)" by (metis prod_cases3)
  have r: "r \<noteq> 255" "r \<notin> fst ` set es" using Cons.prems by (auto simp: e)
  let ?R = "regs((regs (0, 255), r) := (regs (regs (0, 255), r) AND NOT m) OR (v AND m))"
  have R: "masked_set e regs = ?R" using r(1) by (simp add: e masked_set_plain)
  have p: "?R (0, 255) = regs (0, 255)" using r(1) by simp
  note IH = Cons.IH [of ?R, unfolded p]
  have d: "255 \<notin> fst ` set es" "distinct (map fst es)" using Cons.prems by auto
  let ?F = "fold masked_set es ?R" and ?p = "regs (0, 255)"
  have 1: "?F (0, 255) = ?p" and 2: "\<And>q a. q \<noteq> ?p \<or> a \<notin> fst ` set es \<Longrightarrow> ?F (q, a) = ?R (q, a)"
    and 3: "\<And>a v m. (a, v, m) \<in> set es \<Longrightarrow> ?F (?p, a) = (?R (?p, a) AND NOT m) OR (v AND m)"
    using IH [OF d] by blast+
  have f: "fold masked_set (e # es) regs = ?F" by (simp add: R)
  show ?case
    unfolding f
  proof (intro conjI allI impI ballI)
    show "?F (0, 255) = ?p" by (rule 1)
    show "?F (q, a) = regs (q, a)" if "q \<noteq> ?p \<or> a \<notin> fst ` set (e # es)" for q a
    proof -
      have "?F (q, a) = ?R (q, a)" using that by (intro 2) auto
      also have "\<dots> = regs (q, a)" using that by (auto simp: e)
      finally show ?thesis .
    qed
    show "case x of (a, v, m) \<Rightarrow> ?F (?p, a) = (regs (?p, a) AND NOT m) OR (v AND m)" if x: "x \<in> set (e # es)" for x
    proof (cases "x = e")
      case True
      then show ?thesis using 2 [of ?p r] r(2) by (simp add: e)
    next
      case False
      obtain a v' m' where x': "x = (a, v', m')" by (metis prod_cases3)
      then have "(a, v', m') \<in> set es" "a \<noteq> r" using x False r(2) by force+
      then show ?thesis using 3 [of a v' m'] by (simp add: x')
    qed
  qed
qed simp

lemma table_addrs: "map fst (Reg_Store_0 @ Reg_Store_1) = map of_nat [0..<255]" "map fst Reg_Store_2 = map of_nat [0..<95]"
  by code_simp+

lemma distinct_of_nat: "n \<le> 255 \<Longrightarrow> distinct (map of_nat [0..<n] :: byte list) \<and> 255 \<notin> set (map of_nat [0..<n] :: byte list)"
proof -
  assume n: "n \<le> 255"
  have u: "unat (of_nat i :: byte) = i" if "i < n" for i using that n by (simp add: unat_of_nat)
  then have "inj_on (of_nat :: nat \<Rightarrow> byte) (set [0..<n])" by (intro inj_on_inverseI [where g = unat]) simp
  moreover have "(255 :: byte) \<noteq> of_nat i" if "i < n" for i
  proof
    assume "(255 :: byte) = of_nat i"
    then have "unat (255 :: byte) = i" using u [OF that] by simp
    then show False using that n by simp
  qed
  ultimately show ?thesis by (auto simp: distinct_map)
qed

lemma table_pages:
  "255 \<notin> fst ` set (Reg_Store_0 @ Reg_Store_1)" "distinct (map fst (Reg_Store_0 @ Reg_Store_1))"
  "255 \<notin> fst ` set Reg_Store_2" "distinct (map fst Reg_Store_2)"
  using distinct_of_nat [of 255] distinct_of_nat [of 95] by (simp_all only: table_addrs [symmetric] set_map) simp_all

lemma select_page: "masked_set (255, v, 0xFF) regs = regs((0, 255) := v)"
proof -
  have e: "(0xFF :: byte) = - 1" by code_simp
  have "(x AND NOT 0xFF) OR (v AND 0xFF) = v" for x :: byte unfolding e by simp
  then show ?thesis by (simp add: masked_set_def put_reg_def chip_loc_def)
qed

lemma table_regs:
  assumes "regs (0, 255) = 0"
  shows "fold masked_set Reg_Store regs (0, 255) = 0"
    "(a, v, m) \<in> set (Reg_Store_0 @ Reg_Store_1) \<Longrightarrow> fold masked_set Reg_Store regs (0, a) = (regs (0, a) AND NOT m) OR (v AND m)"
    "(a, v, m) \<in> set Reg_Store_2 \<Longrightarrow> fold masked_set Reg_Store regs (1, a) = (regs (1, a) AND NOT m) OR (v AND m)"
proof -
  let ?R0 = "fold masked_set (Reg_Store_0 @ Reg_Store_1) regs"
  let ?R1 = "fold masked_set Reg_Store_2 (?R0((0, 255) := 1))"
  have f: "fold masked_set Reg_Store regs = ?R1((0, 255) := 0)" by (simp add: Reg_Store_def select_page)
  note p0 = fold_masked_page [OF table_pages(1,2), of regs] and p1 = fold_masked_page [OF table_pages(3,4), of "?R0((0, 255) := 1)"]
  have 255: "a \<noteq> 255" if "(a, v, m) \<in> set (Reg_Store_0 @ Reg_Store_1)" for a v m using table_pages(1) that by force
  show "fold masked_set Reg_Store regs (0, 255) = 0" by (simp add: f)
  show "fold masked_set Reg_Store regs (0, a) = (regs (0, a) AND NOT m) OR (v AND m)" if "(a, v, m) \<in> set (Reg_Store_0 @ Reg_Store_1)"
  proof -
    have "?R1 (0, a) = ?R0 (0, a)" using p1 255 [OF that] by simp
    also have "\<dots> = (regs (0, a) AND NOT m) OR (v AND m)" using p0 that assms by fastforce
    finally show ?thesis using 255 [OF that] by (simp add: f)
  qed
  show "fold masked_set Reg_Store regs (1, a) = (regs (1, a) AND NOT m) OR (v AND m)" if "(a, v, m) \<in> set Reg_Store_2"
  proof -
    have "?R1 (1, a) = (?R0 (1, a) AND NOT m) OR (v AND m)" using p1 that by fastforce
    moreover have "?R0 (1, a) = regs (1, a)" using p0 assms by simp
    ultimately show ?thesis by (simp add: f)
  qed
qed

lemma pll_page: "pll_regs regs (0, 255) = regs (0, 255)"
  by (simp add: pll_regs_def Let_def masked_set_def)

lemma pll_other:
  assumes "regs (0, 255) = 0"
  shows "q \<noteq> 0 \<or> a \<notin> {45, 46, 47, 49, 50, 230, 241, 246} \<Longrightarrow> pll_regs regs (q, a) = regs (q, a)"
  using assms by (auto simp: pll_regs_def Let_def masked_set_def put_reg_def chip_loc_def)

lemma masked_bits: "((x AND NOT m) OR (v AND m)) AND m = v AND (m :: byte)"
  by (rule bit_word_eqI) (auto simp: bit_simps)

lemma init_performs:
  assumes W: "i2c_works IO dev view" and p: "iv_regs (sv view s) (0, 255) = 0" and l: "iv_regs (sv view s) (0, 218) AND 0x15 = 0"
  shows "\<exists>s'. init_gt_clks IO Reg_Store dev s = Some s' \<and> iv_regs (sv view s') = pll_regs (fold masked_set Reg_Store (iv_regs (sv view s)))"
proof -
  have i: "iv_regs (sv view (zynq_i2c_init IO s)) = iv_regs (sv view s)"
    using W by (simp add: zynq_i2c_init_def Let_def works_bits [OF W]) (simp add: i2c_works_def)
  obtain s1 where s1: "table_loop IO dev Reg_Store (zynq_i2c_init IO s) = Some (0, s1)"
    "iv_regs (sv view s1) = fold masked_set Reg_Store (iv_regs (sv view s))"
    using works_table [OF W, of Reg_Store "zynq_i2c_init IO s"] i by auto
  have "(218, 0, 0) \<in> set (Reg_Store_0 @ Reg_Store_1)" by code_simp
  then have "get_reg 218 (iv_regs (sv view s1)) = iv_regs (sv view s) (0, 218)"
    using table_regs(1,2) [of "iv_regs (sv view s)"] p by (simp add: s1(2) get_reg_def chip_loc_def)
  then obtain s2 where "IV_ResetSi5338Pll IO dev True s1 = Some (0, s2)" "iv_regs (sv view s2) = pll_regs (iv_regs (sv view s1))"
    using works_reset [OF W, of s1] l by (auto simp: performs_def)
  then show ?thesis using s1 by (simp add: init_gt_clks_def)
qed

text \<open>
  C36: the clocks are programmed.  With a controller and a clock generator that work, page 0 selected and the
  status register reporting lock, the initialisation returns; then every register of the table, on both
  pages, holds its value in the bits of its mask, except those the lock sequence uses; of these, the
  calibration values have been copied, the calibration is in use, and the outputs are enabled.
\<close>

theorem clocks_programmed:
  assumes "i2c_works IO dev view" "iv_regs (view (z8_hw s)) (0, 255) = 0" "iv_regs (view (z8_hw s)) (0, 218) AND 0x15 = 0"
  shows "\<exists>s' R. init_gt_clks IO Reg_Store dev s = Some s' \<and> R = iv_regs (view (z8_hw s')) \<and>
    (\<forall>(a, v, m) \<in> set (Reg_Store_0 @ Reg_Store_1). a \<notin> {45, 46, 47, 49, 50, 230, 241, 246} \<longrightarrow> R (0, a) AND m = v AND m) \<and>
    (\<forall>(a, v, m) \<in> set Reg_Store_2. R (1, a) AND m = v AND m) \<and>
    R (0, 45) = R (0, 235) \<and> R (0, 46) = R (0, 236) \<and> R (0, 47) = R (0, 237) AND 0x03 OR 0x14 \<and>
    R (0, 49) AND 0x80 = 0x80 \<and> R (0, 50) AND 0xC0 = 0xC0 \<and> R (0, 230) AND 0x10 = 0 \<and> R (0, 255) = 0"
proof -
  obtain s' where s': "init_gt_clks IO Reg_Store dev s = Some s'"
    "iv_regs (sv view s') = pll_regs (fold masked_set Reg_Store (iv_regs (sv view s)))"
    using init_performs [OF assms] by blast
  let ?T = "fold masked_set Reg_Store (iv_regs (sv view s))" and ?R = "pll_regs (fold masked_set Reg_Store (iv_regs (sv view s)))"
  note T = table_regs [of "iv_regs (sv view s)", OF assms(2)]
  have g: "?R (0, a) = get_reg a ?R" for a using T(1) pll_page [of ?T] by (simp add: get_reg_def chip_loc_def)
  have page0: "?R (0, a) AND m = v AND m" if "(a, v, m) \<in> set (Reg_Store_0 @ Reg_Store_1)" "a \<notin> {45, 46, 47, 49, 50, 230, 241, 246}" for a v m
    using pll_other [of ?T, OF T(1)] that(2) T(2) [OF that(1)] by (simp add: masked_bits)
  have page1: "?R (1, a) AND m = v AND m" if "(a, v, m) \<in> set Reg_Store_2" for a v m
    using pll_other [of ?T 1 a, OF T(1)] T(3) [OF that] by (simp add: masked_bits)
  have "?R (0, 45) = ?R (0, 235)" "?R (0, 46) = ?R (0, 236)" "?R (0, 47) = ?R (0, 237) AND 0x03 OR 0x14"
    unfolding g by (simp_all add: pll_regs_def Let_def)
  moreover have "?R (0, 49) AND 0x80 = 0x80" "?R (0, 50) AND 0xC0 = 0xC0" "?R (0, 230) AND 0x10 = 0"
  proof -
    show "?R (0, 49) AND 0x80 = 0x80" unfolding g by (simp add: pll_regs_def Let_def and.assoc bit.conj_disj_distrib2)
    show "?R (0, 50) AND 0xC0 = 0xC0" unfolding g by (simp add: pll_regs_def Let_def and.assoc bit.conj_disj_distrib2)
    show "?R (0, 230) AND 0x10 = 0" unfolding g by (simp add: pll_regs_def Let_def and.assoc bit.conj_disj_distrib2)
  qed
  moreover have "?R (0, 255) = 0" using T(1) by (simp add: pll_page)
  ultimately show ?thesis using s' page0 page1 by (intro exI [of _ s'] exI [of _ ?R] conjI) auto
qed

text \<open>An example: a controller that is what programs see of it.\<close>

definition sample_z8_io :: "i2c_view z8_io" where
  "sample_z8_io = \<lparr>
     io_in = (\<lambda>a h. if a = ucast i2c_control then (if iv_rw h then 1 else 0, h)
       else if a = ucast i2c_interrupt_status then (1, h)
       else if a = ucast i2c_data then
         (case iv_ptr h of None \<Rightarrow> (0, h) | Some p \<Rightarrow> (ucast (get_reg p (iv_regs h)), h\<lparr>iv_ptr := Some (p + 1)\<rparr>))
       else (0, h)),
     io_out = (\<lambda>a v h. if a = ucast i2c_control then h\<lparr>iv_rw := bit v 0\<rparr>
       else if a = ucast i2c_address then (if iv_rw h then h else h\<lparr>iv_ptr := None\<rparr>)
       else if a = ucast i2c_data then
         (case iv_ptr h of None \<Rightarrow> h\<lparr>iv_ptr := Some (ucast v)\<rparr>
          | Some p \<Rightarrow> h\<lparr>iv_ptr := Some (p + 1), iv_regs := put_reg p (ucast v) (iv_regs h)\<rparr>)
       else h)\<rparr>"

definition sample_z8 :: "i2c_view z8" where
  "sample_z8 = \<lparr>z8_hw = \<lparr>iv_rw = False, iv_ptr = None, iv_regs = (\<lambda>_. 0)\<rparr>, z8_writes = []\<rparr>"

lemma sample_works: "i2c_works sample_z8_io 0x70 (\<lambda>h. h)"
proof -
  have rv: "ucast (ucast x :: u32) = x" for x :: byte by (rule bit_word_eqI) (simp add: bit_simps)
  show ?thesis by (auto simp: i2c_works_def sample_z8_io_def ucast_addr_eq i2c_reg_defs rv split: option.split)
qed

lemma sample_z8_start: "iv_regs (z8_hw sample_z8) (0, 255) = 0" "iv_regs (z8_hw sample_z8) (0, 218) AND 0x15 = 0"
  by (simp_all add: sample_z8_def)

theorem clocks_programmed_witness:
  "\<exists>s'. init_gt_clks sample_z8_io Reg_Store 0x70 sample_z8 = Some s' \<and> iv_regs (z8_hw s') (0, 230) AND 0x10 = 0 \<and>
    iv_regs (z8_hw s') (0, 255) = 0"
  using clocks_programmed [OF sample_works sample_z8_start] by blast

theorem init_releases_bus_witness:
  "\<exists>s'. init_gt_clks sample_z8_io Reg_Store 0x70 sample_z8 = Some s' \<and> \<not> bus_held s'"
  using init_performs [OF sample_works sample_z8_start] init_releases_bus by blast

end
