(* ===== verification/Zynq_Hooks.thy ===== *)
theory Zynq_Hooks
  imports Prelude Complex_Main
begin

text \<open>
  The hooks of the Zynq boot loader (\<open>recipes-bsp/fsbl-firmware/files/zynq-hooks.c\<close>): the set-up of the clock
  generator through the vendor's I2C driver, and the reset of the USB controllers around the pin
  configuration.  The driver and the register access are parameters.  \<open>Si5326SetDirect\<close> has no return
  statement; the value its caller sees is a parameter.
\<close>

section \<open>The clock generator\<close>

record 'h zynq_env =
  XIicPs_LookupConfig_ok :: bool
  XIicPs_CfgInitialize :: "'h \<Rightarrow> bool \<times> 'h"
  XIicPs_SetSClk :: "u32 \<Rightarrow> 'h \<Rightarrow> 'h"
  XIicPs_MasterSendPolled :: "byte list \<Rightarrow> byte \<Rightarrow> 'h \<Rightarrow> bool \<times> 'h"
  Si5326SetDirect_value :: bool
  SlcrUnlock :: "'h \<Rightarrow> 'h"
  SlcrLock :: "'h \<Rightarrow> 'h"
  Xil_In32 :: "u32 \<Rightarrow> 'h \<Rightarrow> u32"
  Xil_Out32 :: "u32 \<Rightarrow> u32 \<Rightarrow> 'h \<Rightarrow> 'h"

definition I2C_CLKGEN_ADDR :: byte where "I2C_CLKGEN_ADDR = 0x68"
definition I2C_CLK_RATE :: u32 where "I2C_CLK_RATE = 100000"

text \<open>A status is whether it is \<open>XST_SUCCESS\<close>.\<close>

definition i2c_reg_write :: "'h zynq_env \<Rightarrow> byte \<Rightarrow> byte \<Rightarrow> byte \<Rightarrow> 'h \<Rightarrow> bool \<times> 'h" where
  "i2c_reg_write E addr reg val h = XIicPs_MasterSendPolled E [reg, val] addr h"

text \<open>The array \<open>regs\<close>: register and value, both \<open>unsigned short\<close>.\<close>

definition si5326_regs ::
  "u32 \<Rightarrow> u32 \<Rightarrow> u32 \<Rightarrow> u32 \<Rightarrow> u32 \<Rightarrow> u32 \<Rightarrow> u32 \<Rightarrow> u32 \<Rightarrow> (16 word \<times> 16 word) list"
where
  "si5326_regs nBwSel nN1_Hs nNc1_Ls nNc2_Ls nN2_Hs nN2_Ls nN31 nN32 =
     [(2, ucast (push_bit 4 nBwSel AND 0x0FF)),
      (25, ucast (push_bit 5 (nN1_Hs - 4) AND 0x0E0)),
      (31, ucast (drop_bit 16 (nNc1_Ls - 1) AND 0x00F)),
      (32, ucast (drop_bit 8 (nNc1_Ls - 1) AND 0x0FF)),
      (33, ucast (drop_bit 0 (nNc1_Ls - 1) AND 0x0FF)),
      (34, ucast (drop_bit 16 (nNc2_Ls - 1) AND 0x00F)),
      (35, ucast (drop_bit 8 (nNc2_Ls - 1) AND 0x0FF)),
      (36, ucast (drop_bit 0 (nNc2_Ls - 1) AND 0x0FF)),
      (40, ucast ((push_bit 5 (nN2_Hs - 4) AND 0x0E0) OR (drop_bit 16 (nN2_Ls - 1) AND 0x00F))),
      (41, ucast (drop_bit 8 (nN2_Ls - 1) AND 0x0FF)),
      (42, ucast (drop_bit 0 (nN2_Ls - 1) AND 0x0FF)),
      (43, ucast (drop_bit 16 (nN31 - 1) AND 0x007)),
      (44, ucast (drop_bit 8 (nN31 - 1) AND 0x0FF)),
      (45, ucast (drop_bit 0 (nN31 - 1) AND 0x0FF)),
      (46, ucast (drop_bit 16 (nN32 - 1) AND 0x007)),
      (47, ucast (drop_bit 8 (nN32 - 1) AND 0x0FF)),
      (48, ucast (drop_bit 0 (nN32 - 1) AND 0x0FF))]"

text \<open>The status of the writes is not used.\<close>

definition Si5326SetDirect ::
  "'h zynq_env \<Rightarrow> u32 \<Rightarrow> u32 \<Rightarrow> u32 \<Rightarrow> u32 \<Rightarrow> u32 \<Rightarrow> u32 \<Rightarrow> u32 \<Rightarrow> u32 \<Rightarrow> 'h \<Rightarrow> bool \<times> 'h"
where
  "Si5326SetDirect E nBwSel nN1_Hs nNc1_Ls nNc2_Ls nN2_Hs nN2_Ls nN31 nN32 h =
     (let h = fold (\<lambda>(reg, val) h. snd (i2c_reg_write E I2C_CLKGEN_ADDR (ucast reg) (ucast val) h))
            (si5326_regs nBwSel nN1_Hs nNc1_Ls nNc2_Ls nN2_Hs nN2_Ls nN31 nN32) h;
          (Status, h) = i2c_reg_write E I2C_CLKGEN_ADDR 136 0x40 h
      in (Si5326SetDirect_value E, h))"

text \<open>Writes in order until one fails.\<close>

fun writes_or_fail :: "'h zynq_env \<Rightarrow> (byte \<times> byte) list \<Rightarrow> 'h \<Rightarrow> bool \<times> 'h" where
  "writes_or_fail E [] h = (True, h)"
| "writes_or_fail E ((reg, val) # ws) h =
     (let (Status, h) = i2c_reg_write E I2C_CLKGEN_ADDR reg val h in
      if \<not> Status then (False, h) else writes_or_fail E ws h)"

definition clkgen_init :: "'h zynq_env \<Rightarrow> 'h \<Rightarrow> bool \<times> 'h" where
  "clkgen_init E h =
     (let (ok, h) = writes_or_fail E [(0, 0x34), (3, 0x45), (4, 0x12), (6, 0x3f), (21, 0x7c)] h in
      if \<not> ok then (False, h)
      else Si5326SetDirect E 10 4 10 8 8 316 79 79 h)"

definition i2c_init :: "'h zynq_env \<Rightarrow> 'h \<Rightarrow> bool \<times> 'h" where
  "i2c_init E h =
     (if \<not> XIicPs_LookupConfig_ok E then (False, h)
      else let (Status, h) = XIicPs_CfgInitialize E h in
           if \<not> Status then (False, h) else (True, XIicPs_SetSClk E I2C_CLK_RATE h))"

text \<open>The build options \<open>NO_I2C\<close> and \<open>NO_CLKGEN\<close> are arguments.\<close>

definition FsblHookBeforeHandoff :: "bool \<Rightarrow> bool \<Rightarrow> 'h zynq_env \<Rightarrow> 'h \<Rightarrow> bool \<times> 'h" where
  "FsblHookBeforeHandoff NO_I2C NO_CLKGEN E h =
     (if NO_I2C then (True, h)
      else let (Status, h) = i2c_init E h in
           if \<not> Status then (False, h) else if NO_CLKGEN then (True, h) else clkgen_init E h)"

section \<open>USB reset\<close>

definition USB_RST_CTRL :: u32 where "USB_RST_CTRL = 0xF8000210"
definition USB0_CPU1X_RST :: u32 where "USB0_CPU1X_RST = 0x1"
definition USB1_CPU1X_RST :: u32 where "USB1_CPU1X_RST = 0x2"

definition usb_reset :: "'h zynq_env \<Rightarrow> bool \<Rightarrow> 'h \<Rightarrow> 'h" where
  "usb_reset E active h =
     (let m = USB0_CPU1X_RST OR USB1_CPU1X_RST;
          h = SlcrUnlock E h;
          h = Xil_Out32 E USB_RST_CTRL
                ((Xil_In32 E USB_RST_CTRL h AND NOT m) OR (if active then m else 0)) h
      in SlcrLock E h)"

definition ps7_init_prehook :: "'h zynq_env \<Rightarrow> 'h \<Rightarrow> 'h" where
  "ps7_init_prehook E = usb_reset E True"

definition ps7_init_posthook :: "'h zynq_env \<Rightarrow> 'h \<Rightarrow> 'h" where
  "ps7_init_posthook E = usb_reset E False"

text \<open>The lock of the system controller only decides whether writes take effect: \<open>locked\<close> reads it, an unlocked
  write stores, and unlocking and locking leave the registers alone.\<close>

definition slcr_ok :: "'h zynq_env \<Rightarrow> ('h \<Rightarrow> bool) \<Rightarrow> bool" where
  "slcr_ok E locked \<longleftrightarrow>
     (\<forall>h. \<not> locked (SlcrUnlock E h) \<and> locked (SlcrLock E h)) \<and>
     (\<forall>h a. Xil_In32 E a (SlcrUnlock E h) = Xil_In32 E a h \<and> Xil_In32 E a (SlcrLock E h) = Xil_In32 E a h) \<and>
     (\<forall>h a b v. \<not> locked h \<longrightarrow> Xil_In32 E b (Xil_Out32 E a v h) = (if b = a then v else Xil_In32 E b h))"

lemma usb_reset_reg:
  assumes "slcr_ok E locked"
  shows "Xil_In32 E a (usb_reset E active h) =
     (if a = USB_RST_CTRL then (Xil_In32 E a h AND NOT (mask 2)) OR (if active then mask 2 else 0)
      else Xil_In32 E a h)"
  using assms by (simp add: slcr_ok_def usb_reset_def USB0_CPU1X_RST_def USB1_CPU1X_RST_def mask_eq_exp_minus_1)

lemma usb_reset_bit:
  assumes "slcr_ok E locked" and "n < 32"
  shows "bit (Xil_In32 E USB_RST_CTRL (usb_reset E active h)) n =
     (if n < 2 then active else bit (Xil_In32 E USB_RST_CTRL h) n)"
  using assms(2) by (auto simp: usb_reset_reg [OF assms(1)] bit_simps)

text \<open>The hooks bracket the pin configuration \<open>ps7_init\<close>.  Where the configuration leaves the reset of the USB
  controllers alone, both are held in reset throughout it; after it they are released, every other register is as the
  configuration left it, and the controller is locked.\<close>

theorem usb_held_in_reset:
  assumes "slcr_ok E locked"
  shows "n < 2 \<Longrightarrow> bit (Xil_In32 E USB_RST_CTRL (ps7_init_prehook E h)) n"
    and "n < 32 \<Longrightarrow> bit (Xil_In32 E USB_RST_CTRL (ps7_init_posthook E (ps7_init (ps7_init_prehook E h)))) n =
           (2 \<le> n \<and> bit (Xil_In32 E USB_RST_CTRL (ps7_init (ps7_init_prehook E h))) n)"
    and "a \<noteq> USB_RST_CTRL \<Longrightarrow> Xil_In32 E a (ps7_init_posthook E h') = Xil_In32 E a h'"
    and "locked (ps7_init_posthook E h')"
proof -
  show "n < 2 \<Longrightarrow> bit (Xil_In32 E USB_RST_CTRL (ps7_init_prehook E h)) n"
    by (simp add: ps7_init_prehook_def usb_reset_bit [OF assms])
  show "n < 32 \<Longrightarrow> bit (Xil_In32 E USB_RST_CTRL (ps7_init_posthook E (ps7_init (ps7_init_prehook E h)))) n =
           (2 \<le> n \<and> bit (Xil_In32 E USB_RST_CTRL (ps7_init (ps7_init_prehook E h))) n)"
    by (auto simp: ps7_init_posthook_def usb_reset_bit [OF assms])
  show "a \<noteq> USB_RST_CTRL \<Longrightarrow> Xil_In32 E a (ps7_init_posthook E h') = Xil_In32 E a h'"
    by (simp add: ps7_init_posthook_def usb_reset_reg [OF assms])
  show "locked (ps7_init_posthook E h')"
    using assms by (simp add: ps7_init_posthook_def usb_reset_def slcr_ok_def Let_def)
qed

section \<open>The frequencies\<close>

text \<open>The dividers as the clock generator takes them from its registers, and the frequency of the output whose divider
  starts at register \<open>r\<close> for an input of frequency \<open>f\<close> at \<open>CKIN2\<close>: the input is divided by N32, multiplied by
  N2 and divided by N1 and the divider of the output.\<close>

definition si5326_divider :: "(byte \<Rightarrow> byte) \<Rightarrow> byte \<Rightarrow> nat" where
  "si5326_divider regs r = 65536 * unat (regs r AND 0x0F) + 256 * unat (regs (r + 1)) + unat (regs (r + 2)) + 1"

definition si5326_output :: "(byte \<Rightarrow> byte) \<Rightarrow> byte \<Rightarrow> rat \<Rightarrow> rat" where
  "si5326_output regs r f =
     f / of_nat (si5326_divider regs 46) * of_nat ((unat (drop_bit 5 (regs 40)) + 4) * si5326_divider regs 40) /
     of_nat ((unat (drop_bit 5 (regs 25)) + 4) * si5326_divider regs r)"

text \<open>A clock generator that acknowledges every write and stores it.\<close>

definition stores_regs :: "'h zynq_env \<Rightarrow> ('h \<Rightarrow> byte \<Rightarrow> byte) \<Rightarrow> bool" where
  "stores_regs E view \<longleftrightarrow>
     (\<forall>r v h. fst (XIicPs_MasterSendPolled E [r, v] I2C_CLKGEN_ADDR h) \<and>
       view (snd (XIicPs_MasterSendPolled E [r, v] I2C_CLKGEN_ADDR h)) = (view h)(r := v))"

lemma i2c_reg_write_stores:
  assumes "stores_regs E view"
  shows "fst (i2c_reg_write E I2C_CLKGEN_ADDR r v h)"
    and "view (snd (i2c_reg_write E I2C_CLKGEN_ADDR r v h)) = (view h)(r := v)"
  using assms by (simp_all add: i2c_reg_write_def stores_regs_def)

lemma fold_writes:
  assumes "stores_regs E view"
  shows "view (fold (\<lambda>(reg, val) h. snd (i2c_reg_write E I2C_CLKGEN_ADDR (ucast reg) (ucast val) h)) ws h) =
     fold (\<lambda>(reg, val) m. m(ucast reg := ucast val)) ws (view h)"
  by (induction ws arbitrary: h) (auto simp: i2c_reg_write_stores [OF assms])

lemma writes_succeed:
  assumes "stores_regs E view"
  shows "fst (writes_or_fail E ws h) \<and>
     view (snd (writes_or_fail E ws h)) = fold (\<lambda>(reg, val) m. m(reg := val)) ws (view h)"
  by (induction ws arbitrary: h) (auto simp: i2c_reg_write_stores [OF assms] case_prod_beta Let_def)

lemma SetDirect_regs:
  assumes "stores_regs E view"
  shows "view (snd (Si5326SetDirect E a b c d e f g k h)) =
     (fold (\<lambda>(reg, val) m. m(ucast reg := ucast val)) (si5326_regs a b c d e f g k) (view h))(136 := 0x40)"
  by (simp add: Si5326SetDirect_def Let_def case_prod_beta i2c_reg_write_stores [OF assms] fold_writes [OF assms])

lemma clkgen_init_regs:
  assumes "stores_regs E view"
  shows "view (snd (clkgen_init E h)) =
     (fold (\<lambda>(reg, val) m. m(ucast reg := ucast val)) (si5326_regs 10 4 10 8 8 316 79 79)
        ((view h)(0 := 0x34, 3 := 0x45, 4 := 0x12, 6 := 0x3f, 21 := 0x7c)))(136 := 0x40)"
  by (simp add: clkgen_init_def Let_def case_prod_beta writes_succeed [OF assms] SetDirect_regs [OF assms]
        del: writes_or_fail.simps)

text \<open>The frequencies the comment above \<open>clkgen_init\<close> states: 125 MHz and 156.25 MHz from 156.25 MHz.\<close>

theorem clkgen_frequencies:
  assumes "stores_regs E view"
  shows "si5326_output (view (snd (clkgen_init E h))) 31 (625 / 4) = 125"
    and "si5326_output (view (snd (clkgen_init E h))) 34 (625 / 4) = 625 / 4"
  unfolding clkgen_init_regs [OF assms] si5326_output_def si5326_divider_def si5326_regs_def
  by simp_all

text \<open>The status of the hook: with the clock generator built in it is what \<open>Si5326SetDirect\<close> happens to return, even
  when every write of it failed.\<close>

theorem hook_status:
  "fst (FsblHookBeforeHandoff False False E h) \<longleftrightarrow>
     fst (i2c_init E h) \<and>
     fst (writes_or_fail E [(0, 0x34), (3, 0x45), (4, 0x12), (6, 0x3f), (21, 0x7c)] (snd (i2c_init E h))) \<and>
     Si5326SetDirect_value E"
  by (simp add: FsblHookBeforeHandoff_def clkgen_init_def Si5326SetDirect_def Let_def case_prod_beta
        del: writes_or_fail.simps)

end
