(* ===== verification/Small_Drivers.thy ===== *)
theory Small_Drivers
  imports Prelude
begin

text \<open>
  Four small kernel drivers: the PWM of the FPGA (\<open>iv-pwm/src/pwm-iveia.c\<close>), MDIO over I2C
  (\<open>linux/files/drivers/net/mdio/mdio-i2c-gen.c\<close>), the frame buffer (\<open>iv-fbdev/src/iv-fbdev.c\<close>) and the video
  pass-through (\<open>iv-v4l-passthrough/src/iveia-passthrough.c\<close>), all under \<open>recipes-kernel\<close>.

  The answers of the kernel's frameworks are parameters: a framework call is its return value, or a function of the
  state where it changes one.  \<open>None\<close> as a result is undefined behaviour.
\<close>

section \<open>PWM\<close>

definition CONTROL_REG :: u32 where "CONTROL_REG = 0x00"
definition CONTROL_REG_ENABLE :: u32 where "CONTROL_REG_ENABLE = 0x02"
definition DUTY_REG :: u32 where "DUTY_REG = 0x04"
definition PERIOD_REG :: u32 where "PERIOD_REG = 0x08"
definition CLOCK_REG :: u32 where "CLOCK_REG = 0x0C"

record pwm_state =
  period :: u64
  duty_cycle :: u64
  enabled :: bool

record pwm_chip =
  of_pwm_n_cells :: nat
  chip_base :: int
  npwm :: nat

record 'h pwm_io =
  pwm_readl :: "u32 \<Rightarrow> 'h \<Rightarrow> u32"
  pwm_writel :: "u32 \<Rightarrow> u32 \<Rightarrow> 'h \<Rightarrow> 'h"

text \<open>\<open>cstate\<close> is what \<open>pwm_get_state\<close> gives: the state the framework last applied.\<close>

definition iveia_pwm_apply :: "'h pwm_io \<Rightarrow> pwm_state \<Rightarrow> pwm_state \<Rightarrow> 'h \<Rightarrow> int \<times> 'h" where
  "iveia_pwm_apply P cstate state h =
     (if enabled state then
        let pwm_clock = ucast (pwm_readl P CLOCK_REG h) :: u64;
            period_reg = period cstate * pwm_clock div 1000000000;
            duty_reg = duty_cycle cstate * pwm_clock div 1000000000;
            h = pwm_writel P PERIOD_REG (ucast period_reg) h;
            h = pwm_writel P DUTY_REG (ucast duty_reg) h
        in (0, pwm_writel P CONTROL_REG CONTROL_REG_ENABLE h)
      else if enabled cstate then (0, pwm_writel P CONTROL_REG 0 h)
      else (0, h))"

text \<open>\<open>kzalloc_ok\<close>: the allocation succeeds; \<open>ioremap_err\<close>: the error of mapping the registers, if any.\<close>

definition iveia_pwm_probe ::
  "'h pwm_io \<Rightarrow> bool \<Rightarrow> int option \<Rightarrow> bool \<Rightarrow> (pwm_chip \<Rightarrow> 'h \<Rightarrow> int \<times> 'h) \<Rightarrow> 'h \<Rightarrow> int \<times> 'h"
where
  "iveia_pwm_probe P kzalloc_ok ioremap_err of_node pwmchip_add h =
     (if \<not> kzalloc_ok then (- ENOMEM, h)
      else case ioremap_err of
        Some e \<Rightarrow> (e, h)
      | None \<Rightarrow>
          let chip = \<lparr>of_pwm_n_cells = (if of_node then 3 else 0), chip_base = -1, npwm = 1\<rparr>;
              (ret, h) = pwmchip_add chip h
          in if ret < 0 then (ret, h) else (ret, pwm_writel P CONTROL_REG 0 h))"

definition iveia_pwm_remove :: "('h \<Rightarrow> int \<times> 'h) \<Rightarrow> 'h \<Rightarrow> int \<times> 'h" where
  "iveia_pwm_remove pwmchip_remove h = pwmchip_remove h"

text \<open>Registers that keep what is written to them; \<open>CLOCK_REG\<close> is read-only for the driver.\<close>

definition pwm_regs_ok :: "'h pwm_io \<Rightarrow> bool" where
  "pwm_regs_ok P \<longleftrightarrow>
     (\<forall>a b v h. pwm_readl P b (pwm_writel P a v h) = (if b = a then v else pwm_readl P b h))"

text \<open>The number of clock ticks in a time of \<open>ns\<close> nanoseconds, as the registers hold it.\<close>

definition pwm_ticks :: "u64 \<Rightarrow> u32 \<Rightarrow> nat" where
  "pwm_ticks ns clock = unat ns * unat clock div 1000000000"

lemma unat_ticks:
  assumes "unat (ns :: u64) * unat (clock :: u32) < 2 ^ 64"
  shows "unat (ns * ucast clock div 1000000000) = pwm_ticks ns clock"
proof -
  have "unat (ns * ucast clock) = unat ns * unat clock"
    using assms by (simp add: unat_word_ariths)
  then show ?thesis by (simp add: pwm_ticks_def unat_div_distrib)
qed

theorem pwm_apply_enabled:
  assumes "pwm_regs_ok P" and "enabled state"
    and "unat (period cstate) * unat (pwm_readl P CLOCK_REG h) < 2 ^ 64"
    and "unat (duty_cycle cstate) * unat (pwm_readl P CLOCK_REG h) < 2 ^ 64"
  defines "h' \<equiv> snd (iveia_pwm_apply P cstate state h)"
  shows "unat (pwm_readl P PERIOD_REG h') = pwm_ticks (period cstate) (pwm_readl P CLOCK_REG h) mod 2 ^ 32"
    and "unat (pwm_readl P DUTY_REG h') = pwm_ticks (duty_cycle cstate) (pwm_readl P CLOCK_REG h) mod 2 ^ 32"
    and "pwm_readl P CONTROL_REG h' = CONTROL_REG_ENABLE"
    and "pwm_readl P CLOCK_REG h' = pwm_readl P CLOCK_REG h"
  using assms(1,2) unat_ticks [OF assms(3)] unat_ticks [OF assms(4)] unfolding h'_def
  by (simp_all add: iveia_pwm_apply_def pwm_regs_ok_def CONTROL_REG_def DUTY_REG_def PERIOD_REG_def CLOCK_REG_def Let_def
        unsigned_ucast_eq take_bit_nat_def)

text \<open>Of the requested state only the enable flag has an effect: the period and the duty cycle are those of the state
  before the request.\<close>

theorem pwm_apply_ignores_request:
  "enabled s = enabled t \<Longrightarrow> iveia_pwm_apply P cstate s h = iveia_pwm_apply P cstate t h"
  by (simp add: iveia_pwm_apply_def)

theorem pwm_apply_disables:
  assumes "pwm_regs_ok P" and "\<not> enabled state" and "enabled cstate"
  shows "pwm_readl P CONTROL_REG (snd (iveia_pwm_apply P cstate state h)) = 0"
  using assms by (simp add: iveia_pwm_apply_def pwm_regs_ok_def)

section \<open>MDIO over I2C\<close>

text \<open>The device tree and the answers of the frameworks: the error of \<open>mdio_i2c_alloc\<close> if any, the number of child nodes,
  whether there is a first one, the \<open>reg\<close> properties or the error of reading them, and the answer of
  \<open>of_mdiobus_register\<close>.\<close>

record mdio_env =
  me_alloc_err :: "int option"
  me_child_count :: int
  me_has_child :: bool
  me_i2c_reg :: "int + u32"
  me_phy_reg :: "int + u32"
  me_register :: int

text \<open>What is held after the probe: the bus and a reference to the child node.\<close>

record mdio_held =
  mh_bus :: bool
  mh_registered :: bool
  mh_node :: bool

definition mdio_i2c_gen_probe :: "mdio_env \<Rightarrow> int \<times> mdio_held" where
  "mdio_i2c_gen_probe E =
     (let H = \<lambda>bus reg node. \<lparr>mh_bus = bus, mh_registered = reg, mh_node = node\<rparr> in
      case me_alloc_err E of
        Some e \<Rightarrow> (e, H False False False)
      | None \<Rightarrow>
          if me_child_count E \<noteq> 1 then (- EINVAL, H True False False)
          else if \<not> me_has_child E then (- ENODEV, H True False False)
          else case me_i2c_reg E of
            Inl ret \<Rightarrow> (ret, H True False True)
          | Inr i2c_addr \<Rightarrow>
              case me_phy_reg E of
                Inl ret \<Rightarrow> (ret, H True False True)
              | Inr phy_addr \<Rightarrow>
                  if phy_addr + 0x40 \<noteq> i2c_addr then (- EINVAL, H True False True)
                  else if phy_addr = 0x10 \<or> phy_addr = 0x11 then (- EINVAL, H True False True)
                  else (me_register E, H True (me_register E = 0) True))"

text \<open>Removing the device does nothing: the bus stays registered.\<close>

definition mdio_i2c_gen_remove :: "mdio_held \<Rightarrow> int \<times> mdio_held" where
  "mdio_i2c_gen_remove held = (0, held)"

theorem mdio_probe_registers:
  assumes "mh_registered (snd (mdio_i2c_gen_probe E))"
  obtains phy where "me_child_count E = 1" and "me_phy_reg E = Inr phy" and "me_i2c_reg E = Inr (phy + 0x40)"
    and "phy \<notin> {0x10, 0x11}" and "fst (mdio_i2c_gen_probe E) = 0"
  using assms
  by (auto simp: mdio_i2c_gen_probe_def Let_def split: option.splits if_splits sum.splits)

text \<open>A bus allocated for a probe that then fails is not given back.\<close>

theorem mdio_probe_failure_keeps_bus:
  "me_alloc_err E = None \<Longrightarrow> mh_bus (snd (mdio_i2c_gen_probe E))"
  by (auto simp: mdio_i2c_gen_probe_def Let_def split: sum.splits)

section \<open>Frame buffer\<close>

definition IV_SCREEN_WIDTH :: u32 where "IV_SCREEN_WIDTH = 1024"
definition IV_SCREEN_HEIGHT :: u32 where "IV_SCREEN_HEIGHT = 768"
definition IV_BYTES_PER_PIXEL :: u32 where "IV_BYTES_PER_PIXEL = 2"
definition VIDEOMEMSTART :: u32 where "VIDEOMEMSTART = 0x7F000000"
definition VIDEOMEMFINISH :: u32 where "VIDEOMEMFINISH = 0x7FFFFFFF"
definition VIDEOMEMSIZE :: u32 where "VIDEOMEMSIZE = VIDEOMEMFINISH - VIDEOMEMSTART"

record fb_bitfield =
  bf_offset :: u32
  bf_length :: u32

record fb_var_screeninfo =
  xres :: u32
  yres :: u32
  xres_virtual :: u32
  yres_virtual :: u32
  bits_per_pixel :: u32
  red :: fb_bitfield
  green :: fb_bitfield
  blue :: fb_bitfield

record fb_fix_screeninfo =
  line_length :: u32
  smem_start :: u32
  smem_len :: u32

definition iveia_fb_default :: fb_var_screeninfo where
  "iveia_fb_default =
     \<lparr>xres = IV_SCREEN_WIDTH, yres = IV_SCREEN_HEIGHT, xres_virtual = IV_SCREEN_WIDTH, yres_virtual = IV_SCREEN_HEIGHT,
      bits_per_pixel = IV_BYTES_PER_PIXEL * 8,
      red = \<lparr>bf_offset = 11, bf_length = 5\<rparr>, green = \<lparr>bf_offset = 5, bf_length = 6\<rparr>,
      blue = \<lparr>bf_offset = 0, bf_length = 5\<rparr>\<rparr>"

definition iveia_fb_fix :: fb_fix_screeninfo where
  "iveia_fb_fix =
     \<lparr>line_length = IV_SCREEN_WIDTH * IV_BYTES_PER_PIXEL, smem_start = VIDEOMEMSTART, smem_len = VIDEOMEMSIZE\<rparr>"

text \<open>The global \<open>fb_addr\<close>, the mappings and the frame buffer structures that are live, and whether the platform device
  has one of them as its driver data, registered.\<close>

record 'p fb =
  fb_addr :: "'p option"
  fb_maps :: "'p list"
  fb_infos :: nat
  fb_drvdata :: bool

text \<open>The results of reading the words of the device-tree properties, the address \<open>ioremap\<close> gives, whether the structure
  can be allocated, and the answer of \<open>register_framebuffer\<close>.\<close>

record 'p fb_env =
  fe_reg :: "nat \<Rightarrow> int"
  fe_resolution :: "nat \<Rightarrow> int"
  fe_ioremap :: "u32 \<Rightarrow> u32 \<Rightarrow> 'p option"
  fe_alloc :: bool
  fe_register :: "fb_var_screeninfo \<Rightarrow> fb_fix_screeninfo \<Rightarrow> int"

definition iounmap :: "'p option \<Rightarrow> 'p fb \<Rightarrow> 'p fb option" where
  "iounmap a f = (case a of
     None \<Rightarrow> Some f
   | Some p \<Rightarrow> if p \<in> set (fb_maps f) then Some (f\<lparr>fb_maps := remove1 p (fb_maps f)\<rparr>) else None)"

text \<open>The loops over a property: the first error, or 0.\<close>

fun dt_words :: "(nat \<Rightarrow> int) \<Rightarrow> nat list \<Rightarrow> int" where
  "dt_words rd [] = 0"
| "dt_words rd (i # js) = (if rd i \<noteq> 0 then rd i else dt_words rd js)"

text \<open>The label \<open>out\<close>.\<close>

definition fb_out :: "int \<Rightarrow> bool \<Rightarrow> 'p fb \<Rightarrow> (int \<times> 'p fb) option" where
  "fb_out ret info f = do {
     let f = (if info then f\<lparr>fb_infos := fb_infos f - 1\<rparr> else f);
     f \<leftarrow> iounmap (fb_addr f) f;
     Some (ret, f) }"

definition iveia_fb_probe :: "'p fb_env \<Rightarrow> 'p fb \<Rightarrow> (int \<times> 'p fb) option" where
  "iveia_fb_probe E f =
     (let ret = dt_words (fe_reg E) [0, 1] in
      if ret \<noteq> 0 then fb_out ret False f
      else let ret = dt_words (fe_resolution E) [0, 1, 2] in
      if ret \<noteq> 0 then fb_out ret False f
      else let f = f\<lparr>fb_addr := fe_ioremap E (smem_start iveia_fb_fix) (smem_len iveia_fb_fix)\<rparr> in
      case fb_addr f of
        None \<Rightarrow> Some (- ENOMEM, f)
      | Some p \<Rightarrow>
          let f = f\<lparr>fb_maps := p # fb_maps f\<rparr> in
          if \<not> fe_alloc E then fb_out ret False f
          else let f = f\<lparr>fb_infos := fb_infos f + 1\<rparr>;
                   ret = fe_register E iveia_fb_default iveia_fb_fix
               in if ret < 0 then fb_out ret True f else Some (0, f\<lparr>fb_drvdata := True\<rparr>))"

definition iveia_fb_remove :: "'p fb \<Rightarrow> (int \<times> 'p fb) option" where
  "iveia_fb_remove f =
     (if fb_drvdata f then do {
        f \<leftarrow> iounmap (fb_addr f) (f\<lparr>fb_drvdata := False\<rparr>);
        Some (0, f\<lparr>fb_infos := fb_infos f - 1\<rparr>) }
      else Some (0, f))"

text \<open>The screen fits the video memory, whose size is computed one byte short, and a line is as long as its pixels.\<close>

theorem fb_geometry:
  "unat (yres iveia_fb_default) * unat (line_length iveia_fb_fix) \<le> unat (smem_len iveia_fb_fix)"
  "unat (line_length iveia_fb_fix) * 8 = unat (xres iveia_fb_default) * unat (bits_per_pixel iveia_fb_default)"
  "unat (smem_len iveia_fb_fix) + 1 = unat VIDEOMEMFINISH - unat VIDEOMEMSTART + 1"
  by (simp_all add: iveia_fb_default_def iveia_fb_fix_def IV_SCREEN_WIDTH_def IV_SCREEN_HEIGHT_def
        IV_BYTES_PER_PIXEL_def VIDEOMEMSIZE_def VIDEOMEMSTART_def VIDEOMEMFINISH_def)

text \<open>The fields of a pixel fill it without overlap.\<close>

theorem fb_pixel_fields:
  "bf_offset (blue iveia_fb_default) + bf_length (blue iveia_fb_default) = bf_offset (green iveia_fb_default)"
  "bf_offset (green iveia_fb_default) + bf_length (green iveia_fb_default) = bf_offset (red iveia_fb_default)"
  "bf_offset (red iveia_fb_default) + bf_length (red iveia_fb_default) = bits_per_pixel iveia_fb_default"
  by (simp_all add: iveia_fb_default_def IV_BYTES_PER_PIXEL_def)

text \<open>A probe that sets the driver data holds one mapping and one structure more, and removing the device gives both
  back.\<close>

theorem fb_probe_remove:
  assumes "iveia_fb_probe E f = Some (r, f')" and "fb_drvdata f'" and "\<not> fb_drvdata f"
  shows "r = 0" and "\<exists>p. fb_addr f' = Some p \<and> fb_maps f' = p # fb_maps f" and "fb_infos f' = fb_infos f + 1"
    and "iveia_fb_remove f' = Some (0, f'\<lparr>fb_drvdata := False, fb_maps := fb_maps f, fb_infos := fb_infos f\<rparr>)"
  using assms
  by (auto simp: iveia_fb_probe_def fb_out_def iounmap_def iveia_fb_remove_def Let_def
      split: if_splits option.splits elim!: option_bindE)

text \<open>When the structure cannot be allocated the probe undoes the mapping and still reports success.\<close>

theorem fb_probe_alloc_failure:
  assumes "\<forall>i. fe_reg E i = 0" and "\<forall>i. fe_resolution E i = 0" and "\<not> fe_alloc E"
    and "fe_ioremap E (smem_start iveia_fb_fix) (smem_len iveia_fb_fix) = Some p"
  shows "iveia_fb_probe E f = Some (0, f\<lparr>fb_addr := Some p\<rparr>)"
  using assms by (simp add: iveia_fb_probe_def fb_out_def iounmap_def Let_def)

text \<open>\<open>fb_addr\<close> survives the failure, so that a later probe that fails early unmaps it a second time.\<close>

theorem fb_reprobe_unmaps_twice:
  assumes "fb_addr f = Some p" and "p \<notin> set (fb_maps f)" and "fe_reg E 0 \<noteq> 0"
  shows "iveia_fb_probe E f = None"
  using assms by (simp add: iveia_fb_probe_def fb_out_def iounmap_def Let_def)

section \<open>Video pass-through\<close>

definition IVPASS_WIDTH_MIN :: u32 where "IVPASS_WIDTH_MIN = 640"
definition IVPASS_WIDTH_MAX :: u32 where "IVPASS_WIDTH_MAX = 10328"
definition IVPASS_HEIGHT_MIN :: u32 where "IVPASS_HEIGHT_MIN = 480"
definition IVPASS_HEIGHT_MAX :: u32 where "IVPASS_HEIGHT_MAX = 7760"

record mbus_framefmt =
  ff_width :: u32
  ff_height :: u32
  ff_code :: u32
  ff_field :: u32
  ff_colorspace :: u32
  ff_ycbcr_enc :: u32
  ff_quantization :: u32

text \<open>The driver's state, and the formats on trial of one open file.\<close>

record ivpass_info =
  formats :: "mbus_framefmt list"
  default_format :: mbus_framefmt

type_synonym try_formats = "mbus_framefmt list"

text \<open>\<open>which\<close> of a request; any other number is \<open>WHICH_OTHER\<close>.\<close>

datatype which = V4L2_SUBDEV_FORMAT_TRY | V4L2_SUBDEV_FORMAT_ACTIVE | WHICH_OTHER

record subdev_format =
  sf_which :: which
  sf_pad :: nat
  sf_format :: mbus_framefmt

definition ivpass_s_stream :: "bool \<Rightarrow> int" where
  "ivpass_s_stream enable = 0"

text \<open>An entry of an array, \<open>None\<close> beyond its end.\<close>

definition arr_entry :: "'a list \<Rightarrow> nat \<Rightarrow> 'a option" where
  "arr_entry xs i = (if i < length xs then Some (xs ! i) else None)"

text \<open>The code reported for a request with the given \<open>which\<close>, index and pad.\<close>

definition ivpass_enum_mbus_code :: "try_formats \<Rightarrow> which \<Rightarrow> u32 \<Rightarrow> nat \<Rightarrow> (int \<times> u32 option) option" where
  "ivpass_enum_mbus_code cfg wh index pad =
     (if wh = V4L2_SUBDEV_FORMAT_ACTIVE then Some (- EINVAL, None)
      else if index \<noteq> 0 then Some (- EINVAL, None)
      else do { format \<leftarrow> arr_entry cfg pad; Some (0, Some (ff_code format)) })"

text \<open>The limits of the width and of the height.\<close>

definition ivpass_enum_frame_size :: "int \<times> (u32 \<times> u32) \<times> (u32 \<times> u32)" where
  "ivpass_enum_frame_size = (0, (IVPASS_WIDTH_MIN, IVPASS_WIDTH_MAX), (IVPASS_HEIGHT_MIN, IVPASS_HEIGHT_MAX))"

definition ivpass_get_fmt ::
  "ivpass_info \<Rightarrow> try_formats \<Rightarrow> subdev_format \<Rightarrow> (int \<times> subdev_format) option"
where
  "ivpass_get_fmt info cfg fmt = do {
     fmt \<leftarrow> (case sf_which fmt of
        V4L2_SUBDEV_FORMAT_TRY \<Rightarrow> do { x \<leftarrow> arr_entry cfg (sf_pad fmt); Some (fmt\<lparr>sf_format := x\<rparr>) }
      | V4L2_SUBDEV_FORMAT_ACTIVE \<Rightarrow> do { x \<leftarrow> arr_entry (formats info) (sf_pad fmt); Some (fmt\<lparr>sf_format := x\<rparr>) }
      | WHICH_OTHER \<Rightarrow> Some fmt);
     Some (0, fmt) }"

text \<open>The value of \<open>clamp_t\<close> is not used, so that the two statements have no effect.\<close>

definition clamp_t :: "u32 \<Rightarrow> u32 \<Rightarrow> u32 \<Rightarrow> u32" where
  "clamp_t v lo hi = min (max v lo) hi"

definition ivpass_set_fmt ::
  "ivpass_info \<Rightarrow> try_formats \<Rightarrow> subdev_format \<Rightarrow> (int \<times> ivpass_info \<times> try_formats) option"
where
  "ivpass_set_fmt info cfg fmt =
     (let _ = clamp_t (ff_width (sf_format fmt)) IVPASS_WIDTH_MIN IVPASS_WIDTH_MAX;
          _ = clamp_t (ff_height (sf_format fmt)) IVPASS_HEIGHT_MIN IVPASS_HEIGHT_MAX
      in case sf_which fmt of
        V4L2_SUBDEV_FORMAT_TRY \<Rightarrow>
          do { _ \<leftarrow> arr_entry cfg (sf_pad fmt); Some (0, info, cfg[sf_pad fmt := sf_format fmt]) }
      | V4L2_SUBDEV_FORMAT_ACTIVE \<Rightarrow>
          do { _ \<leftarrow> arr_entry (formats info) (sf_pad fmt);
               Some (0, info\<lparr>formats := (formats info)[sf_pad fmt := sf_format fmt]\<rparr>, cfg) }
      | WHICH_OTHER \<Rightarrow> Some (- EINVAL, info, cfg))"

definition ivpass_open :: "ivpass_info \<Rightarrow> try_formats \<Rightarrow> (int \<times> try_formats) option" where
  "ivpass_open info cfg = do {
     _ \<leftarrow> arr_entry cfg 0; let cfg = cfg[0 := default_format info];
     _ \<leftarrow> arr_entry cfg 1; let cfg = cfg[1 := default_format info];
     Some (0, cfg) }"

definition ivpass_close :: int where "ivpass_close = 0"

definition MEDIA_BUS_FMT_VYYUYY8_1X24 :: u32 where "MEDIA_BUS_FMT_VYYUYY8_1X24 = 0x202c"
definition V4L2_FIELD_NONE :: u32 where "V4L2_FIELD_NONE = 1"
definition V4L2_COLORSPACE_REC709 :: u32 where "V4L2_COLORSPACE_REC709 = 3"

definition ivpass_default :: mbus_framefmt where
  "ivpass_default = \<lparr>ff_width = 0, ff_height = 0, ff_code = MEDIA_BUS_FMT_VYYUYY8_1X24, ff_field = V4L2_FIELD_NONE,
     ff_colorspace = V4L2_COLORSPACE_REC709, ff_ycbcr_enc = 0, ff_quantization = 0\<rparr>"

text \<open>What the frameworks hold for the driver: the pads of its entity, and the registered sub-device.\<close>

record ivpass_media =
  im_pads :: bool
  im_registered :: bool

definition media_entity_cleanup :: "ivpass_media \<Rightarrow> ivpass_media" where
  "media_entity_cleanup m = m\<lparr>im_pads := False\<rparr>"

text \<open>\<open>pads_init\<close> and \<open>async_register\<close> are the answers of \<open>media_entity_pads_init\<close> and \<open>v4l2_async_register_subdev\<close>, 0 when
  they succeed.  The driver keeps them in a \<open>u32\<close>, which is never below zero.\<close>

definition ivpass_probe :: "bool \<Rightarrow> int \<Rightarrow> int \<Rightarrow> int \<times> ivpass_info option \<times> ivpass_media" where
  "ivpass_probe kzalloc_ok pads_init async_register =
     (let m = \<lparr>im_pads = False, im_registered = False\<rparr> in
      if \<not> kzalloc_ok then (- ENOMEM, None, m)
      else let info = \<lparr>formats = [ivpass_default, ivpass_default], default_format = ivpass_default\<rparr>;
               ret = of_int pads_init :: u32;
               m = m\<lparr>im_pads := pads_init = 0\<rparr>
           in if ret < 0 then (sint ret, Some info, media_entity_cleanup m)
           else let ret = of_int async_register :: u32;
                    m = m\<lparr>im_registered := async_register = 0\<rparr>
                in if ret < 0 then (sint ret, Some info, media_entity_cleanup m) else (0, Some info, m))"

definition ivpass_remove :: "ivpass_media \<Rightarrow> int \<times> ivpass_media" where
  "ivpass_remove m = (0, media_entity_cleanup (m\<lparr>im_registered := False\<rparr>))"

definition ivpass_wf :: "ivpass_info \<Rightarrow> try_formats \<Rightarrow> bool" where
  "ivpass_wf info cfg \<longleftrightarrow> length (formats info) = 2 \<and> length cfg = 2"

theorem ivpass_ops_wf:
  assumes "ivpass_wf info cfg"
  shows "sf_pad fmt < 2 \<Longrightarrow> \<exists>r info' cfg'. ivpass_set_fmt info cfg fmt = Some (r, info', cfg') \<and> ivpass_wf info' cfg'"
    and "sf_pad fmt < 2 \<Longrightarrow> \<exists>fmt'. ivpass_get_fmt info cfg fmt = Some (0, fmt')"
    and "\<exists>cfg'. ivpass_open info cfg = Some (0, cfg') \<and> ivpass_wf info cfg' \<and> set cfg' = {default_format info}"
proof -
  show "sf_pad fmt < 2 \<Longrightarrow> \<exists>r info' cfg'. ivpass_set_fmt info cfg fmt = Some (r, info', cfg') \<and> ivpass_wf info' cfg'"
    using assms by (cases "sf_which fmt") (auto simp: ivpass_set_fmt_def ivpass_wf_def arr_entry_def)
  show "sf_pad fmt < 2 \<Longrightarrow> \<exists>fmt'. ivpass_get_fmt info cfg fmt = Some (0, fmt')"
    using assms by (cases "sf_which fmt") (auto simp: ivpass_get_fmt_def ivpass_wf_def arr_entry_def)
  obtain a b where "cfg = [a, b]"
    using assms by (auto simp: ivpass_wf_def numeral_2_eq_2 length_Suc_conv)
  then show "\<exists>cfg'. ivpass_open info cfg = Some (0, cfg') \<and> ivpass_wf info cfg' \<and> set cfg' = {default_format info}"
    using assms by (auto simp: ivpass_open_def ivpass_wf_def arr_entry_def)
qed

text \<open>What is set is what is got, unclamped, and the other pad and the other kind of format keep theirs.\<close>

theorem ivpass_set_get:
  assumes "ivpass_set_fmt info cfg fmt = Some (0, info', cfg')"
  shows "ivpass_get_fmt info' cfg' (fmt\<lparr>sf_format := x\<rparr>) = Some (0, fmt)"
    and "sf_pad q \<noteq> sf_pad fmt \<or> sf_which q \<noteq> sf_which fmt \<Longrightarrow> ivpass_get_fmt info' cfg' q = ivpass_get_fmt info cfg q"
proof -
  show "ivpass_get_fmt info' cfg' (fmt\<lparr>sf_format := x\<rparr>) = Some (0, fmt)"
    using assms
    by (cases "sf_which fmt") (auto simp: ivpass_set_fmt_def ivpass_get_fmt_def arr_entry_def EINVAL_def split: if_splits)
  show "sf_pad q \<noteq> sf_pad fmt \<or> sf_which q \<noteq> sf_which fmt \<Longrightarrow> ivpass_get_fmt info' cfg' q = ivpass_get_fmt info cfg q"
    using assms
    by (cases "sf_which fmt"; cases "sf_which q")
       (auto simp: ivpass_set_fmt_def ivpass_get_fmt_def arr_entry_def EINVAL_def split: if_splits)
qed

text \<open>The probe reports success whatever the frameworks answer, and then leaves what succeeded in place; only removing the
  device cleans up.\<close>

theorem ivpass_probe_ignores_errors:
  "ivpass_probe True pads_init async_register =
     (0, Some \<lparr>formats = [ivpass_default, ivpass_default], default_format = ivpass_default\<rparr>,
      \<lparr>im_pads = pads_init = 0, im_registered = async_register = 0\<rparr>)"
  by (simp add: ivpass_probe_def Let_def)

theorem ivpass_probe_remove:
  "ivpass_remove (snd (snd (ivpass_probe True pads_init async_register))) =
     (0, \<lparr>im_pads = False, im_registered = False\<rparr>)"
  by (simp add: ivpass_probe_def ivpass_remove_def media_entity_cleanup_def Let_def)

end
