(* ===== verification/Tools.thy ===== *)
theory Tools
  imports Board_Init
begin

text \<open>
  The memory dump utility \<open>recipes-support/bdevmem/files/bdevmem.c\<close> and the reader of the alternate board information
  of the 00130 board, \<open>recipes-bsp/u-boot/files/eeprom-ipmi-00130.c\<close>.

  The system calls, the checksum of zlib and the I2C calls of U-Boot are parameters.  \<open>None\<close> as a result of the dump is
  undefined behaviour: an access beyond the mapped memory.
\<close>

section \<open>Numbers in any base\<close>

text \<open>\<open>strtoul\<close> with base 0, which takes the base from the prefix, and is 0 without digits.\<close>

definition strtoul0 :: "string \<Rightarrow> u64" where
  "strtoul0 s =
     (let t = snd (sign_split (dropWhile is_space s));
          base = (if hex_prefix 16 t \<noteq> t then 16 else if take 1 t = ''0'' then 8 else 10)
      in case strtoul base s of None \<Rightarrow> 0 | Some (v, _) \<Rightarrow> word_of_int v)"

section \<open>Dump of physical memory\<close>

definition MAGIC :: u32 where "MAGIC = 0x4a544147"

record header =
  h_magic :: u32
  h_len :: u32
  h_be_crc32 :: u32

text \<open>Words in memory, and their conversion from network order, on a little-endian machine.\<close>

definition le32 :: "byte list \<Rightarrow> nat \<Rightarrow> u32" where
  "le32 xs i = ucast (xs ! i) OR push_bit 8 (ucast (xs ! (i + 1))) OR push_bit 16 (ucast (xs ! (i + 2)))
     OR push_bit 24 (ucast (xs ! (i + 3)))"

definition ntohl :: "u32 \<Rightarrow> u32" where
  "ntohl w = push_bit 24 (w AND 0xFF) OR push_bit 8 (w AND 0xFF00) OR (drop_bit 8 w AND 0xFF00) OR (drop_bit 24 w AND 0xFF)"

definition sizeof_header :: nat where "sizeof_header = 12"

definition header_at :: "byte list \<Rightarrow> header" where
  "header_at xs = \<lparr>h_magic = le32 xs 0, h_len = le32 xs 4, h_be_crc32 = le32 xs 8\<rparr>"

text \<open>The results of the two calls of \<open>open\<close>; the bytes that can be accessed at the address \<open>mmap\<close> gives for a descriptor,
  a length and an offset, \<open>None\<close> for \<open>MAP_FAILED\<close>; the checksum; and the result of \<open>munmap\<close>.\<close>

record bd_env =
  bd_open1 :: int
  bd_open2 :: int
  bd_mmap :: "int \<Rightarrow> u64 \<Rightarrow> u64 \<Rightarrow> byte list option"
  bd_crc32 :: "byte list \<Rightarrow> u32"
  bd_munmap :: "u64 \<Rightarrow> int"

text \<open>From the second \<open>open\<close> on: the exit status and the bytes put out.\<close>

definition bd_dump :: "bd_env \<Rightarrow> u64 \<Rightarrow> u32 \<Rightarrow> header option \<Rightarrow> (int \<times> byte list) option" where
  "bd_dump E start len hdr =
     (if bd_open2 E = 1 then Some (4, [])
      else let skip = (if hdr = None then 0 else sizeof_header);
               map_len = len + of_nat skip :: u32
      in case bd_mmap E (bd_open2 E) (ucast map_len) start of
        None \<Rightarrow> Some (5, [])
      | Some m \<Rightarrow> do {
          crc_ok \<leftarrow> (case hdr of None \<Rightarrow> Some True
             | Some h \<Rightarrow> do { payload \<leftarrow> ldn m skip (unat len); Some (bd_crc32 E payload = ntohl (h_be_crc32 h)) });
          if \<not> crc_ok then Some (6, [])
          else do {
            out \<leftarrow> ldn m skip (unat len);
            Some (if bd_munmap E (ucast len) = -1 then 7 else 0, out) } })"

definition bdevmem_main :: "bd_env \<Rightarrow> string list \<Rightarrow> (int \<times> byte list) option" where
  "bdevmem_main E argv =
     (if length argv \<noteq> 3 then Some (1, [])
      else if argv ! 1 = ''-H'' then
        let start = strtoul0 (argv ! 2) in
        if bd_open1 E = 1 then Some (1, [])
        else case bd_mmap E (bd_open1 E) (of_nat sizeof_header) start of
          None \<Rightarrow> Some (2, [])
        | Some m \<Rightarrow> do {
            bytes \<leftarrow> ldn m 0 sizeof_header;
            let hdr = header_at bytes;
            if h_magic hdr \<noteq> MAGIC then Some (3, []) else bd_dump E start (h_len hdr) (Some hdr) }
      else bd_dump E (strtoul0 (argv ! 1)) (ucast (strtoul0 (argv ! 2))) None)"

text \<open>The bytes of the memory from an address on.\<close>

definition mem_bytes :: "(nat \<Rightarrow> byte) \<Rightarrow> nat \<Rightarrow> nat \<Rightarrow> byte list" where
  "mem_bytes mem a n = map (\<lambda>i. mem (a + i)) [0..<n]"

text \<open>Mappings show the memory, at least as much of it as was asked for.\<close>

definition maps_memory :: "bd_env \<Rightarrow> (nat \<Rightarrow> byte) \<Rightarrow> bool" where
  "maps_memory E mem \<longleftrightarrow>
     (\<forall>fd n a m. bd_mmap E fd n a = Some m \<longrightarrow> unat n \<le> length m \<and> m = mem_bytes mem (unat a) (length m))"

lemma ldn_mem:
  assumes "m = mem_bytes mem a (length m)" and "ldn m k n = Some xs"
  shows "xs = mem_bytes mem (a + k) n"
proof -
  have le: "k + n \<le> length m" and xs: "xs = take n (drop k m)"
    using assms(2) by (auto simp: ldn_def split: if_splits)
  have "take n (drop k (mem_bytes mem a (length m))) = mem_bytes mem (a + k) n"
    using le by (intro nth_equalityI) (simp_all add: mem_bytes_def add.assoc)
  then show ?thesis using assms(1) xs by simp
qed

lemma bd_dump_output:
  assumes "maps_memory E mem" and "bd_dump E start len hdr = Some (r, out)" and "r \<in> {0, 7}"
  shows "out = mem_bytes mem (unat start + (if hdr = None then 0 else sizeof_header)) (unat len) \<and>
    (\<forall>h. hdr = Some h \<longrightarrow> bd_crc32 E out = ntohl (h_be_crc32 h))"
proof -
  let ?skip = "if hdr = None then 0 else sizeof_header"
  obtain m where m: "bd_mmap E (bd_open2 E) (ucast (len + of_nat ?skip :: u32)) start = Some m"
    and out: "ldn m ?skip (unat len) = Some out" and crc: "\<forall>h. hdr = Some h \<longrightarrow> bd_crc32 E out = ntohl (h_be_crc32 h)"
    using assms(2,3)
    by (cases hdr) (auto simp: bd_dump_def Let_def split: if_split_asm option.split_asm elim!: option_bindE)
  have "m = mem_bytes mem (unat start) (length m)" using assms(1) m unfolding maps_memory_def by blast
  from ldn_mem [OF this out] crc show ?thesis by simp
qed

text \<open>What a dump that ends well puts out is the memory it names; with a header it carries the magic number, and the
  checksum in it is right.\<close>

theorem bdevmem_output:
  assumes "maps_memory E mem" and "bdevmem_main E [prog, a, b] = Some (0, out)"
  shows "if a = ''-H''
    then \<exists>hdr. hdr = header_at (mem_bytes mem (unat (strtoul0 b)) sizeof_header) \<and> h_magic hdr = MAGIC \<and>
           out = mem_bytes mem (unat (strtoul0 b) + sizeof_header) (unat (h_len hdr)) \<and>
           bd_crc32 E out = ntohl (h_be_crc32 hdr)
    else out = mem_bytes mem (unat (strtoul0 a)) (unat (ucast (strtoul0 b) :: u32))"
proof (cases "a = ''-H''")
  case True
  obtain m bytes where m: "bd_mmap E (bd_open1 E) (of_nat sizeof_header) (strtoul0 b) = Some m"
    and bytes: "ldn m 0 sizeof_header = Some bytes" and mg: "h_magic (header_at bytes) = MAGIC"
    and d: "bd_dump E (strtoul0 b) (h_len (header_at bytes)) (Some (header_at bytes)) = Some (0, out)"
    using assms(2) True
    by (auto simp: bdevmem_main_def Let_def split: if_split_asm option.split_asm elim!: option_bindE)
  have "m = mem_bytes mem (unat (strtoul0 b)) (length m)" using assms(1) m unfolding maps_memory_def by blast
  from ldn_mem [OF this bytes] have b: "bytes = mem_bytes mem (unat (strtoul0 b)) sizeof_header" by simp
  show ?thesis using bd_dump_output [OF assms(1) d] mg b True by auto
next
  case False
  then have "bd_dump E (strtoul0 a) (ucast (strtoul0 b)) None = Some (0, out)"
    using assms(2) by (simp add: bdevmem_main_def)
  from bd_dump_output [OF assms(1) this] False show ?thesis by simp
qed

lemma ldn_mem_ok: "k + n \<le> l \<Longrightarrow> ldn (mem_bytes mem a l) k n = Some (mem_bytes mem (a + k) n)"
  by (auto simp: ldn_def mem_bytes_def add.assoc intro!: nth_equalityI)

text \<open>A good header is dumped: the mappings succeed, the magic number and the checksum are right and the length leaves
  room for the header in 32 bits.\<close>

theorem bdevmem_header_dumped:
  fixes E :: bd_env and mem :: "nat \<Rightarrow> byte" and b :: string
  assumes "maps_memory E mem" and "\<And>fd n a. bd_mmap E fd n a \<noteq> None" and "bd_open1 E \<noteq> 1" and "bd_open2 E \<noteq> 1"
    and "\<And>n. bd_munmap E n = 0"
  defines "start \<equiv> unat (strtoul0 b)"
  defines "hdr \<equiv> header_at (mem_bytes mem start sizeof_header)"
  defines "payload \<equiv> mem_bytes mem (start + sizeof_header) (unat (h_len hdr))"
  assumes "h_magic hdr = MAGIC" and "unat (h_len hdr) + sizeof_header < 2 ^ 32" and "bd_crc32 E payload = ntohl (h_be_crc32 hdr)"
  shows "bdevmem_main E [prog, ''-H'', b] = Some (0, payload)"
proof -
  have mm: "\<exists>l. bd_mmap E fd n a = Some (mem_bytes mem (unat a) l) \<and> unat n \<le> l" for fd n a
    using assms(1) assms(2) [of fd n a] unfolding maps_memory_def by (metis option.exhaust)
  obtain l1 where l1: "bd_mmap E (bd_open1 E) (of_nat sizeof_header) (strtoul0 b) = Some (mem_bytes mem start l1)"
    and le1: "sizeof_header \<le> l1"
    using mm [of "bd_open1 E" "of_nat sizeof_header" "strtoul0 b"] by (auto simp: start_def sizeof_header_def)
  let ?n = "h_len hdr + of_nat sizeof_header :: u32"
  have n: "unat ?n = unat (h_len hdr) + sizeof_header"
    using assms(10) by (simp add: unat_word_ariths sizeof_header_def)
  obtain l2 where l2: "bd_mmap E (bd_open2 E) (ucast ?n) (strtoul0 b) = Some (mem_bytes mem start l2)"
    and le2: "sizeof_header + unat (h_len hdr) \<le> l2"
    using mm [of "bd_open2 E" "ucast ?n" "strtoul0 b"] n by (auto simp: start_def)
  have bytes: "ldn (mem_bytes mem start l1) 0 sizeof_header = Some (mem_bytes mem start sizeof_header)"
    using ldn_mem_ok [of 0 sizeof_header l1 mem start] le1 by simp
  have pay: "ldn (mem_bytes mem start l2) sizeof_header (unat (h_len hdr)) = Some payload"
    using ldn_mem_ok [OF le2, of mem start] by (simp add: payload_def)
  have dump: "bd_dump E (strtoul0 b) (h_len hdr) (Some hdr) = Some (0, payload)"
    using assms(4,5,11) l2 pay by (simp add: bd_dump_def)
  show ?thesis using assms(3,9) l1 bytes dump by (simp add: bdevmem_main_def hdr_def Let_def)
qed

text \<open>A length so large that the header makes it wrap maps a few bytes only, and the checksum runs beyond them.\<close>

theorem bdevmem_length_wraps:
  assumes "bd_open2 E \<noteq> 1" and "bd_mmap E (bd_open2 E) (ucast (len + of_nat sizeof_header :: u32)) start = Some m"
    and "length m < sizeof_header + unat len"
  shows "bd_dump E start len (Some hdr) = None"
  using assms by (simp add: bd_dump_def ldn_def)

section \<open>Alternate board information\<close>

definition BOARD_AREA_OFFSET :: u32 where "BOARD_AREA_OFFSET = 0x08"
definition BOARD_AREA_LEN :: nat where "BOARD_AREA_LEN = 72"
definition FORMAT_VERSION_OFFSET :: nat where "FORMAT_VERSION_OFFSET = 0"
definition FORMAT_VERSION_EXPECTED :: byte where "FORMAT_VERSION_EXPECTED = 4"
definition SN_OFFSET :: nat where "SN_OFFSET = 0x37"
definition BOARD_PN_STR :: string where "BOARD_PN_STR = ''205-00130-XX-XX''"
definition BOARD_NAME_STR :: string where "BOARD_NAME_STR = ''Atlas-II-Z8p-HD''"
definition IV_MB_ALT_I2C_BUS :: u32 where "IV_MB_ALT_I2C_BUS = 0"
definition IV_MB_EEPROM_ADDR :: byte where "IV_MB_EEPROM_ADDR = 0x52"

text \<open>\<open>i2c_read\<close> of a chip, an offset, the length of the offset and a number of bytes: the error, what is in the array
  afterwards, and the state.\<close>

record 'h ub_i2c =
  i2c_get_bus_num :: "'h \<Rightarrow> u32"
  i2c_set_bus_num :: "u32 \<Rightarrow> 'h \<Rightarrow> 'h"
  i2c_read :: "byte \<Rightarrow> u32 \<Rightarrow> nat \<Rightarrow> nat \<Rightarrow> 'h \<Rightarrow> int \<times> byte list \<times> 'h"

definition alt_sn :: "byte list \<Rightarrow> string" where
  "alt_sn area = map (\<lambda>b. char_of (unat b)) (takeWhile (\<lambda>b. b \<noteq> 0) (take SN_LEN (drop SN_OFFSET area)))"

definition alt_string :: "byte list \<Rightarrow> string" where
  "alt_string area = BOARD_PN_STR @ '','' @ alt_sn area @ '','' @ BOARD_NAME_STR"

definition read_alternate_ipmi :: "'h ub_i2c \<Rightarrow> 'h \<Rightarrow> string option \<times> 'h" where
  "read_alternate_ipmi I h =
     (let oldbus = i2c_get_bus_num I h;
          h = i2c_set_bus_num I IV_MB_ALT_I2C_BUS h;
          (err, area, h) = i2c_read I IV_MB_EEPROM_ADDR BOARD_AREA_OFFSET 2 BOARD_AREA_LEN h;
          s = (if err \<noteq> 0 then None
               else if area ! FORMAT_VERSION_OFFSET \<noteq> FORMAT_VERSION_EXPECTED then None
               else if sum_list area \<noteq> 0 then None
               else let buf = alt_string area in
                 if MAX_KERN_CMDLINE_FIELD_LEN \<le> length buf then None else Some buf)
      in (s, i2c_set_bus_num I oldbus h))"

lemma alt_string_fits: "length (alt_string area) < MAX_KERN_CMDLINE_FIELD_LEN"
proof -
  have "length (alt_sn area) \<le> SN_LEN"
    unfolding alt_sn_def length_map by (rule order_trans [OF length_takeWhile_le]) simp
  then show ?thesis
    by (simp add: alt_string_def BOARD_PN_STR_def BOARD_NAME_STR_def MAX_KERN_CMDLINE_FIELD_LEN_def SN_LEN_def)
qed

text \<open>The string is given exactly for a board area of the right version with a zero sum; the field buffer always takes
  it; and the bus in use before is selected again on every path.\<close>

theorem read_alternate_ipmi_spec:
  fixes I :: "'h ub_i2c" and h :: 'h
  defines "r \<equiv> i2c_read I IV_MB_EEPROM_ADDR BOARD_AREA_OFFSET 2 BOARD_AREA_LEN (i2c_set_bus_num I IV_MB_ALT_I2C_BUS h)"
  shows "fst (read_alternate_ipmi I h) =
     (if fst r = 0 \<and> fst (snd r) ! 0 = 4 \<and> sum_list (fst (snd r)) = 0 then Some (alt_string (fst (snd r))) else None)"
    and "snd (read_alternate_ipmi I h) = i2c_set_bus_num I (i2c_get_bus_num I h) (snd (snd r))"
  by (simp_all add: read_alternate_ipmi_def r_def case_prod_beta Let_def FORMAT_VERSION_OFFSET_def
        FORMAT_VERSION_EXPECTED_def not_le [THEN iffD2, OF alt_string_fits])

text \<open>Put into the environment, the string gives the part number, the serial number and the name back.\<close>

theorem alternate_fields:
  assumes "list_all clean (alt_sn area)" and "vars ''iv_mb'' = Some (alt_string area)"
  shows "iv_board_get_field vars IV_BOARD_CLASS_MB IV_BOARD_FIELD_PN IV_BOARD_SUBFIELD_NONE = Some BOARD_PN_STR"
    and "iv_board_get_field vars IV_BOARD_CLASS_MB IV_BOARD_FIELD_SN IV_BOARD_SUBFIELD_NONE = Some (alt_sn area)"
    and "iv_board_get_field vars IV_BOARD_CLASS_MB IV_BOARD_FIELD_NAME IV_BOARD_SUBFIELD_NONE = Some BOARD_NAME_STR"
proof -
  have c: "list_all clean BOARD_PN_STR" "list_all clean BOARD_NAME_STR"
    by (simp_all add: BOARD_PN_STR_def BOARD_NAME_STR_def clean_def)
  show "iv_board_get_field vars IV_BOARD_CLASS_MB IV_BOARD_FIELD_PN IV_BOARD_SUBFIELD_NONE = Some BOARD_PN_STR"
    "iv_board_get_field vars IV_BOARD_CLASS_MB IV_BOARD_FIELD_SN IV_BOARD_SUBFIELD_NONE = Some (alt_sn area)"
    "iv_board_get_field vars IV_BOARD_CLASS_MB IV_BOARD_FIELD_NAME IV_BOARD_SUBFIELD_NONE = Some BOARD_NAME_STR"
    using get_fields [of IV_BOARD_CLASS_MB "''iv_mb''" vars BOARD_PN_STR "alt_sn area" BOARD_NAME_STR] assms c
      alt_string_fits [of area]
    by (simp_all add: alt_string_def MAX_KERN_CMDLINE_FIELD_LEN_def)
qed

end
