(* ===== verification/Spec2Isabelle.thy ===== *)
theory Spec2Isabelle
  imports Fru_Cli Zap_Driver Events Board_Init Ocp Fsbl_Boot Fsbl_Init Zynq_Hooks Small_Drivers Tools
begin

text \<open>
  Verification of the C code of the iVeia board support layer (the Yocto layer meta-iveia).  File names are relative
  to \<open>src/\<close>.

  \<^bold>\<open>The program.\<close>  Every iVeia board carries an EEPROM with a FRU image: a common header and a board information area
  with the manufacturing date, manufacturer, product, serial number, part number and custom fields, closed by a checksum.
  Four programs share this format.  The tool \<open>ivfru\<close> creates and edits images, under Linux and at the U-Boot prompt.
  U-Boot reads the image of each board when it starts, puts its fields into the environment and derives the Ethernet
  addresses from the serial number.  The first stage boot loader reads the part number to choose the image on the SD
  card, tries its list of boot devices, and programs the clock generator of the board.  Under Linux, drivers give user
  programs access to the FPGA: ZAP moves packets by DMA through pools of buffers, the events driver distributes
  interrupts to open files, OCP opens windows onto the bus; PWM, frame buffer, video pass-through and MDIO are small.

  \<^bold>\<open>Theories and sources.\<close>
  \<^item> \<open>Prelude\<close>: machine types, byte memory with bounds, C integers, number conversion of the C library, error numbers,
    ioctl numbers, and the list, option and word lemmas shared by all components.
  \<^item> \<open>Fru_Codec\<close>, \<open>Fru_Date\<close>, \<open>Fru_Validate\<close>, \<open>Fru_Edit\<close>, \<open>Fru_Ops\<close>: \<open>recipes-bsp/shared/files/ivfru_common.c\<close> and its
    header, in the order of the file: type-length fields and checksum; dates; the validator with the abstract record
    \<open>fru\<close> and its encoder; the transformations of the buffer; the commands around them.
  \<^item> \<open>Fru_Plat\<close>: the interface \<open>ivfru_plat.h\<close> as the record \<open>plat\<close>, its contract as the locales \<open>fru_buffer\<close> and
    \<open>fru_platform\<close>, and the Linux implementation \<open>recipes-bsp/ivfru/files/ivfru_plat.c\<close>, which interprets them.
    \<open>Fru_Uboot\<close>: the U-Boot implementation \<open>recipes-bsp/u-boot/files/ivfru_plat.c\<close>, the second interpretation.
  \<^item> \<open>Fru_Cli\<close>: the two front ends \<open>recipes-bsp/ivfru/files/ivfru.c\<close> and \<open>recipes-bsp/u-boot/files/ivfru.c\<close>.
  \<^item> \<open>Board_Init\<close>: \<open>recipes-bsp/u-boot/files/iveia-init.c\<close>.
  \<^item> \<open>Zap_Pool\<close>, \<open>Zap_Dma\<close>, \<open>Zap_Driver\<close>: \<open>recipes-kernel/iv-zap/src/\<close> \<open>pool.c\<close>; \<open>dma_zynq.c\<close> and \<open>dma.c\<close>; \<open>zap.c\<close>.
    The locale \<open>buffer_pool\<close> is what the driver relies on of the pool.
  \<^item> \<open>Events\<close>: \<open>recipes-kernel/iv-events/src/events.c\<close>.  \<open>Ocp\<close>: \<open>recipes-kernel/iv-ocp/src/ocp.c\<close>.
  \<^item> \<open>Fsbl_Boot\<close>, \<open>Fsbl_Init\<close>, \<open>Zynq_Hooks\<close>: \<open>recipes-bsp/fsbl-firmware/files/\<close> \<open>iv_z8_sequence_boot.c\<close> with
    \<open>iv_z8_user_boot_sequence.c\<close>; \<open>iv_z8_init.c\<close> with the clock table \<open>clkinit_100_125_26_125.h\<close> and the hooks of the
    machines; \<open>zynq-hooks.c\<close>.
  \<^item> \<open>Small_Drivers\<close>: \<open>pwm-iveia.c\<close>, \<open>mdio-i2c-gen.c\<close>, \<open>iv-fbdev.c\<close>, \<open>iveia-passthrough.c\<close>.  \<open>Tools\<close>: \<open>bdevmem.c\<close> and
    \<open>eeprom-ipmi-00130.c\<close>.
  \<^item> This theory: the statement that spans the tool and the boot loader.

  \<^bold>\<open>State and operations.\<close>  A C structure is a record with its fields, an enumeration a datatype; \<open>char\<close> is an unsigned
  8-bit word, wider integers are words of their width, and \<open>int\<close> is an integer whose overflow is undefined or written
  out.  A C function is one definition with the same name where that is free.  A result of \<open>None\<close> is undefined behaviour
  of the source (an access outside an array, a stale pointer, a signed overflow) or a call that does not return (a loop
  that does not end, a lock that is held); theorems that state a result \<open>Some\<close> therefore state that the call returns.
  Error returns are values.  Kernel, C library, U-Boot, vendor boot loader, programs run by the tool and the hardware are
  parameters: records of functions over a state of their own, or arguments such as whether a signal arrives, an
  allocation succeeds or a user copy faults.  What a theorem relies on of them is a premise, and its witness exhibits an
  instance.  An operation under a semaphore or spin lock is one step; interleavings are sequences of such steps, given
  as inductive step relations for the pool (\<open>pool_step\<close>), the ZAP nodes (\<open>zap_step\<close>), the events driver and OCP.

  \<^bold>\<open>What is shown.\<close>
  \<^item> FRU images: the validator accepts exactly the encodings of well-formed records and stays within a known distance of
    the area; \<open>add\<close>, \<open>rm\<close>, \<open>create\<close> and \<open>fix\<close> refine insertion, removal, creation and conversion of the abstract record,
    on the buffer, on Linux files, in the RAM of U-Boot and from the command line; dates round-trip; a write sends valid
    images only; write protection is restored on every path; a usage error changes nothing.
  \<^item> Boards: the scan of U-Boot reports the stored fields; serial numbers give distinct addresses; the sequencer selects
    the first attempt of the list that has an image, and an image made by \<open>ivfru create\<close> makes it select the SD image of
    the board's ordinal; the clock generator ends up with the registers of its table, and the I2C bus is released on
    every path whatever the hardware does; the outputs of the Si5326 have the documented frequencies.
  \<^item> ZAP: no sequence of calls, interrupts and receive-task rounds corrupts a pool; packets stay within the memory and
    disjoint; buffers come out in the order they were queued; a received packet reaches the reader and a written one the
    FPGA; stopping reclaims all buffers; the receive task ends; a blocking get returns once woken with a free packet.
  \<^item> Events: the nested loops of the interrupt handler are one bitwise delivery per file; a request is answered; counts
    and interrupt depth are right in every reachable state.  OCP: reads and writes stay in the window, what is written is
    read back, positions stay aligned.
  \<^item> Where the code fails, the failure is a theorem too: out-of-bounds accesses, a deadlock, false success of probes,
    truncated addresses.

  \<^bold>\<open>Bounds and fuel.\<close>  The search for a power of two in \<open>dma_zynq.c\<close> has fuel 65, enough because its 64-bit operand is
  zero after 64 shifts.  The waits of \<open>iv_z8_init.c\<close> are bounded in the source (100 polls, \<open>PLL_TRIES\<close> reads) and are
  recursions on these numbers; its receive loop and the loop over \<open>fread\<close> are unbounded in the source and are partial
  functions, as is the loop over multi-boot values, whose counter may overflow.  All other loops are structural or
  carry a termination proof.  Waits on a queue take the list of wake-ups as an argument.

  \<^bold>\<open>Not modelled.\<close>  Four clock tables that no source includes, and \<open>busyloop.c\<close>, a counting loop without output; texts
  printed for the user other than those of \<open>display\<close> and \<open>/proc\<close>; \<open>pr_boot_mode\<close>, which only names a mode for a message;
  cache maintenance and delays, which have no effect in the model; module tables and registration boilerplate; recipes,
  device trees and shell scripts of the layer.
\<close>

section \<open>From the programming of a board to its boot\<close>

text \<open>The EEPROM of a board as the boot loader reads it: the transfers succeed and deliver the given bytes.\<close>

definition eeprom_holds :: "'h fsbl_env \<Rightarrow> byte list \<Rightarrow> bool" where
  "eeprom_holds F img \<longleftrightarrow> iic_config F \<and> iic_init F \<and> iic_selftest F \<and> (\<forall>xs h. fst (iic_send F xs h)) \<and>
     (\<forall>n h. fst (iic_recv F n h) \<and> fst (snd (iic_recv F n h)) = take n img)"

lemma read_ipmi_holds:
  assumes "eeprom_holds F img" "length img = 72" "validate_ipmi img = 0"
  shows "\<exists>h'. read_ipmi F h = (0, img, h')"
proof -
  obtain ok h1 where 1: "iic_send F [0, 0] h = (ok, h1)" by force
  obtain ok' xs h2 where 2: "iic_recv F 72 h1 = (ok', xs, h2)" by (metis prod_cases3)
  have c: "iic_config F" "iic_init F" "iic_selftest F" "fst (iic_send F [0, 0] h)" "fst (iic_recv F 72 h1)"
    "fst (snd (iic_recv F 72 h1)) = take 72 img"
    using assms(1) by (simp_all add: eeprom_holds_def)
  then have "ok" "ok'" "xs = img" using 1 2 assms(2) by simp_all
  then show ?thesis using c(1-3) 1 2 assms(2,3) by (simp add: read_ipmi_def sizeof_iv_ipmi_def)
qed

lemma take_drop_mid: "length xs = n \<Longrightarrow> length ys = m \<Longrightarrow> take m (drop n (xs @ ys @ zs)) = ys"
  by auto

text \<open>The image of a board created with the default lengths is the fixed structure of the boot loader.\<close>

lemma created_image_layout:
  assumes "image_at H CH_DEFAULT f (least_pad f)" "f = created_fru [t0, t1, t2] [(mfr, 10), (product, 16), (sn, 10), (pn, 15)]"
    and "length product \<le> 16" "length sn \<le> 10" "length pn \<le> 15" "length mfr \<le> 10"
  shows "\<exists>img. H img \<and> length img = 72 \<and> validate_ipmi img = 0 \<and> take 15 (drop 54 img) = pn @ replicate (15 - length pn) 0x20"
proof -
  let ?p = "\<lambda>s m. s @ replicate (m - length s) (0x20 :: byte)"
  let ?t = "\<lambda>s m. push_bit 6 3 OR of_nat (length (?p s m)) :: byte"
  have fields: "enc_fields (fru_predef f) = ?t mfr 10 # ?p mfr 10 @ ?t product 16 # ?p product 16 @ ?t sn 10 # ?p sn 10 @ ?t pn 15 # ?p pn 15"
    unfolding assms(2) by (simp add: created_fru_def settled_def padded_field_def new_field_def)
  have l: "length (enc_fields (fru_predef f)) = 55" unfolding fields using assms(3-6) by simp
  have d: "fru_date f = [t0, t1, t2]" "fru_custom f = []" unfolding assms(2) by (simp_all add: created_fru_def)
  have "length (enc_body 0 f 0) = 63" by (simp add: length_enc_body d l)
  then have pad: "least_pad f = 0" by (simp add: least_pad_def round8_def)
  obtain lenb where H: "H (CH_DEFAULT @ enc_bia lenb f 0)" using assms(1) unfolding image_at_def pad by blast
  let ?img = "CH_DEFAULT @ enc_bia lenb f 0" and ?body = "enc_body lenb f 0"
  let ?pre = "CH_DEFAULT @ [0x01, lenb, 0x00] @ [t0, t1, t2] @ ?t mfr 10 # ?p mfr 10 @ ?t product 16 # ?p product 16 @ ?t sn 10 # ?p sn 10 @ [?t pn 15]"
  have img: "?img = ?pre @ ?p pn 15 @ 0x00 # FRU_END_MARKER # [- sum_list ?body]"
    unfolding enc_bia_def enc_body_def d fields by simp
  have "length CH_DEFAULT = 8" "sum_list CH_DEFAULT = 0" by (simp_all add: CH_DEFAULT_def)
  moreover from this have "length ?pre = 54" using assms(3,4,6) by simp
  then have "take 15 (drop 54 ?img) = ?p pn 15" unfolding img by (rule take_drop_mid) (use assms(5) in simp)
  moreover have "length (enc_bia lenb f 0) = 64" by (simp add: enc_bia_def length_enc_body d l)
  moreover have "sum_list (enc_bia lenb f 0) = 0" by (simp add: enc_bia_def)
  moreover have "enc_bia lenb f 0 ! 0 = 1" by (simp add: enc_bia_def enc_body_def)
  ultimately have "length ?img = 72" "validate_ipmi ?img = 0" "take 15 (drop 54 ?img) = ?p pn 15"
    by (simp_all add: validate_ipmi_def sizeof_iv_common_header_def nth_append)
  then show ?thesis using H by blast
qed

text \<open>At power-up, with an SD card that has no image for multi-boot value 0 but one for the value \<open>ord\<close>, the
  sequencer selects that image and resets, and after the reset lets the boot go on.\<close>

definition boots_sd_image :: "'h fsbl_env \<Rightarrow> nat \<Rightarrow> bool" where
  "boots_sd_image F ord \<longleftrightarrow> (\<forall>good b.
     (\<forall>mode mb h. fst (device_init F mode mb h) = XFSBL_SUCCESS F \<longleftrightarrow> good mode mb) \<and>
     \<not> good (XFSBL_SD0_BOOT_MODE F) 0 \<and> good (XFSBL_SD0_BOOT_MODE F) (of_nat ord) \<and> \<not> bit (boot_mode_user b) 8 \<and>
     boot_mode_user b AND BOOT_MODE_USER_BOOT_MODE_MASK F \<noteq> XFSBL_JTAG_BOOT_MODE F \<longrightarrow>
     (\<exists>b'. iv_sequence_boot F (boot_seq F) b = Some (Boot_Resets b') \<and>
       selected F b (XFSBL_SD0_BOOT_MODE F) (int ord) b' \<and> iv_sequence_boot F (boot_seq F) b' = Some (Boot_Returns b')))"


text \<open>An example: an EEPROM with the given bytes, and an SD card with an image for the value 127 only.\<close>

definition sample_sd_env :: "byte list \<Rightarrow> unit fsbl_env" where
  "sample_sd_env img = sample_fsbl_env\<lparr>iic_config := True, iic_recv := (\<lambda>n h. (True, take n img, h)),
     XFsbl_SdInit := (\<lambda>mode mb h. (if mode = 3 \<and> mb = 127 then 0 else 9, h))\<rparr>"


end
